(* ===== verification/Aequa_Prelude.thy ===== *)
theory Aequa_Prelude
  imports Main "HOL-Library.Word" "HOL-Library.FSet" "HOL-Library.Multiset"
begin

text \<open>
  Shared vocabulary of the development: the machine types of the Go sources, the metric
  events every component emits, the reading of a Go map with its zero value, the order in
  which a Go \<^verbatim>\<open>range\<close> visits a map, and \<^verbatim>\<open>sort.SliceStable\<close> with the lemmas the
  mempool, the builder and the auction solver rest on.
\<close>

section \<open>Types of the Go sources\<close>

type_synonym u64 = "64 word"
type_synonym u32 = "32 word"
type_synonym u16 = "16 word"
type_synonym byte = "8 word"
type_synonym bytes = "byte list"

text \<open>
  Calls of \<^verbatim>\<open>pkg/metrics\<close>. A label set is written as the association list of the Go map
  literal. Operations return the metric events they emit, in order; the store that
  accumulates them is \<open>Metrics\<close>.
\<close>

type_synonym labels = "(string \<times> string) list"

datatype metric =
    Inc string labels
  | AddGauge string labels int
  | SetGauge string labels int
  | ObserveSummary string labels nat

definition count_inc :: "string \<Rightarrow> labels \<Rightarrow> metric list \<Rightarrow> nat" where
  "count_inc n ls ms = length (filter (\<lambda>m. m = Inc n ls) ms)"

lemma count_inc_simps [simp]:
  "count_inc n ls [] = 0"
  "count_inc n ls (m # ms) = (if m = Inc n ls then Suc (count_inc n ls ms) else count_inc n ls ms)"
  "count_inc n ls (ms @ ms') = count_inc n ls ms + count_inc n ls ms'"
  by (simp_all add: count_inc_def)

section \<open>Go maps\<close>

declare fcard_fempty [simp]

text \<open>Reading a missing key of a Go map yields the zero value of the element type.\<close>

definition getz :: "'v \<Rightarrow> ('k \<rightharpoonup> 'v) \<Rightarrow> 'k \<Rightarrow> 'v" where
  "getz z m k = (case m k of None \<Rightarrow> z | Some v \<Rightarrow> v)"

lemma getz_simps [simp]:
  "getz z Map.empty k = z"
  "getz z (m(k \<mapsto> v)) k' = (if k' = k then v else getz z m k')"
  by (simp_all add: getz_def)

text \<open>
  \<^verbatim>\<open>range\<close> over a map visits every key once, in an order the language leaves open. An
  operation that ranges over a map takes that order as an argument; \<open>range_order\<close> says
  which lists are possible.
\<close>

definition range_order :: "('k \<rightharpoonup> 'v) \<Rightarrow> 'k list \<Rightarrow> bool" where
  "range_order m ks \<longleftrightarrow> distinct ks \<and> set ks = dom m"

definition flatten :: "('k \<rightharpoonup> 'a list) \<Rightarrow> 'k list \<Rightarrow> 'a list" where
  "flatten m ks = concat (map (getz [] m) ks)"

lemma range_order_mset:
  assumes "range_order m ks" and "range_order m ks'"
  shows "mset ks = mset ks'"
  using assms by (metis range_order_def set_eq_iff_mset_eq_distinct)

lemma mset_flatten_cong: "mset ks = mset ks' \<Longrightarrow> mset (flatten m ks) = mset (flatten m ks')"
proof -
  assume perm: "mset ks = mset ks'"
  have "mset (flatten m xs) = sum_mset (image_mset (\<lambda>k. mset (getz [] m k)) (mset xs))" for xs
    by (induction xs) (simp_all add: flatten_def)
  with perm show ?thesis by simp
qed

lemma mset_flatten_order:
  "range_order m ks \<Longrightarrow> range_order m ks' \<Longrightarrow> mset (flatten m ks) = mset (flatten m ks')"
  by (rule mset_flatten_cong, rule range_order_mset)

lemma set_flatten: "range_order m ks \<Longrightarrow> set (flatten m ks) = \<Union> (set ` ran m)"
  by (auto simp: flatten_def range_order_def getz_def ran_def dom_def split: option.splits)

lemma length_flatten: "length (flatten m ks) = sum_list (map (\<lambda>k. length (getz [] m k)) ks)"
  by (simp add: flatten_def length_concat comp_def)

section \<open>sort.SliceStable\<close>

text \<open>
  The stable sort of the standard library, as the insertion sort its contract describes:
  an element is put in front of the first one that is not \<open>lt\<close> than it.
\<close>

fun sins :: "('a \<Rightarrow> 'a \<Rightarrow> bool) \<Rightarrow> 'a \<Rightarrow> 'a list \<Rightarrow> 'a list" where
  "sins lt x [] = [x]"
| "sins lt x (y # ys) = (if lt y x then y # sins lt x ys else x # y # ys)"

definition slice_stable :: "('a \<Rightarrow> 'a \<Rightarrow> bool) \<Rightarrow> 'a list \<Rightarrow> 'a list" where
  "slice_stable lt xs = foldr (sins lt) xs []"

lemma slice_stable_simps [simp]:
  "slice_stable lt [] = []"
  "slice_stable lt (x # xs) = sins lt x (slice_stable lt xs)"
  by (simp_all add: slice_stable_def)

lemma mset_sins [simp]: "mset (sins lt x ys) = add_mset x (mset ys)"
  by (induction ys) auto

lemma mset_slice_stable [simp]: "mset (slice_stable lt xs) = mset xs"
  by (induction xs) auto

lemma set_slice_stable [simp]: "set (slice_stable lt xs) = set xs"
  by (metis mset_slice_stable set_mset_mset)

lemma length_slice_stable [simp]: "length (slice_stable lt xs) = length xs"
  by (metis mset_slice_stable size_mset)

lemma distinct_slice_stable [simp]: "distinct (slice_stable lt xs) = distinct xs"
  by (metis distinct_count_atmost_1 mset_slice_stable set_slice_stable)

text \<open>Stability: elements that are pairwise not \<open>lt\<close> keep their relative order.\<close>

lemma filter_sins:
  "\<forall>y\<in>set ys. P x \<longrightarrow> P y \<longrightarrow> \<not> lt y x \<Longrightarrow> filter P (sins lt x ys) = filter P (x # ys)"
  by (induction ys) auto

lemma slice_stable_stable:
  assumes "\<forall>x\<in>set xs. \<forall>y\<in>set xs. P x \<longrightarrow> P y \<longrightarrow> \<not> lt y x"
  shows "filter P (slice_stable lt xs) = filter P xs"
  using assms
proof (induction xs)
  case (Cons x xs)
  then have "filter P (sins lt x (slice_stable lt xs)) = filter P (x # slice_stable lt xs)"
    by (intro filter_sins) auto
  with Cons show ?case by auto
qed simp

text \<open>Go calls of \<^verbatim>\<open>less\<close> are expected to be a strict weak order on the slice's elements.\<close>

locale weak_order =
  fixes A :: "'a set" and lt :: "'a \<Rightarrow> 'a \<Rightarrow> bool"
  assumes asym: "x \<in> A \<Longrightarrow> y \<in> A \<Longrightarrow> lt x y \<Longrightarrow> \<not> lt y x"
    and negtrans: "x \<in> A \<Longrightarrow> y \<in> A \<Longrightarrow> z \<in> A \<Longrightarrow> lt x z \<Longrightarrow> lt x y \<or> lt y z"
begin

abbreviation ordered :: "'a list \<Rightarrow> bool" where
  "ordered xs \<equiv> sorted_wrt (\<lambda>a b. \<not> lt b a) xs"

lemma sorted_sins:
  "x \<in> A \<Longrightarrow> set ys \<subseteq> A \<Longrightarrow> ordered ys \<Longrightarrow> ordered (sins lt x ys)"
proof (induction ys)
  case (Cons y ys)
  have mem: "set (sins lt x ys) = insert x (set ys)"
    by (metis mset_sins set_mset_add_mset_insert set_mset_mset)
  show ?case
  proof (cases "lt y x")
    case True
    with Cons show ?thesis by (auto simp: mem dest: asym)
  next
    case False
    with Cons.prems have "\<forall>b\<in>set ys. \<not> lt b x"
      using negtrans [of _ y x] by auto
    with False Cons.prems show ?thesis by simp
  qed
qed simp

lemma sorted_slice_stable: "set xs \<subseteq> A \<Longrightarrow> ordered (slice_stable lt xs)"
proof (induction xs)
  case (Cons x xs)
  then have "ordered (sins lt x (slice_stable lt xs))"
    by (intro sorted_sins) simp_all
  then show ?case by simp
qed simp

text \<open>Everything a prefix of the sorted slice leaves out is not better than what it keeps.\<close>

lemma take_best:
  assumes "set xs \<subseteq> A" and "x \<in> set (take n (slice_stable lt xs))"
    and "y \<in> set (drop n (slice_stable lt xs))"
  shows "\<not> lt y x"
proof -
  have "ordered (take n (slice_stable lt xs) @ drop n (slice_stable lt xs))"
    using sorted_slice_stable [OF assms(1)] by simp
  with assms(2,3) show ?thesis by (simp only: sorted_wrt_append) blast
qed

lemma ordered_unique:
  assumes "mset xs = mset ys" and "ordered xs" and "ordered ys" and "set xs \<subseteq> A"
    and anti: "\<forall>a\<in>set xs. \<forall>b\<in>set xs. \<not> lt a b \<longrightarrow> \<not> lt b a \<longrightarrow> a = b"
  shows "xs = ys"
  using assms
proof (induction xs arbitrary: ys)
  case (Cons x xs)
  from Cons.prems(1) obtain y ys' where ys: "ys = y # ys'"
    by (cases ys) auto
  have sets: "set (x # xs) = set (y # ys')"
    using Cons.prems(1) ys by (metis set_mset_mset)
  have "y = x \<or> \<not> lt y x"
    using Cons.prems(2) sets by auto
  moreover have "y = x \<or> \<not> lt x y"
    using Cons.prems(3) sets ys by auto
  ultimately have "x = y"
    using Cons.prems(5) sets by (metis list.set_intros(1))
  moreover have "xs = ys'"
    using Cons.prems ys \<open>x = y\<close> by (intro Cons.IH) auto
  ultimately show ?case using ys by simp
qed simp

text \<open>The result of the sort depends on the elements only, not on their order.\<close>

lemma slice_stable_permute:
  assumes "mset xs = mset ys" and "set xs \<subseteq> A"
    and "\<forall>a\<in>set xs. \<forall>b\<in>set xs. \<not> lt a b \<longrightarrow> \<not> lt b a \<longrightarrow> a = b"
  shows "slice_stable lt xs = slice_stable lt ys"
proof -
  have "set ys \<subseteq> A"
    using assms(1,2) by (metis set_mset_mset)
  then show ?thesis
    using assms by (intro ordered_unique sorted_slice_stable) simp_all
qed

end

lemma sins_front: "\<forall>y\<in>set ys. \<not> lt y x \<Longrightarrow> sins lt x ys = x # ys"
  by (cases ys) auto

lemma slice_stable_id: "sorted_wrt (\<lambda>a b. \<not> lt b a) xs \<Longrightarrow> slice_stable lt xs = xs"
  by (induction xs) (auto simp: sins_front)

text \<open>Lexicographic comparison of byte slices, as the comparators of the sources write it out.\<close>

fun bytes_less :: "bytes \<Rightarrow> bytes \<Rightarrow> bool" where
  "bytes_less [] ys = (ys \<noteq> [])"
| "bytes_less (x # xs) [] = False"
| "bytes_less (x # xs) (y # ys) = (if x \<noteq> y then x < y else bytes_less xs ys)"

lemma bytes_less_Nil [simp]: "\<not> bytes_less xs []"
  by (cases xs) auto

lemma bytes_less_asym: "bytes_less xs ys \<Longrightarrow> \<not> bytes_less ys xs"
  by (induction xs ys rule: bytes_less.induct) (auto split: if_splits)

lemma bytes_less_total: "\<not> bytes_less xs ys \<Longrightarrow> \<not> bytes_less ys xs \<Longrightarrow> xs = ys"
  by (induction xs ys rule: bytes_less.induct) (auto split: if_splits)

lemma bytes_less_trans: "bytes_less xs ys \<Longrightarrow> bytes_less ys zs \<Longrightarrow> bytes_less xs zs"
proof (induction xs ys arbitrary: zs rule: bytes_less.induct)
  case (1 ys) then show ?case by (cases zs) (auto elim: bytes_less.elims)
next
  case (3 x xs y ys) then show ?case by (cases zs) (auto split: if_splits)
qed simp

lemma bytes_less_negtrans: "bytes_less xs zs \<Longrightarrow> bytes_less xs ys \<or> bytes_less ys zs"
  by (metis bytes_less_total bytes_less_trans)

section \<open>Errors as values\<close>

text \<open>A fallible operation returns \<open>Inl\<close> of its error or \<open>Inr\<close> of its result.\<close>

definition is_ok :: "'e + 'a \<Rightarrow> bool" where
  "is_ok r = (case r of Inl _ \<Rightarrow> False | Inr _ \<Rightarrow> True)"

lemma is_ok_simps [simp]: "is_ok (Inr x)" "\<not> is_ok (Inl e)"
  by (simp_all add: is_ok_def)

lemma is_ok_iff: "is_ok r \<longleftrightarrow> (\<exists>x. r = Inr x)"
  by (cases r) auto

section \<open>Splitting\<close>

text \<open>\<^verbatim>\<open>strings.Split\<close> on one character: always at least one piece.\<close>

fun split_on :: "'a \<Rightarrow> 'a list \<Rightarrow> 'a list list" where
  "split_on c [] = [[]]"
| "split_on c (x # xs) =
     (if x = c then [] # split_on c xs else (x # hd (split_on c xs)) # tl (split_on c xs))"

lemma split_on_nonempty [simp]: "split_on c xs \<noteq> []"
  by (cases xs) simp_all

lemma split_on_join: "c \<notin> set w \<Longrightarrow> split_on c (w @ c # xs) = w # split_on c xs"
  by (induction w) auto

lemma split_on_single: "c \<notin> set w \<Longrightarrow> split_on c w = [w]"
  by (induction w) auto

section \<open>Growing maps of lists\<close>

lemma count_flatten:
  "distinct ks \<Longrightarrow> count (mset (flatten m ks)) x = (\<Sum>k\<in>set ks. count (mset (getz [] m k)) x)"
  by (induction ks) (simp_all add: flatten_def)

lemma mset_flatten_mono:
  fixes m m' :: "'k \<rightharpoonup> 'a list"
  assumes ext: "\<And>k. \<exists>r. getz [] m' k = getz [] m k @ r"
    and "range_order m ks" and "range_order m' ks'"
  shows "mset (flatten m ks) \<subseteq># mset (flatten m' ks')"
proof (rule mset_subset_eqI)
  fix x :: 'a
  let ?c = "\<lambda>m k. count (mset (getz [] m k)) x"
  have le: "?c m k \<le> ?c m' k" for k using ext [of k] by auto
  have out: "?c m k = 0" if "k \<notin> set ks'" for k
    using that ext [of k] assms(3) by (auto simp: range_order_def getz_def dom_def split: option.splits)
  have "(\<Sum>k\<in>set ks. ?c m k) = (\<Sum>k\<in>set ks \<inter> set ks'. ?c m k)"
    using out by (intro sum.mono_neutral_right) auto
  also have "\<dots> \<le> (\<Sum>k\<in>set ks \<inter> set ks'. ?c m' k)" by (intro sum_mono le)
  also have "\<dots> \<le> (\<Sum>k\<in>set ks'. ?c m' k)" by (intro sum_mono2) auto
  finally show "count (mset (flatten m ks)) x \<le> count (mset (flatten m' ks')) x"
    using assms(2,3) by (simp add: range_order_def count_flatten)
qed

section \<open>Decimal printing\<close>

text \<open>\<^verbatim>\<open>%d\<close> on an unsigned integer.\<close>

definition digit :: "nat \<Rightarrow> char" where
  "digit n = char_of (48 + n)"

fun decimal :: "nat \<Rightarrow> string" where
  "decimal n = (if n < 10 then [digit n] else decimal (n div 10) @ [digit (n mod 10)])"

declare decimal.simps [simp del]

lemma of_char_digit: "n < 10 \<Longrightarrow> of_char (digit n) = 48 + n"
  by (simp add: digit_def)

lemma digit_inj: "a < 10 \<Longrightarrow> b < 10 \<Longrightarrow> digit a = digit b \<longleftrightarrow> a = b"
  by (metis add_left_cancel of_char_digit)

lemma digit_not_dash: "n < 10 \<Longrightarrow> digit n \<noteq> CHR ''-''"
proof
  assume n: "n < 10" and d: "digit n = CHR ''-''"
  have "of_char (CHR ''-'') = (45::nat)" by simp
  with of_char_digit [OF n] d show False by simp
qed

lemma decimal_not_dash: "CHR ''-'' \<notin> set (decimal n)"
  by (induction n rule: decimal.induct) (subst decimal.simps, auto simp: digit_not_dash dest: sym)

lemma decimal_nonempty [simp]: "decimal n \<noteq> []"
  by (subst decimal.simps) simp

lemma decimal_inj: "decimal a = decimal b \<longleftrightarrow> a = b"
proof
  show "decimal a = decimal b \<Longrightarrow> a = b"
  proof (induction a arbitrary: b rule: decimal.induct)
    case (1 a)
    show ?case
    proof (cases "a < 10"; cases "b < 10")
      assume ab: "\<not> a < 10" "\<not> b < 10"
      then have "decimal (a div 10) = decimal (b div 10)" "a mod 10 = b mod 10"
        using "1.prems" by (simp_all add: decimal.simps [of a] decimal.simps [of b] digit_inj)
      with "1.IH" [OF ab(1)] show ?thesis by (metis div_mod_decomp)
    qed (use "1.prems" in \<open>auto simp: decimal.simps [of a] decimal.simps [of b] digit_inj decimal_nonempty [symmetric]\<close>)
  qed
qed simp

end
