(* ===== verification/Qbft_Message.thy ===== *)
theory Qbft_Message
  imports Aequa_Prelude
begin

text \<open>
  The QBFT message of \<^verbatim>\<open>internal/consensus/qbft/message.go\<close>. The Go type
  \<^verbatim>\<open>Type\<close> is a string with five constants; \<open>MsgOther\<close> stands for every other string,
  so \<open>MsgOther ''''\<close> is the zero value.
\<close>

datatype qtype = MsgPreprepare | MsgPrepare | MsgCommit | MsgViewChange | MsgNewView
  | MsgOther string

fun type_string :: "qtype \<Rightarrow> string" where
  "type_string MsgPreprepare = ''preprepare''"
| "type_string MsgPrepare = ''prepare''"
| "type_string MsgCommit = ''commit''"
| "type_string MsgViewChange = ''view_change''"
| "type_string MsgNewView = ''new_view''"
| "type_string (MsgOther s) = s"

definition type_of_string :: "string \<Rightarrow> qtype" where
  "type_of_string s =
     (if s = ''preprepare'' then MsgPreprepare
      else if s = ''prepare'' then MsgPrepare
      else if s = ''commit'' then MsgCommit
      else if s = ''view_change'' then MsgViewChange
      else if s = ''new_view'' then MsgNewView
      else MsgOther s)"

lemma type_string_of_string [simp]: "type_string (type_of_string s) = s"
  by (simp add: type_of_string_def)

text \<open>The representation of a type that a string conversion produces.\<close>

definition canonical_type :: "qtype \<Rightarrow> bool" where
  "canonical_type t \<longleftrightarrow> type_of_string (type_string t) = t"

lemma canonical_type_simps [simp]:
  "canonical_type MsgPreprepare" "canonical_type MsgPrepare" "canonical_type MsgCommit"
  "canonical_type MsgViewChange" "canonical_type MsgNewView" "canonical_type (type_of_string s)"
  by (simp_all add: canonical_type_def) (simp_all add: type_of_string_def)

record Message =
  m_From :: string
  m_Height :: u64
  m_Round :: u64
  m_Type :: qtype
  m_Payload :: bytes
  m_ID :: string
  m_TraceID :: string
  m_Sig :: bytes

text \<open>The zero value \<^verbatim>\<open>Message{}\<close>.\<close>

definition zero_Message :: Message where
  "zero_Message = \<lparr>m_From = '''', m_Height = 0, m_Round = 0, m_Type = MsgOther '''',
     m_Payload = [], m_ID = '''', m_TraceID = '''', m_Sig = []\<rparr>"

text \<open>Prepare and commit are the votes: the messages the WAL keeps and the node broadcasts.\<close>

definition is_vote :: "Message \<Rightarrow> bool" where
  "is_vote m \<longleftrightarrow> m_Type m = MsgPrepare \<or> m_Type m = MsgCommit"

text \<open>A message with only the fields that examples need.\<close>

definition mk_msg :: "qtype \<Rightarrow> string \<Rightarrow> u64 \<Rightarrow> u64 \<Rightarrow> string \<Rightarrow> Message" where
  "mk_msg t from h r i = zero_Message\<lparr>m_Type := t, m_From := from, m_Height := h,
     m_Round := r, m_ID := i\<rparr>"

lemma mk_msg_simps [simp]:
  "m_Type (mk_msg t from h r i) = t" "m_From (mk_msg t from h r i) = from"
  "m_Height (mk_msg t from h r i) = h" "m_Round (mk_msg t from h r i) = r"
  "m_ID (mk_msg t from h r i) = i" "m_Sig (mk_msg t from h r i) = []"
  "m_Payload (mk_msg t from h r i) = []" "m_TraceID (mk_msg t from h r i) = ''''"
  by (simp_all add: mk_msg_def zero_Message_def)

end
