(* ===== verification/Payloads.thy ===== *)
theory Payloads
  imports Aequa_Prelude
begin

text \<open>
  The payload types of \<^verbatim>\<open>internal/payload\<close> and its plugins: the interface \<^verbatim>\<open>Payload\<close> as a
  datatype with one constructor per implementation, and its four methods. SHA-256 is the
  argument \<open>sha\<close>; the cached hash field is the value it caches.
\<close>

record PlaintextTx =
  pt_From :: string
  pt_Nonce :: u64
  pt_Gas :: u64
  pt_Fee :: u64
  pt_Sig :: bytes

record AuctionBidTx =
  at_From :: string
  at_Nonce :: u64
  at_Gas :: u64
  at_Bid :: u64
  at_FeeRecipient :: string
  at_Sig :: bytes

record PrivateTx =
  pv_From :: string
  pv_Nonce :: u64
  pv_Ciphertext :: bytes
  pv_EphemeralKey :: bytes
  pv_TargetHeight :: u64
  pv_BatchIndex :: u64
  pv_PuncturedKey :: bytes

datatype payload = Plaintext PlaintextTx | Auction AuctionBidTx | Private PrivateTx

text \<open>The bytes of a Go string.\<close>

definition str_bytes :: "string \<Rightarrow> bytes" where
  "str_bytes s = map of_char s"

definition low_byte :: "u64 \<Rightarrow> byte" where
  "low_byte w = ucast w"

fun Type_of :: "payload \<Rightarrow> string" where
  "Type_of (Plaintext t) = ''plaintext_v1''"
| "Type_of (Auction t) = ''auction_bid_v1''"
| "Type_of (Private t) = ''private_v1''"

definition plaintext_Hash :: "(bytes \<Rightarrow> bytes) \<Rightarrow> PlaintextTx \<Rightarrow> bytes" where
  "plaintext_Hash sha t =
     sha (str_bytes (pt_From t) @ [low_byte (pt_Nonce t), low_byte (pt_Gas t), low_byte (pt_Fee t)])"

definition auction_Hash :: "(bytes \<Rightarrow> bytes) \<Rightarrow> AuctionBidTx \<Rightarrow> bytes" where
  "auction_Hash sha t =
     sha (str_bytes (at_From t) @ str_bytes (at_FeeRecipient t)
          @ [low_byte (at_Nonce t), low_byte (at_Gas t), low_byte (at_Bid t)])"

definition private_Hash :: "(bytes \<Rightarrow> bytes) \<Rightarrow> PrivateTx \<Rightarrow> bytes" where
  "private_Hash sha t = sha (str_bytes (pv_From t) @ [low_byte (pv_Nonce t)] @ pv_Ciphertext t)"

fun Hash :: "(bytes \<Rightarrow> bytes) \<Rightarrow> payload \<Rightarrow> bytes" where
  "Hash sha (Plaintext t) = plaintext_Hash sha t"
| "Hash sha (Auction t) = auction_Hash sha t"
| "Hash sha (Private t) = private_Hash sha t"

text \<open>\<^verbatim>\<open>Validate\<close>: true when the Go method returns nil.\<close>

definition plaintext_Validate :: "PlaintextTx \<Rightarrow> bool" where
  "plaintext_Validate t \<longleftrightarrow> \<not> (pt_From t = [] \<or> pt_Gas t = 0 \<or> length (pt_Sig t) < 32)"

definition auction_Validate :: "AuctionBidTx \<Rightarrow> bool" where
  "auction_Validate t \<longleftrightarrow>
     \<not> (at_From t = [] \<or> at_FeeRecipient t = [] \<or> at_Gas t = 0 \<or> at_Bid t = 0 \<or> length (at_Sig t) < 32)"

definition private_Validate :: "PrivateTx \<Rightarrow> bool" where
  "private_Validate t \<longleftrightarrow>
     \<not> (pv_From t = [] \<or> length (pv_Ciphertext t) = 0 \<or> length (pv_EphemeralKey t) = 0)"

fun Validate :: "payload \<Rightarrow> bool" where
  "Validate (Plaintext t) = plaintext_Validate t"
| "Validate (Auction t) = auction_Validate t"
| "Validate (Private t) = private_Validate t"

fun SortKey :: "payload \<Rightarrow> u64" where
  "SortKey (Plaintext t) = pt_Fee t"
| "SortKey (Auction t) = at_Bid t"
| "SortKey (Private t) = 0"

text \<open>
  What a pool promises to the container and the builder (the Go interface \<^verbatim>\<open>TypedMempool\<close>
  with its comments): it delivers valid payloads of its own type, as many as it holds or
  as asked for, and adding does not remove anything. \<open>rng\<close> is the order of map iterations
  inside the pool.
\<close>

locale typed_mempool =
  fixes ptype :: string
    and add :: "'h \<Rightarrow> payload \<Rightarrow> 'p \<Rightarrow> (string + unit) \<times> 'p \<times> metric list"
    and get :: "'r \<Rightarrow> int \<Rightarrow> 'p \<Rightarrow> payload list"
    and len :: "'r \<Rightarrow> 'p \<Rightarrow> nat"
    and rng_ok :: "'p \<Rightarrow> 'r \<Rightarrow> bool"
    and inv :: "'p \<Rightarrow> bool"
  assumes add_inv: "inv p \<Longrightarrow> inv (fst (snd (add h x p)))"
    and get_typed: "inv p \<Longrightarrow> rng_ok p r \<Longrightarrow> x \<in> set (get r n p) \<Longrightarrow> Type_of x = ptype \<and> Validate x"
    and get_length: "rng_ok p r \<Longrightarrow>
          length (get r n p) = (if 0 < n then min (nat n) (len r p) else len r p)"
    and get_all_mset: "rng_ok p r \<Longrightarrow> rng_ok p r' \<Longrightarrow> mset (get r 0 p) = mset (get r' 0 p)"
    and add_keeps: "rng_ok p r \<Longrightarrow> rng_ok (fst (snd (add h x p))) r' \<Longrightarrow>
          mset (get r 0 p) \<subseteq># mset (get r' 0 (fst (snd (add h x p))))"
begin

lemma get_all_length: "rng_ok p r \<Longrightarrow> length (get r (int (len r p)) p) = len r p"
  by (simp add: get_length)

lemma len_unique: "rng_ok p r \<Longrightarrow> rng_ok p r' \<Longrightarrow> len r p = len r' p"
  using get_all_mset [of p r r'] get_length [of p r 0] get_length [of p r' 0]
  by (metis less_irrefl size_mset)

lemma len_mono: "rng_ok p r \<Longrightarrow> rng_ok (fst (snd (add h x p))) r' \<Longrightarrow> len r p \<le> len r' (fst (snd (add h x p)))"
  using add_keeps [of p r h x r'] get_length [of p r 0] get_length [of "fst (snd (add h x p))" r' 0]
  by (metis less_irrefl size_mset size_mset_mono)

end

end
