(* ===== verification/Event_Bus.thy ===== *)
theory Event_Bus
  imports Qbft_Message Payloads "HOL-Library.Sublist"
begin

text \<open>
  \<^verbatim>\<open>pkg/bus/event.go\<close>: the bounded channel between the producers of events (API, P2P) and
  the consensus service. \<^verbatim>\<open>Publish\<close> never blocks: it drops the event when the buffer is full.
  The bodies an event carries are the ones the node's code puts in or asks for.
\<close>

section \<open>Events and the channel\<close>

datatype kind = KindDuty | KindConsensus | KindTx | KindOther string

fun kind_string :: "kind \<Rightarrow> string" where
  "kind_string KindDuty = ''duty''"
| "kind_string KindConsensus = ''consensus''"
| "kind_string KindTx = ''tx''"
| "kind_string (KindOther s) = s"

datatype body = BodyNil | BodyMessage Message | BodyPayload payload | BodyBytes bytes

record Event =
  ev_Kind :: kind
  ev_Height :: u64
  ev_Round :: u64
  ev_Body :: body
  ev_TraceID :: string

record Bus =
  bus_cap :: nat
  bus_queue :: "Event list"

definition bus_New :: "int \<Rightarrow> Bus" where
  "bus_New sz = \<lparr>bus_cap = nat (if sz \<le> 0 then 128 else sz), bus_queue = []\<rparr>"

definition Publish :: "Event \<Rightarrow> Bus \<Rightarrow> Bus" where
  "Publish ev b = (if length (bus_queue b) < bus_cap b then b\<lparr>bus_queue := bus_queue b @ [ev]\<rparr> else b)"

text \<open>The receive of the subscriber; \<open>None\<close> when it has to wait.\<close>

definition receive :: "Bus \<Rightarrow> Event option \<times> Bus" where
  "receive b = (case bus_queue b of [] \<Rightarrow> (None, b) | ev # q \<Rightarrow> (Some ev, b\<lparr>bus_queue := q\<rparr>))"

section \<open>Interleavings\<close>

datatype bus_op = Pub Event | Recv

fun bus_run :: "bus_op list \<Rightarrow> Bus \<Rightarrow> Event list \<times> Bus" where
  "bus_run [] b = ([], b)"
| "bus_run (Pub ev # ops) b = bus_run ops (Publish ev b)"
| "bus_run (Recv # ops) b =
     (let (x, b') = receive b; (got, b'') = bus_run ops b'
      in ((case x of None \<Rightarrow> got | Some ev \<Rightarrow> ev # got), b''))"

definition published :: "bus_op list \<Rightarrow> Event list" where
  "published ops = List.map_filter (\<lambda>x. case x of Pub ev \<Rightarrow> Some ev | Recv \<Rightarrow> None) ops"

lemma published_simps [simp]:
  "published [] = []" "published (Pub ev # ops) = ev # published ops" "published (Recv # ops) = published ops"
  by (simp_all add: published_def map_filter_simps)

lemma bus_run_subseq:
  "bus_run ops b = (got, b') \<Longrightarrow> subseq (got @ bus_queue b') (bus_queue b @ published ops)"
proof (induction ops b arbitrary: got rule: bus_run.induct)
  case (2 ev ops b)
  then have sub: "subseq (got @ bus_queue b') (bus_queue (Publish ev b) @ published ops)" by simp
  show ?case
  proof (cases "length (bus_queue b) < bus_cap b")
    case True
    with sub show ?thesis by (simp add: Publish_def)
  next
    case False
    with sub have "subseq (got @ bus_queue b') (bus_queue b @ published ops)" by (simp add: Publish_def)
    also have "subseq \<dots> (bus_queue b @ published (Pub ev # ops))" by (auto intro: list_emb_append_mono)
    finally show ?thesis .
  qed
next
  case (3 ops b)
  then show ?case by (cases "bus_queue b") (auto simp: receive_def split: prod.splits)
qed simp

lemma bus_run_bounded:
  "bus_run ops b = (got, b') \<Longrightarrow> length (bus_queue b) \<le> bus_cap b
     \<Longrightarrow> length (bus_queue b') \<le> bus_cap b \<and> bus_cap b' = bus_cap b"
proof (induction ops b arbitrary: got rule: bus_run.induct)
  case (2 ev ops b)
  then show ?case by (simp add: Publish_def split: if_splits)
next
  case (3 ops b)
  then show ?case by (cases "bus_queue b") (auto simp: receive_def split: prod.splits)
qed simp

text \<open>Publishes that find a free slot: at no point do more events wait than the buffer holds.\<close>

fun roomy :: "nat \<Rightarrow> nat \<Rightarrow> bus_op list \<Rightarrow> bool" where
  "roomy cap n [] \<longleftrightarrow> True"
| "roomy cap n (Pub ev # ops) \<longleftrightarrow> n < cap \<and> roomy cap (Suc n) ops"
| "roomy cap n (Recv # ops) \<longleftrightarrow> roomy cap (n - 1) ops"

lemma bus_run_lossless:
  "bus_run ops b = (got, b') \<Longrightarrow> roomy (bus_cap b) (length (bus_queue b)) ops
     \<Longrightarrow> got @ bus_queue b' = bus_queue b @ published ops"
proof (induction ops b arbitrary: got rule: bus_run.induct)
  case (2 ev ops b)
  then show ?case by (simp add: Publish_def split: if_splits)
next
  case (3 ops b)
  then show ?case by (cases "bus_queue b") (auto simp: receive_def split: prod.splits)
qed simp

section \<open>Properties\<close>

text \<open>
  C36: under every interleaving of publishers and the consumer the bus is a bounded queue:
  what was received followed by what waits is a subsequence of what was published, in the
  same order; the buffer never exceeds its size; and nothing is lost in a run in which every
  publish finds a free slot.
\<close>

theorem bus_bounded_fifo:
  assumes "bus_run ops (bus_New sz) = (got, b')"
  shows "subseq (got @ bus_queue b') (published ops)
    \<and> length (bus_queue b') \<le> nat (if sz \<le> 0 then 128 else sz)
    \<and> (roomy (nat (if sz \<le> 0 then 128 else sz)) 0 ops \<longrightarrow> got @ bus_queue b' = published ops)"
  using bus_run_subseq [OF assms] bus_run_bounded [OF assms] bus_run_lossless [OF assms]
  by (simp add: bus_New_def)

definition demo_event :: "u64 \<Rightarrow> Event" where
  "demo_event h = \<lparr>ev_Kind = KindDuty, ev_Height = h, ev_Round = 0, ev_Body = BodyNil, ev_TraceID = ''t''\<rparr>"

theorem bus_bounded_fifo_witness:
  "fst (bus_run [Pub (demo_event 1), Pub (demo_event 2), Recv] (bus_New 2)) = [demo_event 1]
   \<and> roomy 2 0 [Pub (demo_event 1), Pub (demo_event 2), Recv]
   \<and> (let (got, b') = bus_run [Pub (demo_event 1), Pub (demo_event 2), Recv] (bus_New 2)
      in got @ bus_queue b' = [demo_event 1, demo_event 2])"
proof -
  let ?ops = "[Pub (demo_event 1), Pub (demo_event 2), Recv]"
  obtain got b' where run: "bus_run ?ops (bus_New 2) = (got, b')" by fastforce
  have "got = [demo_event 1]" using run by (simp add: bus_New_def Publish_def receive_def)
  moreover have "roomy 2 0 ?ops" by simp
  moreover have "got @ bus_queue b' = published ?ops" using bus_bounded_fifo [OF run] by simp
  ultimately show ?thesis using run by simp
qed

end
