(* ===== verification/Qbft_Verifier.thy ===== *)
theory Qbft_Verifier
  imports Qbft_Message
begin

text \<open>
  \<^verbatim>\<open>internal/consensus/qbft/verifier.go\<close>: the anti-replay memory, the policy and
  \<^verbatim>\<open>BasicVerifier.Verify\<close>. The mutex of \<^verbatim>\<open>AntiReplay\<close> makes each lookup-and-record one
  step. A nil and an empty Go map read alike, so both are the empty map here.
\<close>

section \<open>Anti-replay memory\<close>

record AntiReplay =
  ar_seen :: "string set"
  ar_hSeen :: "string \<rightharpoonup> u64"

definition NewAntiReplay :: AntiReplay where
  "NewAntiReplay = \<lparr>ar_seen = {}, ar_hSeen = Map.empty\<rparr>"

definition Seen :: "string \<Rightarrow> AntiReplay \<Rightarrow> bool \<times> AntiReplay" where
  "Seen i r =
     (if i = '''' then (False, r)
      else if i \<in> ar_seen r then (True, r)
      else (False, r\<lparr>ar_seen := insert i (ar_seen r)\<rparr>))"

definition SeenWithin :: "string \<Rightarrow> u64 \<Rightarrow> u64 \<Rightarrow> AntiReplay \<Rightarrow> bool \<times> AntiReplay" where
  "SeenWithin i h window r =
     (if i = '''' \<or> window = 0 then (False, r)
      else if (case ar_hSeen r i of None \<Rightarrow> False
               | Some l \<Rightarrow> l \<le> h \<and> h - l \<le> window) then (True, r)
      else (False, r\<lparr>ar_hSeen := (ar_hSeen r)(i \<mapsto> h)\<rparr>))"

section \<open>Verifier state and policy\<close>

record Policy =
  pol_MinHeight :: u64
  pol_RoundWindow :: u64
  pol_ReplayWindow :: u64
  pol_TypeMinHeight :: "qtype \<rightharpoonup> u64"
  pol_TypeRoundMax :: "qtype \<rightharpoonup> u64"
  pol_Allowed :: "string list"

definition DefaultPolicy :: Policy where
  "DefaultPolicy = \<lparr>pol_MinHeight = 0, pol_RoundWindow = 0, pol_ReplayWindow = 0,
     pol_TypeMinHeight = Map.empty, pol_TypeRoundMax = Map.empty, pol_Allowed = []\<rparr>"

record BasicVerifier =
  v_replay :: "AntiReplay option"
  v_minHeight :: u64
  v_roundWindow :: u64
  v_allowed :: "string set"
  v_replayWindow :: u64
  v_typeMinHeight :: "qtype \<rightharpoonup> u64"
  v_typeRoundMax :: "qtype \<rightharpoonup> u64"

definition NewBasicVerifier :: BasicVerifier where
  "NewBasicVerifier = \<lparr>v_replay = Some NewAntiReplay, v_minHeight = 0, v_roundWindow = 0,
     v_allowed = {}, v_replayWindow = 0, v_typeMinHeight = Map.empty,
     v_typeRoundMax = Map.empty\<rparr>"

definition SetMinHeight :: "u64 \<Rightarrow> BasicVerifier \<Rightarrow> BasicVerifier" where
  "SetMinHeight h v = v\<lparr>v_minHeight := h\<rparr>"

definition SetRoundWindow :: "u64 \<Rightarrow> BasicVerifier \<Rightarrow> BasicVerifier" where
  "SetRoundWindow w v = v\<lparr>v_roundWindow := w\<rparr>"

definition SetAllowed :: "string list \<Rightarrow> BasicVerifier \<Rightarrow> BasicVerifier" where
  "SetAllowed ids v = v\<lparr>v_allowed := fold insert ids (v_allowed v)\<rparr>"

definition SetReplayWindow :: "u64 \<Rightarrow> BasicVerifier \<Rightarrow> BasicVerifier" where
  "SetReplayWindow w v = v\<lparr>v_replayWindow := w\<rparr>"

definition SetTypeMinHeight :: "qtype \<Rightarrow> u64 \<Rightarrow> BasicVerifier \<Rightarrow> BasicVerifier" where
  "SetTypeMinHeight t h v = v\<lparr>v_typeMinHeight := (v_typeMinHeight v)(t \<mapsto> h)\<rparr>"

definition SetTypeRoundMax :: "qtype \<Rightarrow> u64 \<Rightarrow> BasicVerifier \<Rightarrow> BasicVerifier" where
  "SetTypeRoundMax t mx v = v\<lparr>v_typeRoundMax := (v_typeRoundMax v)(t \<mapsto> mx)\<rparr>"

text \<open>
  The \<^verbatim>\<open>len(...) > 0\<close> guards on the two policy maps only avoid replacing a nil map by an
  empty one.
\<close>

definition NewBasicVerifierWithPolicy :: "Policy \<Rightarrow> BasicVerifier" where
  "NewBasicVerifierWithPolicy p =
     (let v = NewBasicVerifier;
          v = (if 0 < pol_MinHeight p then v\<lparr>v_minHeight := pol_MinHeight p\<rparr> else v);
          v = (if 0 < pol_RoundWindow p then v\<lparr>v_roundWindow := pol_RoundWindow p\<rparr> else v);
          v = (if 0 < pol_ReplayWindow p then v\<lparr>v_replayWindow := pol_ReplayWindow p\<rparr> else v);
          v = v\<lparr>v_typeMinHeight := pol_TypeMinHeight p\<rparr>;
          v = v\<lparr>v_typeRoundMax := pol_TypeRoundMax p\<rparr>
      in if pol_Allowed p \<noteq> [] then SetAllowed (pol_Allowed p) v else v)"

section \<open>Verify\<close>

datatype verify_error = ErrInvalid | ErrUnauthorized | ErrSigInvalid | ErrPreprepareRound
  | ErrOldHeight | ErrRoundOob | ErrReplay | ErrRoundFor qtype | ErrTypeOldHeight
  | ErrTypeRoundOob

fun validType :: "qtype \<Rightarrow> bool" where
  "validType (MsgOther _) = False"
| "validType _ = True"

definition verified :: "string \<Rightarrow> metric" where
  "verified result = Inc ''qbft_msg_verified_total'' [(''result'', result)]"

text \<open>The anti-replay block: windowed when a window is configured, else by id.\<close>

definition check_replay :: "BasicVerifier \<Rightarrow> Message \<Rightarrow> bool \<times> BasicVerifier" where
  "check_replay v msg =
     (case v_replay v of
        None \<Rightarrow> (False, v)
      | Some r \<Rightarrow>
          (let (seen, r') =
             (if 0 < v_replayWindow v
              then SeenWithin (m_ID msg) (m_Height msg) (v_replayWindow v) r
              else Seen (m_ID msg) r)
           in (seen, v\<lparr>v_replay := Some r'\<rparr>)))"

definition Verify ::
  "BasicVerifier \<Rightarrow> Message \<Rightarrow> (verify_error + unit) \<times> BasicVerifier \<times> metric list" where
  "Verify v msg =
     (if m_ID msg = '''' \<or> m_From msg = '''' \<or> \<not> validType (m_Type msg)
      then (Inl ErrInvalid, v, [verified ''error''])
      else if v_allowed v \<noteq> {} \<and> m_From msg \<notin> v_allowed v
      then (Inl ErrUnauthorized, v, [verified ''unauthorized''])
      else if 0 < length (m_Sig msg) \<and> length (m_Sig msg) < 32
      then (Inl ErrSigInvalid, v, [verified ''sig_invalid''])
      else if m_Type msg = MsgPreprepare \<and> m_Round msg \<noteq> 0
      then (Inl ErrPreprepareRound, v, [verified ''error''])
      else if 0 < v_minHeight v \<and> m_Height msg < v_minHeight v
      then (Inl ErrOldHeight, v, [verified ''old''])
      else if 0 < v_roundWindow v \<and> v_roundWindow v < m_Round msg
      then (Inl ErrRoundOob, v, [verified ''round_oob''])
      else case check_replay v msg of (seen, v') \<Rightarrow>
        if seen then (Inl ErrReplay, v', [verified ''replay''])
        else if m_Type msg = MsgPreprepare \<and> m_Round msg \<noteq> 0
        then (Inl ErrPreprepareRound, v', [verified ''error''])
        else if (m_Type msg = MsgPrepare \<or> m_Type msg = MsgCommit) \<and> m_Round msg < 1
        then (Inl (ErrRoundFor (m_Type msg)), v', [verified ''error''])
        else if (case v_typeMinHeight v (m_Type msg) of None \<Rightarrow> False
                 | Some mn \<Rightarrow> 0 < mn \<and> m_Height msg < mn)
        then (Inl ErrTypeOldHeight, v', [verified ''old''])
        else if (case v_typeRoundMax v (m_Type msg) of None \<Rightarrow> False
                 | Some mx \<Rightarrow> 0 < mx \<and> mx < m_Round msg)
        then (Inl ErrTypeRoundOob, v', [verified ''round_oob''])
        else (Inr (), v', [Inc ''qbft_msg_verified_total'' [(''type'', type_string (m_Type msg))]]))"

abbreviation verdict :: "BasicVerifier \<Rightarrow> Message \<Rightarrow> verify_error + unit" where
  "verdict v msg \<equiv> fst (Verify v msg)"

abbreviation verify_next :: "BasicVerifier \<Rightarrow> Message \<Rightarrow> BasicVerifier" where
  "verify_next v msg \<equiv> fst (snd (Verify v msg))"

text \<open>A verifier fed a sequence of messages: the messages it accepts, in order.\<close>

fun verify_run :: "BasicVerifier \<Rightarrow> Message list \<Rightarrow> BasicVerifier" where
  "verify_run v [] = v"
| "verify_run v (m # ms) = verify_run (verify_next v m) ms"

fun accepted :: "BasicVerifier \<Rightarrow> Message list \<Rightarrow> Message list" where
  "accepted v [] = []"
| "accepted v (m # ms) =
     (if is_ok (verdict v m) then m # accepted (verify_next v m) ms
      else accepted (verify_next v m) ms)"

section \<open>Declarative admission conditions\<close>

text \<open>What a message needs beside not being a replay, before and after the replay block.\<close>

definition admissible_pre :: "BasicVerifier \<Rightarrow> Message \<Rightarrow> bool" where
  "admissible_pre v m \<longleftrightarrow> m_ID m \<noteq> '''' \<and> m_From m \<noteq> '''' \<and> validType (m_Type m)
     \<and> (v_allowed v = {} \<or> m_From m \<in> v_allowed v)
     \<and> (m_Sig m = [] \<or> 32 \<le> length (m_Sig m))
     \<and> (m_Type m = MsgPreprepare \<longrightarrow> m_Round m = 0)
     \<and> (v_minHeight v = 0 \<or> v_minHeight v \<le> m_Height m)
     \<and> (v_roundWindow v = 0 \<or> m_Round m \<le> v_roundWindow v)"

definition admissible_post :: "BasicVerifier \<Rightarrow> Message \<Rightarrow> bool" where
  "admissible_post v m \<longleftrightarrow> (is_vote m \<longrightarrow> 1 \<le> m_Round m)
     \<and> (\<forall>mn. v_typeMinHeight v (m_Type m) = Some mn \<longrightarrow> mn \<le> m_Height m)
     \<and> (\<forall>mx. v_typeRoundMax v (m_Type m) = Some mx \<longrightarrow> mx = 0 \<or> m_Round m \<le> mx)"

definition replayed :: "BasicVerifier \<Rightarrow> Message \<Rightarrow> bool" where
  "replayed v m \<longleftrightarrow> fst (check_replay v m)"

lemma u64_pos: "0 < (x :: u64) \<longleftrightarrow> x \<noteq> 0"
  by (simp add: word_gt_0)

lemma u64_ge_1: "(1 :: u64) \<le> x \<longleftrightarrow> x \<noteq> 0"
  by (simp flip: not_less)

text \<open>The same conditions as the code writes them.\<close>

lemma admissible_post_iff:
  "admissible_post v m \<longleftrightarrow>
     \<not> ((m_Type m = MsgPrepare \<or> m_Type m = MsgCommit) \<and> m_Round m < 1)
     \<and> \<not> (case v_typeMinHeight v (m_Type m) of None \<Rightarrow> False
           | Some mn \<Rightarrow> 0 < mn \<and> m_Height m < mn)
     \<and> \<not> (case v_typeRoundMax v (m_Type m) of None \<Rightarrow> False
           | Some mx \<Rightarrow> 0 < mx \<and> mx < m_Round m)"
  by (cases "v_typeMinHeight v (m_Type m)"; cases "v_typeRoundMax v (m_Type m)")
    (auto simp: admissible_post_def is_vote_def u64_ge_1 u64_pos not_less)

lemma Verify_not_pre:
  "\<not> admissible_pre v m \<Longrightarrow> verify_next v m = v \<and> \<not> is_ok (verdict v m)"
  by (auto simp: Verify_def admissible_pre_def not_le u64_pos)

lemma Verify_pre:
  assumes "admissible_pre v m"
  shows "verify_next v m = snd (check_replay v m)"
    and "is_ok (verdict v m) \<longleftrightarrow> \<not> replayed v m \<and> admissible_post v m"
proof -
  have guards: "\<not> (m_ID m = '''' \<or> m_From m = '''' \<or> \<not> validType (m_Type m))"
    "\<not> (v_allowed v \<noteq> {} \<and> m_From m \<notin> v_allowed v)"
    "\<not> (0 < length (m_Sig m) \<and> length (m_Sig m) < 32)"
    "\<not> (m_Type m = MsgPreprepare \<and> m_Round m \<noteq> 0)"
    "\<not> (0 < v_minHeight v \<and> m_Height m < v_minHeight v)"
    "\<not> (0 < v_roundWindow v \<and> v_roundWindow v < m_Round m)"
    using assms by (auto simp: admissible_pre_def not_less)
  note V = Verify_def [of v m, unfolded if_not_P [OF guards(1)] if_not_P [OF guards(2)]
      if_not_P [OF guards(3)] if_not_P [OF guards(4)] if_not_P [OF guards(5)]
      if_not_P [OF guards(6)]]
  show "verify_next v m = snd (check_replay v m)"
    by (simp add: V split: prod.splits)
  show "is_ok (verdict v m) \<longleftrightarrow> \<not> replayed v m \<and> admissible_post v m"
    using guards(4) unfolding admissible_post_iff
    by (simp add: V replayed_def split: prod.splits)
qed

section \<open>The replay memory along a run\<close>

definition same_config :: "BasicVerifier \<Rightarrow> BasicVerifier \<Rightarrow> bool" where
  "same_config v v' \<longleftrightarrow> v' = v\<lparr>v_replay := v_replay v'\<rparr>"

lemma check_replay_config: "same_config v (snd (check_replay v m))"
  by (auto simp: same_config_def check_replay_def split: option.splits prod.splits)

lemma Verify_config: "same_config v (verify_next v m)"
  by (cases "admissible_pre v m")
    (simp_all add: Verify_pre(1) Verify_not_pre check_replay_config, simp add: same_config_def)

lemma same_configD:
  assumes "same_config v v'"
  shows "v_replayWindow v' = v_replayWindow v" "v_minHeight v' = v_minHeight v"
    "v_roundWindow v' = v_roundWindow v" "v_allowed v' = v_allowed v"
    "v_typeMinHeight v' = v_typeMinHeight v" "v_typeRoundMax v' = v_typeRoundMax v"
proof -
  have "f v' = f (v\<lparr>v_replay := v_replay v'\<rparr>)" for f :: "BasicVerifier \<Rightarrow> 'b"
    using assms by (simp add: same_config_def)
  then show "v_replayWindow v' = v_replayWindow v" "v_minHeight v' = v_minHeight v"
    "v_roundWindow v' = v_roundWindow v" "v_allowed v' = v_allowed v"
    "v_typeMinHeight v' = v_typeMinHeight v" "v_typeRoundMax v' = v_typeRoundMax v"
    using assms by (metis (no_types) same_config_def BasicVerifier.select_convs
        BasicVerifier.surjective BasicVerifier.update_convs(1))+
qed

lemmas Verify_frame [simp] = same_configD [OF Verify_config]

text \<open>Mode by id (\<^verbatim>\<open>replayWindow == 0\<close>): what one call does to the set of seen ids.\<close>

definition id_mode :: "BasicVerifier \<Rightarrow> string set \<Rightarrow> bool" where
  "id_mode v S \<longleftrightarrow> v_replayWindow v = 0 \<and> (\<exists>r. v_replay v = Some r \<and> ar_seen r = S)"

lemma id_mode_default: "id_mode (NewBasicVerifierWithPolicy DefaultPolicy) {}"
  by (simp add: id_mode_def NewBasicVerifierWithPolicy_def DefaultPolicy_def NewBasicVerifier_def
      NewAntiReplay_def Let_def)

lemma id_mode_check:
  assumes "id_mode v S" and "m_ID m \<noteq> ''''"
  shows "replayed v m \<longleftrightarrow> m_ID m \<in> S"
    and "id_mode (snd (check_replay v m)) (insert (m_ID m) S)"
  using assms
  by (auto simp: id_mode_def replayed_def check_replay_def Seen_def insert_absorb)

lemma admissible_pre_ID: "admissible_pre v m \<Longrightarrow> m_ID m \<noteq> []"
  by (simp add: admissible_pre_def)

lemma id_mode_step:
  assumes "id_mode v S"
  shows "id_mode (verify_next v m) (if admissible_pre v m then insert (m_ID m) S else S)"
    and "is_ok (verdict v m) \<Longrightarrow> m_ID m \<notin> S \<and> admissible_pre v m"
proof -
  show "id_mode (verify_next v m) (if admissible_pre v m then insert (m_ID m) S else S)"
    using assms id_mode_check(2) [OF assms, of m]
    by (cases "admissible_pre v m") (simp_all add: Verify_pre(1) Verify_not_pre admissible_pre_ID)
  show "m_ID m \<notin> S \<and> admissible_pre v m" if "is_ok (verdict v m)"
    using that assms id_mode_check(1) [OF assms]
    by (metis Verify_not_pre Verify_pre(2) admissible_pre_def)
qed

lemma id_mode_accepted:
  assumes "id_mode v S"
  shows "distinct (map m_ID (accepted v ms)) \<and> m_ID ` set (accepted v ms) \<inter> S = {}"
  using assms
proof (induction ms arbitrary: v S)
  case (Cons m ms)
  note step = id_mode_step [OF Cons.prems, of m]
  note IH = Cons.IH [OF step(1)]
  show ?case
  proof (cases "is_ok (verdict v m)")
    case True
    with step(2) IH show ?thesis by auto
  next
    case False
    with IH show ?thesis by (auto split: if_splits)
  qed
qed simp

text \<open>Mode by height window: the recorded height of an id only moves out of its window.\<close>

definition window_mode :: "BasicVerifier \<Rightarrow> u64 \<Rightarrow> (string \<rightharpoonup> u64) \<Rightarrow> bool" where
  "window_mode v w H \<longleftrightarrow> w \<noteq> 0 \<and> v_replayWindow v = w
     \<and> (\<exists>r. v_replay v = Some r \<and> ar_hSeen r = H)"

definition in_window :: "u64 \<Rightarrow> (string \<rightharpoonup> u64) \<Rightarrow> Message \<Rightarrow> bool" where
  "in_window w H m \<longleftrightarrow> (case H (m_ID m) of None \<Rightarrow> False
     | Some l \<Rightarrow> l \<le> m_Height m \<and> m_Height m - l \<le> w)"

lemma window_mode_check:
  assumes "window_mode v w H" and "m_ID m \<noteq> ''''"
  shows "replayed v m \<longleftrightarrow> in_window w H m"
    and "window_mode (snd (check_replay v m)) w
           (if in_window w H m then H else H(m_ID m \<mapsto> m_Height m))"
  using assms
  by (auto simp: window_mode_def replayed_def check_replay_def SeenWithin_def in_window_def
      u64_pos split: option.splits)

lemma window_mode_step:
  assumes "window_mode v w H"
  shows "window_mode (verify_next v m) w
           (if admissible_pre v m \<and> \<not> in_window w H m then H(m_ID m \<mapsto> m_Height m) else H)"
    and "is_ok (verdict v m) \<Longrightarrow> admissible_pre v m \<and> \<not> in_window w H m"
proof -
  show "window_mode (verify_next v m) w
      (if admissible_pre v m \<and> \<not> in_window w H m then H(m_ID m \<mapsto> m_Height m) else H)"
    using assms window_mode_check(2) [OF assms, of m]
    by (cases "admissible_pre v m"; cases "in_window w H m")
      (simp_all add: Verify_pre(1) Verify_not_pre admissible_pre_ID)
  show "admissible_pre v m \<and> \<not> in_window w H m" if "is_ok (verdict v m)"
    using that assms window_mode_check(1) [OF assms]
    by (metis Verify_not_pre Verify_pre(2) admissible_pre_def)
qed

text \<open>Distance of two heights, on naturals.\<close>

lemma in_window_unat:
  "in_window w H m \<longleftrightarrow> (\<exists>l. H (m_ID m) = Some l \<and> unat l \<le> unat (m_Height m)
     \<and> unat (m_Height m) \<le> unat l + unat w)"
  by (auto simp: in_window_def word_le_nat_alt unat_sub split: option.splits)

lemma window_accepted_far:
  assumes "window_mode v w H" and "sorted (map (unat \<circ> m_Height) ms)"
    and "H i = Some l" and "\<forall>m\<in>set ms. unat l \<le> unat (m_Height m)"
    and "l = h \<or> unat h + unat w < unat l"
  shows "\<forall>m\<in>set (accepted v ms). m_ID m = i \<longrightarrow> unat h + unat w < unat (m_Height m)"
  using assms
proof (induction ms arbitrary: v H l)
  case (Cons m ms)
  let ?H = "if admissible_pre v m \<and> \<not> in_window w H m then H(m_ID m \<mapsto> m_Height m) else H"
  note step = window_mode_step [OF Cons.prems(1), of m]
  have far: "unat h + unat w < unat (m_Height m)"
    if "m_ID m = i" "\<not> in_window w H m"
    using that Cons.prems by (auto simp: in_window_unat)
  have "\<exists>l'. ?H i = Some l' \<and> (l' = h \<or> unat h + unat w < unat l')
      \<and> (\<forall>m\<in>set ms. unat l' \<le> unat (m_Height m))"
    using Cons.prems(2-5) far
    by (cases "m_ID m = i \<and> admissible_pre v m \<and> \<not> in_window w H m") auto
  then obtain l' where l': "?H i = Some l'" "l' = h \<or> unat h + unat w < unat l'"
    "\<forall>m\<in>set ms. unat l' \<le> unat (m_Height m)" by blast
  have "\<forall>m\<in>set (accepted (verify_next v m) ms).
      m_ID m = i \<longrightarrow> unat h + unat w < unat (m_Height m)"
    using Cons.prems(2) l' by (intro Cons.IH [OF step(1) _ l'(1)]) auto
  then show ?case
    using step(2) far by auto
qed simp

section \<open>Properties\<close>


text \<open>C2: With replay protection by id (\<^verbatim>\<open>replayWindow == 0\<close>), over any sequence of
  messages no id is accepted twice, and no id that was already recorded is accepted.\<close>

theorem accepted_ids_distinct:
  assumes "v_replay v = Some r" and "v_replayWindow v = 0"
  shows "distinct (map m_ID (accepted v ms)) \<and> m_ID ` set (accepted v ms) \<inter> ar_seen r = {}"
  using id_mode_accepted [of v "ar_seen r" ms] assms by (auto simp: id_mode_def)

theorem accepted_ids_distinct_witness:
  "distinct (map m_ID (accepted NewBasicVerifier
     [mk_msg MsgPreprepare ''L'' 1 0 ''blk'', mk_msg MsgPreprepare ''L'' 1 0 ''blk'']))
   \<and> accepted NewBasicVerifier
     [mk_msg MsgPreprepare ''L'' 1 0 ''blk'', mk_msg MsgPreprepare ''L'' 1 0 ''blk'']
     = [mk_msg MsgPreprepare ''L'' 1 0 ''blk'']"
proof
  show "distinct (map m_ID (accepted NewBasicVerifier
     [mk_msg MsgPreprepare ''L'' 1 0 ''blk'', mk_msg MsgPreprepare ''L'' 1 0 ''blk'']))"
    by (rule accepted_ids_distinct [of _ NewAntiReplay, THEN conjunct1])
      (simp_all add: NewBasicVerifier_def)
  show "accepted NewBasicVerifier
     [mk_msg MsgPreprepare ''L'' 1 0 ''blk'', mk_msg MsgPreprepare ''L'' 1 0 ''blk'']
     = [mk_msg MsgPreprepare ''L'' 1 0 ''blk'']"
    by (simp add: Verify_def check_replay_def Seen_def NewBasicVerifier_def NewAntiReplay_def)
qed

text \<open>With a height window \<open>w\<close>, when messages arrive in non-decreasing height, a
  message id accepted at height \<open>h\<close> is not accepted again before height \<open>h + w + 1\<close>.\<close>

theorem window_replay_spacing:
  assumes "v_replay v = Some r" and "0 < v_replayWindow v"
    and "sorted (map (unat \<circ> m_Height) (m # ms))" and "is_ok (verdict v m)"
    and "m' \<in> set (accepted (verify_next v m) ms)" and "m_ID m' = m_ID m"
  shows "unat (m_Height m) + unat (v_replayWindow v) < unat (m_Height m')"
proof -
  have mode: "window_mode v (v_replayWindow v) (ar_hSeen r)"
    using assms(1,2) by (auto simp: window_mode_def)
  note step = window_mode_step [OF mode, of m]
  show ?thesis
    using window_accepted_far [OF step(1), of ms "m_ID m" "m_Height m" "m_Height m"]
      step(2) [OF assms(4)] assms(3,5,6) by auto
qed

theorem window_replay_spacing_witness:
  "let v = SetReplayWindow 3 NewBasicVerifier;
       m = mk_msg MsgPreprepare ''L'' 10 0 ''blk''; m' = mk_msg MsgPreprepare ''L'' 14 0 ''blk''
   in unat (m_Height m) + unat (v_replayWindow v) < unat (m_Height m')"
proof -
  let ?v = "SetReplayWindow 3 NewBasicVerifier"
  let ?m = "mk_msg MsgPreprepare ''L'' 10 0 ''blk''"
  let ?m' = "mk_msg MsgPreprepare ''L'' 14 0 ''blk''"
  have "unat (m_Height ?m) + unat (v_replayWindow ?v) < unat (m_Height ?m')"
    by (rule window_replay_spacing [of ?v NewAntiReplay ?m "[?m']" ?m'])
      (simp_all add: SetReplayWindow_def NewBasicVerifier_def NewAntiReplay_def Verify_def
        check_replay_def SeenWithin_def)
  then show ?thesis by (simp only: Let_def)
qed

text \<open>The height window does not stop an out-of-order replay: with window 3, the same
  message at height 10 is accepted twice when a message with its id at height 5 comes in
  between, because a lower height overwrites the recorded one.\<close>

theorem window_replay_rewind:
  "accepted (SetReplayWindow 3 NewBasicVerifier)
     [mk_msg MsgPreprepare ''L'' 10 0 ''blk'', mk_msg MsgPreprepare ''L'' 5 0 ''blk'',
      mk_msg MsgPreprepare ''L'' 10 0 ''blk'']
   = [mk_msg MsgPreprepare ''L'' 10 0 ''blk'', mk_msg MsgPreprepare ''L'' 5 0 ''blk'',
      mk_msg MsgPreprepare ''L'' 10 0 ''blk'']"
  by (simp add: SetReplayWindow_def NewBasicVerifier_def NewAntiReplay_def Verify_def
      check_replay_def SeenWithin_def)

text \<open>In id mode a vote that is rejected for its round (prepare or commit with round 0)
  has already been recorded by the replay check, so every later message with that id is
  rejected, whoever sends it.\<close>

theorem rejected_vote_burns_id:
  assumes "v_replay v = Some r" and "v_replayWindow v = 0" and "admissible_pre v m"
    and "is_vote m" and "m_Round m = 0"
  shows "\<not> is_ok (verdict v m) \<and> (\<forall>ms. \<forall>m'\<in>set (accepted (verify_next v m) ms). m_ID m' \<noteq> m_ID m)"
proof
  have mode: "id_mode v (ar_seen r)"
    using assms(1,2) by (auto simp: id_mode_def)
  show "\<not> is_ok (verdict v m)"
    using assms(3,4,5) by (auto simp: Verify_pre(2) admissible_post_def)
  have "id_mode (verify_next v m) (insert (m_ID m) (ar_seen r))"
    using id_mode_step(1) [OF mode, of m] assms(3) by simp
  then show "\<forall>ms. \<forall>m'\<in>set (accepted (verify_next v m) ms). m_ID m' \<noteq> m_ID m"
    by (auto dest: id_mode_accepted)
qed

theorem rejected_vote_burns_id_witness:
  "let m = mk_msg MsgPrepare ''X'' 1 0 ''blk''; m' = mk_msg MsgPreprepare ''L'' 1 0 ''blk''
   in \<not> is_ok (verdict NewBasicVerifier m) \<and> accepted (verify_next NewBasicVerifier m) [m'] = []"
proof -
  let ?m = "mk_msg MsgPrepare ''X'' 1 0 ''blk''"
  let ?m' = "mk_msg MsgPreprepare ''L'' 1 0 ''blk''"
  have "\<not> is_ok (verdict NewBasicVerifier ?m)
      \<and> (\<forall>ms. \<forall>x\<in>set (accepted (verify_next NewBasicVerifier ?m) ms). m_ID x \<noteq> m_ID ?m)"
    by (rule rejected_vote_burns_id [of _ NewAntiReplay])
      (simp_all add: NewBasicVerifier_def admissible_pre_def is_vote_def)
  moreover have "accepted (verify_next NewBasicVerifier ?m) [?m'] = []"
    by (simp add: Verify_def check_replay_def Seen_def NewBasicVerifier_def NewAntiReplay_def)
  ultimately show ?thesis by (simp only: Let_def simp_thms)
qed

end
