(* ===== verification/Qbft_State.thy ===== *)
theory Qbft_State
  imports Qbft_Message
begin

text \<open>
  \<^verbatim>\<open>internal/consensus/qbft/state.go\<close>: the per-node QBFT state machine, its transition
  \<^verbatim>\<open>Process\<close>, \<^verbatim>\<open>OnTimeout\<close> and \<^verbatim>\<open>Restore\<close>. A vote map is \<open>None\<close> when the Go map is nil, and
  storing into a nil map is the error value \<open>PanicNilMap\<close>, so that the absence of panics is
  a theorem. \<^verbatim>\<open>viewVotes\<close> and its buckets are created before they are written, so nil and
  empty are not told apart there.
\<close>

section \<open>State\<close>

datatype phase = PhIdle | PhPreprepared | PhPrepared | PhCommit

fun phase_string :: "phase \<Rightarrow> string" where
  "phase_string PhIdle = ''''"
| "phase_string PhPreprepared = ''preprepared''"
| "phase_string PhPrepared = ''prepared''"
| "phase_string PhCommit = ''commit''"

record State =
  s_Height :: u64
  s_Round :: u64
  s_Phase :: phase
  s_Leader :: string
  s_proposalID :: string
  s_prepareVotes :: "string fset option"
  s_commitVotes :: "string fset option"
  s_viewVotes :: "u64 \<rightharpoonup> string fset"

text \<open>\<^verbatim>\<open>State{Leader: l}\<close>; the service starts with the empty leader.\<close>

definition new_State :: "string \<Rightarrow> State" where
  "new_State l = \<lparr>s_Height = 0, s_Round = 0, s_Phase = PhIdle, s_Leader = l, s_proposalID = '''',
     s_prepareVotes = None, s_commitVotes = None, s_viewVotes = Map.empty\<rparr>"

datatype process_error = ErrUnauthorizedLeader | ErrPrepareBeforePreprepared
  | ErrCommitBeforePrepared | ErrProposalMismatch | PanicNilMap

section \<open>Transitions\<close>

definition voted :: "string fset option \<Rightarrow> string \<Rightarrow> bool" where
  "voted V f = (case V of None \<Rightarrow> False | Some F \<Rightarrow> f |\<in>| F)"

definition msg_total :: "Message \<Rightarrow> metric" where
  "msg_total m = Inc ''qbft_msg_total'' [(''type'', type_string (m_Type m))]"

definition transitions_total :: "Message \<Rightarrow> metric" where
  "transitions_total m = Inc ''qbft_state_transitions_total'' [(''type'', type_string (m_Type m))]"

definition qc_built :: "string \<Rightarrow> metric" where
  "qc_built kind = Inc ''qbft_qc_built_total'' [(''kind'', kind)]"

definition view_changes :: metric where
  "view_changes = Inc ''qbft_view_changes_total'' []"

text \<open>The update of the coordinates every message makes first.\<close>

definition set_coords :: "State \<Rightarrow> Message \<Rightarrow> State" where
  "set_coords s m =
     (let s = s\<lparr>s_Height := m_Height m\<rparr>
      in if m_Type m \<noteq> MsgViewChange \<and> m_Type m \<noteq> MsgNewView then s\<lparr>s_Round := m_Round m\<rparr> else s)"

text \<open>The reset of a view change: a new round with no proposal.\<close>

definition enter_round :: "u64 \<Rightarrow> State \<Rightarrow> State" where
  "enter_round r s = s\<lparr>s_Round := r, s_Phase := PhIdle, s_proposalID := '''',
     s_prepareVotes := None, s_commitVotes := None\<rparr>"

text \<open>One definition per case of the switch; each starts from the updated coordinates.\<close>

type_synonym outcome = "(process_error + unit) \<times> State \<times> metric list"

definition on_preprepare :: "State \<Rightarrow> Message \<Rightarrow> outcome" where
  "on_preprepare s m =
     (if s_Leader s \<noteq> '''' \<and> m_From m \<noteq> s_Leader s
      then (Inl ErrUnauthorizedLeader, s, [])
      else (Inr (), s\<lparr>s_Phase := PhPreprepared, s_proposalID := m_ID m,
              s_prepareVotes := Some {||}, s_commitVotes := Some {||}\<rparr>, []))"

definition on_prepare :: "State \<Rightarrow> Message \<Rightarrow> outcome" where
  "on_prepare s m =
     (if s_proposalID s = '''' \<or> (s_Phase s \<noteq> PhPreprepared \<and> s_Phase s \<noteq> PhPrepared)
      then (Inl ErrPrepareBeforePreprepared, s, [])
      else if m_ID m \<noteq> s_proposalID s then (Inl ErrProposalMismatch, s, [])
      else if voted (s_prepareVotes s) (m_From m) then (Inr (), s, [])
      else case s_prepareVotes s of
        None \<Rightarrow> (Inl PanicNilMap, s, [])
      | Some V \<Rightarrow>
          (let V' = finsert (m_From m) V; s1 = s\<lparr>s_prepareVotes := Some V'\<rparr>
           in if s_Phase s = PhPreprepared \<and> 2 \<le> fcard V'
              then (Inr (), s1\<lparr>s_Phase := PhPrepared\<rparr>, [qc_built ''prepare''])
              else (Inr (), s1, [])))"

definition on_commit :: "State \<Rightarrow> Message \<Rightarrow> outcome" where
  "on_commit s m =
     (if s_Phase s \<noteq> PhPrepared \<and> s_Phase s \<noteq> PhCommit
      then (Inl ErrCommitBeforePrepared, s, [])
      else if m_ID m \<noteq> s_proposalID s then (Inl ErrProposalMismatch, s, [])
      else if voted (s_commitVotes s) (m_From m) then (Inr (), s, [])
      else case s_commitVotes s of
        None \<Rightarrow> (Inl PanicNilMap, s, [])
      | Some V \<Rightarrow>
          (let V' = finsert (m_From m) V; s1 = s\<lparr>s_commitVotes := Some V'\<rparr>
           in if s_Phase s \<noteq> PhCommit \<and> 1 \<le> fcard V'
              then (Inr (), s1\<lparr>s_Phase := PhCommit\<rparr>, [qc_built ''commit''])
              else (Inr (), s1, [])))"

definition on_view_change :: "State \<Rightarrow> Message \<Rightarrow> outcome" where
  "on_view_change s m =
     (let bucket = getz {||} (s_viewVotes s) (m_Round m)
      in if m_From m |\<in>| bucket
         then (Inr (), s\<lparr>s_viewVotes := (s_viewVotes s)(m_Round m \<mapsto> bucket)\<rparr>, [])
         else let bucket' = finsert (m_From m) bucket;
                  s1 = s\<lparr>s_viewVotes := (s_viewVotes s)(m_Round m \<mapsto> bucket')\<rparr>
              in if 2 \<le> fcard bucket' \<and> s_Round s < m_Round m
                 then (Inr (), enter_round (m_Round m) s1, [view_changes])
                 else (Inr (), s1, []))"

definition on_new_view :: "State \<Rightarrow> Message \<Rightarrow> outcome" where
  "on_new_view s m =
     (if s_Round s < m_Round m then (Inr (), enter_round (m_Round m) s, [view_changes])
      else (Inr (), s, []))"

definition dispatch :: "State \<Rightarrow> Message \<Rightarrow> outcome" where
  "dispatch s m = (case m_Type m of
     MsgPreprepare \<Rightarrow> on_preprepare s m
   | MsgPrepare \<Rightarrow> on_prepare s m
   | MsgCommit \<Rightarrow> on_commit s m
   | MsgViewChange \<Rightarrow> on_view_change s m
   | MsgNewView \<Rightarrow> on_new_view s m
   | MsgOther _ \<Rightarrow> (Inr (), s, []))"

text \<open>
  An error returns at once; every other path reaches the \<^verbatim>\<open>END\<close> label, where the transition
  is counted.
\<close>

definition Process :: "State \<Rightarrow> Message \<Rightarrow> outcome" where
  "Process s m = (case dispatch (set_coords s m) m of
     (Inl e, s', ms) \<Rightarrow> (Inl e, s', msg_total m # ms)
   | (Inr u, s', ms) \<Rightarrow> (Inr u, s', msg_total m # ms @ [transitions_total m]))"

definition OnTimeout :: "State \<Rightarrow> Message \<times> metric list" where
  "OnTimeout s =
     (let ph = (if s_Phase s = PhIdle then ''idle'' else phase_string (s_Phase s))
      in (zero_Message\<lparr>m_From := ''self'', m_Height := s_Height s, m_Round := s_Round s + 1,
            m_Type := MsgViewChange, m_ID := ''vc''\<rparr>,
          [Inc ''qbft_timeouts_total'' [(''phase'', ph)]]))"

definition Restore :: "State \<Rightarrow> u64 \<Rightarrow> u64 \<Rightarrow> State" where
  "Restore s h r = s\<lparr>s_Height := h, s_Round := r\<rparr>"

abbreviation process_result :: "State \<Rightarrow> Message \<Rightarrow> process_error + unit" where
  "process_result s m \<equiv> fst (Process s m)"

abbreviation process_next :: "State \<Rightarrow> Message \<Rightarrow> State" where
  "process_next s m \<equiv> fst (snd (Process s m))"

definition process_run :: "State \<Rightarrow> Message list \<Rightarrow> State" where
  "process_run s ms = foldl process_next s ms"

fun run_metrics :: "State \<Rightarrow> Message list \<Rightarrow> metric list" where
  "run_metrics s [] = []"
| "run_metrics s (m # ms) = snd (snd (Process s m)) @ run_metrics (process_next s m) ms"

lemma process_run_simps [simp]:
  "process_run s [] = s"
  "process_run s (m # ms) = process_run (process_next s m) ms"
  "process_run s (ms @ [m]) = process_next (process_run s ms) m"
  by (simp_all add: process_run_def)

lemmas on_defs = on_preprepare_def on_prepare_def on_commit_def on_view_change_def on_new_view_def

lemma set_coords_simps [simp]:
  "s_Phase (set_coords s m) = s_Phase s" "s_Leader (set_coords s m) = s_Leader s"
  "s_proposalID (set_coords s m) = s_proposalID s" "s_viewVotes (set_coords s m) = s_viewVotes s"
  "s_prepareVotes (set_coords s m) = s_prepareVotes s"
  "s_commitVotes (set_coords s m) = s_commitVotes s" "s_Height (set_coords s m) = m_Height m"
  by (simp_all add: set_coords_def Let_def)

lemma Process_parts:
  "process_result s m = fst (dispatch (set_coords s m) m)"
  "process_next s m = fst (snd (dispatch (set_coords s m) m))"
  by (simp_all add: Process_def split: prod.splits sum.splits)

text \<open>The step relation of the machine, and the states it can reach.\<close>

inductive qstep :: "State \<Rightarrow> State \<Rightarrow> bool" where
  process: "qstep s (process_next s m)"
| restore: "qstep s (Restore s h r)"

inductive_cases qstepE: "qstep s t"

inductive qreach :: "string \<Rightarrow> State \<Rightarrow> bool" for l where
  start: "qreach l (new_State l)"
| step: "qreach l s \<Longrightarrow> qstep s t \<Longrightarrow> qreach l t"

lemma qreach_run: "qreach l s \<Longrightarrow> qreach l (process_run s ms)"
  by (induction ms arbitrary: s) (auto intro: qreach.step qstep.process)

section \<open>Invariant\<close>

definition qinv :: "State \<Rightarrow> bool" where
  "qinv s \<longleftrightarrow> (case s_Phase s of
     PhIdle \<Rightarrow> s_proposalID s = ''''
   | PhPreprepared \<Rightarrow> (\<exists>V. s_prepareVotes s = Some V \<and> fcard V < 2) \<and> s_commitVotes s = Some {||}
   | PhPrepared \<Rightarrow> (\<exists>V. s_prepareVotes s = Some V \<and> 2 \<le> fcard V) \<and> s_commitVotes s = Some {||}
   | PhCommit \<Rightarrow> (\<exists>V. s_prepareVotes s = Some V \<and> 2 \<le> fcard V)
       \<and> (\<exists>V. s_commitVotes s = Some V \<and> 1 \<le> fcard V))"

lemma qinv_new [simp]: "qinv (new_State l)"
  by (simp add: qinv_def new_State_def)

lemma qinv_set_coords [simp]: "qinv (set_coords s m) = qinv s"
  by (simp add: qinv_def cong: phase.case_cong)

lemma qinv_enter_round [simp]: "qinv (enter_round r s)"
  by (simp add: qinv_def enter_round_def)

lemma qinv_viewVotes [simp]: "qinv (s\<lparr>s_viewVotes := W\<rparr>) = qinv s"
  by (simp add: qinv_def cong: phase.case_cong)

lemma fcard_finsert_le: "fcard (finsert x V) \<le> Suc (fcard V)"
  by (metis fcard_finsert_if le_SucI order_refl)

lemma fcard_le_finsert: "fcard V \<le> fcard (finsert x V)"
  by (simp add: fcard_finsert_if)

lemma qinv_on_prepare: "qinv s \<Longrightarrow> qinv (fst (snd (on_prepare s m)))"
  by (auto simp: on_prepare_def qinv_def Let_def intro: order_trans [OF _ fcard_le_finsert]
      split: phase.splits option.splits)

lemma qinv_on_commit: "qinv s \<Longrightarrow> qinv (fst (snd (on_commit s m)))"
  by (auto simp: on_commit_def qinv_def Let_def fcard_finsert_if
      split: phase.splits option.splits)

lemma qinv_on_preprepare: "qinv s \<Longrightarrow> qinv (fst (snd (on_preprepare s m)))"
  by (simp add: on_preprepare_def) (simp add: qinv_def)

lemma qinv_on_view: "qinv s \<Longrightarrow> qinv (fst (snd (on_view_change s m)))"
  "qinv s \<Longrightarrow> qinv (fst (snd (on_new_view s m)))"
  by (simp_all add: on_view_change_def on_new_view_def Let_def)

lemma qinv_dispatch: "qinv s \<Longrightarrow> qinv (fst (snd (dispatch s m)))"
  by (simp add: dispatch_def qinv_on_prepare qinv_on_commit qinv_on_preprepare qinv_on_view
      split: qtype.splits)

lemma qinv_process: "qinv s \<Longrightarrow> qinv (process_next s m)"
  by (simp add: Process_parts qinv_dispatch)

lemma qinv_step: "qstep s t \<Longrightarrow> qinv s \<Longrightarrow> qinv t"
  by (induction rule: qstep.induct)
    (simp_all add: qinv_process, simp add: qinv_def Restore_def cong: phase.case_cong)

lemma qreach_inv: "qreach l s \<Longrightarrow> qinv s"
  by (induction rule: qreach.induct) (simp_all add: qinv_step)

lemma on_prepare_no_panic: "qinv s \<Longrightarrow> fst (on_prepare s m) \<noteq> Inl PanicNilMap"
  by (cases "s_Phase s") (auto simp: on_prepare_def qinv_def Let_def split: if_splits)

lemma on_commit_no_panic: "qinv s \<Longrightarrow> fst (on_commit s m) \<noteq> Inl PanicNilMap"
  by (cases "s_Phase s") (auto simp: on_commit_def qinv_def Let_def split: if_splits)

lemma qinv_no_panic: "qinv s \<Longrightarrow> process_result s m \<noteq> Inl PanicNilMap"
  unfolding Process_parts dispatch_def
  by (cases "m_Type m")
    (simp_all add: on_prepare_no_panic on_commit_no_panic,
     simp_all add: on_preprepare_def on_view_change_def on_new_view_def Let_def)

section \<open>Votes are backed by messages\<close>

text \<open>
  \<open>ballot t f i ms\<close>: the messages \<open>ms\<close> contain a vote of type \<open>t\<close> by \<open>f\<close> for proposal \<open>i\<close>.
\<close>

definition ballot :: "qtype \<Rightarrow> string \<Rightarrow> string \<Rightarrow> Message list \<Rightarrow> bool" where
  "ballot t f i ms \<longleftrightarrow> (\<exists>m\<in>set ms. m_Type m = t \<and> m_From m = f \<and> m_ID m = i)"

definition votes_backed :: "State \<Rightarrow> Message list \<Rightarrow> bool" where
  "votes_backed s ms \<longleftrightarrow>
     (\<forall>f. voted (s_prepareVotes s) f \<longrightarrow> ballot MsgPrepare f (s_proposalID s) ms)
     \<and> (\<forall>f. voted (s_commitVotes s) f \<longrightarrow> ballot MsgCommit f (s_proposalID s) ms)"

text \<open>The history since the proposal the state is working on.\<close>

definition backed :: "State \<Rightarrow> Message list \<Rightarrow> bool" where
  "backed s ms \<longleftrightarrow> s_Phase s = PhIdle \<or>
     (\<exists>xs p ys. ms = xs @ p # ys \<and> m_Type p = MsgPreprepare \<and> m_ID p = s_proposalID s
        \<and> (s_Leader s = '''' \<or> m_From p = s_Leader s) \<and> votes_backed s ys)"

lemma ballot_snoc: "ballot t f i ms \<Longrightarrow> ballot t f i (ms @ [m])"
  by (auto simp: ballot_def)

lemma voted_simps [simp]: "\<not> voted None f" "voted (Some V) f \<longleftrightarrow> f |\<in>| V"
  by (simp_all add: voted_def)

lemma votes_backed_cong:
  "s_prepareVotes t = s_prepareVotes s \<Longrightarrow> s_commitVotes t = s_commitVotes s \<Longrightarrow>
   s_proposalID t = s_proposalID s \<Longrightarrow> votes_backed s ms \<Longrightarrow> votes_backed t (ms @ [m])"
  by (simp add: votes_backed_def ballot_snoc)

text \<open>What one transition does to phase, proposal, leader and votes.\<close>

inductive effect :: "State \<Rightarrow> Message \<Rightarrow> State \<Rightarrow> bool" for s m t where
  same: "s_Phase t = s_Phase s \<Longrightarrow> s_proposalID t = s_proposalID s \<Longrightarrow>
    s_prepareVotes t = s_prepareVotes s \<Longrightarrow> s_commitVotes t = s_commitVotes s \<Longrightarrow> effect s m t"
| idle: "s_Phase t = PhIdle \<Longrightarrow> effect s m t"
| propose: "m_Type m = MsgPreprepare \<Longrightarrow> s_Leader s = [] \<or> m_From m = s_Leader s \<Longrightarrow>
    s_proposalID t = m_ID m \<Longrightarrow> s_prepareVotes t = Some {||} \<Longrightarrow>
    s_commitVotes t = Some {||} \<Longrightarrow> effect s m t"
| prepare: "m_Type m = MsgPrepare \<Longrightarrow> m_ID m = s_proposalID s \<Longrightarrow> s_Phase s \<noteq> PhIdle \<Longrightarrow>
    s_prepareVotes s = Some V \<Longrightarrow> s_proposalID t = s_proposalID s \<Longrightarrow>
    s_prepareVotes t = Some (finsert (m_From m) V) \<Longrightarrow> s_commitVotes t = s_commitVotes s \<Longrightarrow>
    effect s m t"
| commit: "m_Type m = MsgCommit \<Longrightarrow> m_ID m = s_proposalID s \<Longrightarrow> s_Phase s \<noteq> PhIdle \<Longrightarrow>
    s_commitVotes s = Some V \<Longrightarrow> s_proposalID t = s_proposalID s \<Longrightarrow>
    s_commitVotes t = Some (finsert (m_From m) V) \<Longrightarrow> s_prepareVotes t = s_prepareVotes s \<Longrightarrow>
    effect s m t"

lemma effect_on_prepare: "m_Type m = MsgPrepare \<Longrightarrow> effect s m (fst (snd (on_prepare s m)))"
  by (cases "s_prepareVotes s")
    (auto simp: on_prepare_def Let_def intro: effect.same effect.prepare)

lemma effect_on_commit: "m_Type m = MsgCommit \<Longrightarrow> effect s m (fst (snd (on_commit s m)))"
  by (cases "s_commitVotes s")
    (auto simp: on_commit_def Let_def intro: effect.same effect.commit)

lemma effect_dispatch: "effect s m (fst (snd (dispatch s m)))"
  by (cases "m_Type m")
    (auto simp: dispatch_def effect_on_prepare effect_on_commit on_preprepare_def
      on_view_change_def on_new_view_def enter_round_def Let_def
      intro: effect.same effect.idle effect.propose)

lemma dispatch_Leader [simp]: "s_Leader (fst (snd (dispatch s m))) = s_Leader s"
  by (cases "m_Type m")
    (simp_all add: dispatch_def on_defs enter_round_def Let_def split: option.splits)

lemma backed_extend:
  assumes "backed s ms" and "s_Phase s \<noteq> PhIdle" and "s_Leader t = s_Leader s"
    and "s_proposalID t = s_proposalID s"
    and "\<And>ys. votes_backed s ys \<Longrightarrow> votes_backed t (ys @ [m])"
  shows "backed t (ms @ [m])"
proof -
  obtain xs p ys where "ms = xs @ p # ys" "m_Type p = MsgPreprepare" "m_ID p = s_proposalID s"
    "s_Leader s = '''' \<or> m_From p = s_Leader s" "votes_backed s ys"
    using assms(1,2) by (auto simp: backed_def)
  then show ?thesis
    unfolding backed_def using assms(3-5) by (metis append_Cons append_assoc)
qed

lemma votes_backed_prepare:
  assumes "votes_backed s ys" and "m_Type m = MsgPrepare" and "m_ID m = s_proposalID s"
    and "s_prepareVotes s = Some V" and "s_proposalID t = s_proposalID s"
    and "s_prepareVotes t = Some (finsert (m_From m) V)" and "s_commitVotes t = s_commitVotes s"
  shows "votes_backed t (ys @ [m])"
  using assms by (auto simp: votes_backed_def ballot_snoc) (auto simp: ballot_def)

lemma votes_backed_commit:
  assumes "votes_backed s ys" and "m_Type m = MsgCommit" and "m_ID m = s_proposalID s"
    and "s_commitVotes s = Some V" and "s_proposalID t = s_proposalID s"
    and "s_commitVotes t = Some (finsert (m_From m) V)" and "s_prepareVotes t = s_prepareVotes s"
  shows "votes_backed t (ys @ [m])"
  using assms by (auto simp: votes_backed_def ballot_snoc) (auto simp: ballot_def)

lemma backed_dispatch:
  assumes "backed s ms"
  shows "backed (fst (snd (dispatch s m))) (ms @ [m])"
  using effect_dispatch [of s m]
proof (cases rule: effect.cases)
  case same
  then show ?thesis
  proof (cases "s_Phase s = PhIdle")
    case False
    with assms same show ?thesis by (intro backed_extend) (auto intro: votes_backed_cong)
  qed (simp add: backed_def)
next
  case idle
  then show ?thesis by (simp add: backed_def)
next
  case propose
  then show ?thesis
    unfolding backed_def votes_backed_def by (intro disjI2 exI [of _ ms] exI [of _ m] exI [of _ "[]"]) simp
next
  case (prepare V)
  with assms show ?thesis by (intro backed_extend) (auto intro: votes_backed_prepare)
next
  case (commit V)
  with assms show ?thesis by (intro backed_extend) (auto intro: votes_backed_commit)
qed

lemma backed_set_coords [simp]: "backed (set_coords s m) = backed s"
  by (intro ext) (simp add: backed_def votes_backed_def)

lemma backed_run: "backed (process_run (new_State l) ms) ms"
proof (induction ms rule: rev_induct)
  case Nil
  show ?case by (simp add: backed_def new_State_def)
next
  case (snoc m ms)
  then show ?case by (simp add: Process_parts backed_dispatch)
qed

lemma qinv_run [simp]: "qinv (process_run (new_State l) ms)"
  by (rule qreach_inv [of l], rule qreach_run, rule qreach.start)

lemma Leader_run [simp]: "s_Leader (process_run s ms) = s_Leader s"
  by (induction ms rule: rev_induct) (simp_all add: Process_parts)

lemma two_voters:
  assumes "2 \<le> fcard V"
  obtains f g where "f \<noteq> g" "f |\<in>| V" "g |\<in>| V"
proof -
  from assms obtain f W where f: "V = finsert f W" "f |\<notin>| W"
    by (metis fcard_fempty fset_strong_cases not_numeral_le_zero)
  with assms have "W \<noteq> {||}" by (auto simp: fcard_finsert_if)
  with f that show ?thesis by (metis fempty_iff finsertCI fset_eqI)
qed

section \<open>View-change votes\<close>

definition view_ballot :: "u64 \<Rightarrow> string \<Rightarrow> Message list \<Rightarrow> bool" where
  "view_ballot r f ms \<longleftrightarrow> (\<exists>m\<in>set ms. m_Type m = MsgViewChange \<and> m_Round m = r \<and> m_From m = f)"

lemma view_ballot_append [simp]:
  "view_ballot r f (ms @ [m]) \<longleftrightarrow> view_ballot r f ms
     \<or> (m_Type m = MsgViewChange \<and> m_Round m = r \<and> m_From m = f)"
  by (auto simp: view_ballot_def)

definition views_backed :: "State \<Rightarrow> Message list \<Rightarrow> bool" where
  "views_backed s ms \<longleftrightarrow> (\<forall>r f. f |\<in>| getz {||} (s_viewVotes s) r \<longrightarrow> view_ballot r f ms)"

lemma dispatch_viewVotes:
  "s_viewVotes (fst (snd (dispatch s m))) =
     (if m_Type m = MsgViewChange
      then (s_viewVotes s)(m_Round m \<mapsto> finsert (m_From m) (getz {||} (s_viewVotes s) (m_Round m)))
      else s_viewVotes s)"
  by (cases "m_Type m")
    (auto simp: dispatch_def on_defs enter_round_def Let_def finsert_absorb split: option.splits)

lemma views_backed_run: "views_backed (process_run (new_State l) ms) ms"
proof (induction ms rule: rev_induct)
  case Nil
  show ?case by (simp add: views_backed_def new_State_def)
next
  case (snoc m ms)
  then show ?case by (auto simp: views_backed_def Process_parts dispatch_viewVotes)
qed

text \<open>A view-change message that moves the round found two voters for it.\<close>

lemma view_change_advance:
  assumes "m_Type m = MsgViewChange" and "s_Round (process_next s m) \<noteq> s_Round s"
  shows "s_Round (process_next s m) = m_Round m \<and> s_Round s < m_Round m
    \<and> 2 \<le> fcard (getz {||} (s_viewVotes (process_next s m)) (m_Round m))"
  using assms
  by (auto simp: Process_parts dispatch_def on_view_change_def enter_round_def Let_def set_coords_def
      split: if_splits)

text \<open>An error path of the switch touches nothing.\<close>

lemma dispatch_error: "fst (dispatch s m) = Inl e \<Longrightarrow> snd (dispatch s m) = (s, [])"
proof (cases "m_Type m")
  case MsgPrepare
  then show "fst (dispatch s m) = Inl e \<Longrightarrow> ?thesis"
    by (cases "s_prepareVotes s") (auto simp: dispatch_def on_prepare_def Let_def split: if_splits)
next
  case MsgCommit
  then show "fst (dispatch s m) = Inl e \<Longrightarrow> ?thesis"
    by (cases "s_commitVotes s") (auto simp: dispatch_def on_commit_def Let_def split: if_splits)
qed (auto simp: dispatch_def on_preprepare_def on_view_change_def on_new_view_def Let_def
    split: if_splits)

section \<open>Processing a message again\<close>

lemma set_coords_id:
  "s_Height s = m_Height m \<Longrightarrow>
   (m_Type m \<noteq> MsgViewChange \<Longrightarrow> m_Type m \<noteq> MsgNewView \<Longrightarrow> s_Round s = m_Round m) \<Longrightarrow>
   set_coords s m = s"
  by (simp add: set_coords_def Let_def)

lemma on_prepare_coords [simp]:
  "s_Height (fst (snd (on_prepare s m))) = s_Height s"
  "s_Round (fst (snd (on_prepare s m))) = s_Round s"
  by (cases "s_prepareVotes s"; simp add: on_prepare_def Let_def)+

lemma on_commit_coords [simp]:
  "s_Height (fst (snd (on_commit s m))) = s_Height s"
  "s_Round (fst (snd (on_commit s m))) = s_Round s"
  by (cases "s_commitVotes s"; simp add: on_commit_def Let_def)+

lemma dispatch_coords:
  "s_Height (fst (snd (dispatch s m))) = s_Height s"
  "m_Type m \<noteq> MsgViewChange \<Longrightarrow> m_Type m \<noteq> MsgNewView \<Longrightarrow>
     s_Round (fst (snd (dispatch (set_coords s m) m))) = m_Round m"
  by (cases "m_Type m"; simp add: dispatch_def on_preprepare_def on_view_change_def
      on_new_view_def enter_round_def set_coords_def Let_def)+

lemma on_prepare_voted: "voted (s_prepareVotes s) (m_From m) \<Longrightarrow> fst (snd (on_prepare s m)) = s"
  by (simp add: on_prepare_def)

lemma on_prepare_changed:
  "fst (snd (on_prepare s m)) = s \<or> voted (s_prepareVotes (fst (snd (on_prepare s m)))) (m_From m)"
  by (cases "s_prepareVotes s") (simp_all add: on_prepare_def Let_def)

lemma on_prepare_idem:
  "fst (snd (on_prepare (fst (snd (on_prepare s m))) m)) = fst (snd (on_prepare s m))"
  using on_prepare_changed [of s m] on_prepare_voted [of "fst (snd (on_prepare s m))" m] by auto

lemma on_commit_voted: "voted (s_commitVotes s) (m_From m) \<Longrightarrow> fst (snd (on_commit s m)) = s"
  by (simp add: on_commit_def)

lemma on_commit_changed:
  "fst (snd (on_commit s m)) = s \<or> voted (s_commitVotes (fst (snd (on_commit s m)))) (m_From m)"
  by (cases "s_commitVotes s") (simp_all add: on_commit_def Let_def)

lemma on_commit_idem:
  "fst (snd (on_commit (fst (snd (on_commit s m))) m)) = fst (snd (on_commit s m))"
  using on_commit_changed [of s m] on_commit_voted [of "fst (snd (on_commit s m))" m] by auto

lemma on_view_change_voted:
  "s_viewVotes s (m_Round m) = Some V \<Longrightarrow> m_From m |\<in>| V \<Longrightarrow>
   fst (snd (on_view_change s m)) = s"
  by (simp add: on_view_change_def getz_def Let_def fun_upd_idem)

lemma on_view_change_idem:
  "fst (snd (on_view_change (fst (snd (on_view_change s m))) m)) = fst (snd (on_view_change s m))"
proof (rule on_view_change_voted)
  show "s_viewVotes (fst (snd (on_view_change s m))) (m_Round m)
      = Some (finsert (m_From m) (getz {||} (s_viewVotes s) (m_Round m)))"
    by (simp add: on_view_change_def enter_round_def Let_def finsert_absorb)
qed simp

lemma dispatch_idem:
  "fst (snd (dispatch (fst (snd (dispatch s m))) m)) = fst (snd (dispatch s m))"
  by (cases "m_Type m")
    (simp_all add: dispatch_def on_prepare_idem on_commit_idem on_view_change_idem,
     simp_all add: on_preprepare_def on_new_view_def enter_round_def)

section \<open>Counting certificates\<close>

abbreviation n_qc :: "string \<Rightarrow> metric list \<Rightarrow> nat" where
  "n_qc kind ms \<equiv> count_inc ''qbft_qc_built_total'' [(''kind'', kind)] ms"

fun n_proposals :: "State \<Rightarrow> Message list \<Rightarrow> nat" where
  "n_proposals s [] = 0"
| "n_proposals s (m # ms) =
     (if m_Type m = MsgPreprepare \<and> is_ok (process_result s m) then 1 else 0)
     + n_proposals (process_next s m) ms"

lemma Process_n_qc: "n_qc k (snd (snd (Process s m))) = n_qc k (snd (snd (dispatch (set_coords s m) m)))"
  by (simp add: Process_def msg_total_def transitions_total_def split: prod.splits sum.splits)

lemma dispatch_prepare_qc:
  "n_qc ''prepare'' (snd (snd (dispatch s m))) + (if s_Phase (fst (snd (dispatch s m))) = PhPreprepared then 1 else 0)
   \<le> (if s_Phase s = PhPreprepared then 1 else 0)
     + (if m_Type m = MsgPreprepare \<and> is_ok (fst (dispatch s m)) then 1 else 0)"
  by (cases "m_Type m")
    (auto simp: dispatch_def on_defs enter_round_def qc_built_def view_changes_def Let_def
      split: option.splits)

lemma dispatch_commit_qc:
  "n_qc ''commit'' (snd (snd (dispatch s m))) + (if s_Phase (fst (snd (dispatch s m))) = PhPrepared then 1 else 0)
   \<le> (if s_Phase s = PhPrepared then 1 else 0) + n_qc ''prepare'' (snd (snd (dispatch s m)))"
  by (cases "m_Type m")
    (auto simp: dispatch_def on_defs enter_round_def qc_built_def view_changes_def Let_def
      split: option.splits)

lemma run_prepare_qc:
  "n_qc ''prepare'' (run_metrics s ms)
   \<le> (if s_Phase s = PhPreprepared then 1 else 0) + n_proposals s ms"
proof (induction ms arbitrary: s)
  case (Cons m ms)
  show ?case
    using Cons.IH [of "process_next s m"] dispatch_prepare_qc [of "set_coords s m" m]
    by (simp add: Process_n_qc Process_parts split: if_splits)
qed simp

lemma run_commit_qc:
  "n_qc ''commit'' (run_metrics s ms)
   \<le> (if s_Phase s = PhPrepared then 1 else 0) + n_qc ''prepare'' (run_metrics s ms)"
proof (induction ms arbitrary: s)
  case (Cons m ms)
  show ?case
    using Cons.IH [of "process_next s m"] dispatch_commit_qc [of "set_coords s m" m]
    by (simp add: Process_n_qc Process_parts split: if_splits)
qed simp

section \<open>Properties\<close>

text \<open>C13: In every state the machine can reach by processing messages and restoring
  coordinates, \<^verbatim>\<open>Process\<close> never stores into a nil vote map, whatever the message.\<close>

theorem process_never_panics:
  assumes "qreach l s"
  shows "process_result s m \<noteq> Inl PanicNilMap"
  using assms by (rule qinv_no_panic [OF qreach_inv])

theorem process_never_panics_witness:
  "process_result (process_run (new_State ''L'') [mk_msg MsgPreprepare ''L'' 1 0 ''blk''])
     (mk_msg MsgPrepare ''A'' 1 1 ''blk'') \<noteq> Inl PanicNilMap"
  by (rule process_never_panics [of "''L''"], rule qreach_run, rule qreach.start)

text \<open>C1: When a run from a fresh state ends in the commit phase, the messages contain a
  proposal from the authorised leader and, after it, prepare votes for that proposal by two
  different senders and a commit vote for it.\<close>

theorem commit_certificate:
  assumes "s = process_run (new_State l) ms" and "s_Phase s = PhCommit"
  shows "\<exists>xs p ys f g c. ms = xs @ p # ys \<and> m_Type p = MsgPreprepare \<and> m_ID p = s_proposalID s
     \<and> (l = '''' \<or> m_From p = l) \<and> f \<noteq> g
     \<and> ballot MsgPrepare f (s_proposalID s) ys \<and> ballot MsgPrepare g (s_proposalID s) ys
     \<and> ballot MsgCommit c (s_proposalID s) ys"
proof -
  have inv: "qinv s" and leader: "s_Leader s = l"
    using assms(1) by (simp_all, simp add: new_State_def)
  from inv assms(2) obtain V W where V: "s_prepareVotes s = Some V" "2 \<le> fcard V"
    and W: "s_commitVotes s = Some W" "1 \<le> fcard W"
    by (auto simp: qinv_def)
  from V(2) obtain f g where fg: "f \<noteq> g" "f |\<in>| V" "g |\<in>| V" by (rule two_voters)
  from W(2) obtain c where c: "c |\<in>| W"
    by (metis fcard_fempty fempty_iff fset_eqI not_one_le_zero)
  have "backed s ms" using assms(1) backed_run by simp
  then obtain xs p ys where "ms = xs @ p # ys" "m_Type p = MsgPreprepare"
    "m_ID p = s_proposalID s" "l = '''' \<or> m_From p = l" "votes_backed s ys"
    using assms(2) leader by (auto simp: backed_def)
  with fg c V(1) W(1) show ?thesis unfolding votes_backed_def by (metis voted_simps(2))
qed

theorem commit_certificate_witness:
  "let ms = [mk_msg MsgPreprepare ''L'' 1 0 ''blk'', mk_msg MsgPrepare ''A'' 1 1 ''blk'',
             mk_msg MsgPrepare ''B'' 1 1 ''blk'', mk_msg MsgCommit ''C'' 1 1 ''blk''];
       s = process_run (new_State ''L'') ms
   in s_Phase s = PhCommit \<and>
     (\<exists>xs p ys f g c. ms = xs @ p # ys \<and> m_Type p = MsgPreprepare \<and> m_ID p = s_proposalID s
     \<and> (''L'' = '''' \<or> m_From p = ''L'') \<and> f \<noteq> g
     \<and> ballot MsgPrepare f (s_proposalID s) ys \<and> ballot MsgPrepare g (s_proposalID s) ys
     \<and> ballot MsgCommit c (s_proposalID s) ys)"
proof -
  let ?ms = "[mk_msg MsgPreprepare ''L'' 1 0 ''blk'', mk_msg MsgPrepare ''A'' 1 1 ''blk'',
    mk_msg MsgPrepare ''B'' 1 1 ''blk'', mk_msg MsgCommit ''C'' 1 1 ''blk'']"
  let ?s = "process_run (new_State ''L'') ?ms"
  have ph: "s_Phase ?s = PhCommit"
    by (simp add: Process_parts dispatch_def on_defs new_State_def set_coords_def Let_def
        fcard_finsert_if)
  show ?thesis
    using ph commit_certificate [OF refl ph] unfolding Let_def by blast
qed

text \<open>Over a run from a fresh state, at most one prepare certificate is counted per
  accepted proposal and at most one commit certificate per prepare certificate
  (\<^verbatim>\<open>qbft_qc_built_total\<close>).\<close>

theorem certificates_bounded:
  "n_qc ''commit'' (run_metrics (new_State l) ms) \<le> n_qc ''prepare'' (run_metrics (new_State l) ms)
   \<and> n_qc ''prepare'' (run_metrics (new_State l) ms) \<le> n_proposals (new_State l) ms"
  using run_commit_qc [of "new_State l" ms] run_prepare_qc [of "new_State l" ms]
  by (simp add: new_State_def)

text \<open>Processing a message a second time leaves the state as the first time left it,
  for every state and every message (votes are counted once per sender).\<close>

theorem process_idempotent: "process_next (process_next s m) m = process_next s m"
proof -
  have "set_coords (process_next s m) m = process_next s m"
    by (rule set_coords_id) (simp_all add: Process_parts dispatch_coords)
  then show ?thesis
    by (simp add: Process_parts dispatch_idem)
qed

text \<open>A message \<^verbatim>\<open>Process\<close> rejects changes only the coordinates: phase, proposal,
  leader and all votes stay as they were, and no transition is counted.\<close>

theorem rejected_message_frame:
  assumes "process_result s m = Inl e"
  shows "process_next s m = set_coords s m
    \<and> count_inc ''qbft_state_transitions_total'' ls (snd (snd (Process s m))) = 0"
proof -
  have "fst (dispatch (set_coords s m) m) = Inl e"
    using assms by (simp only: Process_parts)
  with dispatch_error [OF this] have "dispatch (set_coords s m) m = (Inl e, set_coords s m, [])"
    by (simp add: prod_eq_iff)
  then show ?thesis by (simp add: Process_def msg_total_def)
qed

theorem rejected_message_frame_witness:
  "process_next (new_State ''L'') (mk_msg MsgCommit ''C'' 7 2 ''blk'')
     = set_coords (new_State ''L'') (mk_msg MsgCommit ''C'' 7 2 ''blk'')"
proof -
  have "process_result (new_State ''L'') (mk_msg MsgCommit ''C'' 7 2 ''blk'')
      = Inl ErrCommitBeforePrepared"
    by (simp add: Process_parts dispatch_def on_commit_def new_State_def)
  then show ?thesis by (rule rejected_message_frame [THEN conjunct1])
qed

text \<open>C12: In a run from a fresh state, a view-change message moves the round only upwards,
  only to the round it names, and only when two different senders have voted for it.\<close>

theorem view_change_quorum:
  assumes "s = process_run (new_State l) ms" and "m_Type m = MsgViewChange"
    and "s_Round (process_next s m) \<noteq> s_Round s"
  shows "s_Round s < m_Round m \<and> s_Round (process_next s m) = m_Round m
    \<and> (\<exists>f g. f \<noteq> g \<and> view_ballot (m_Round m) f (ms @ [m]) \<and> view_ballot (m_Round m) g (ms @ [m]))"
proof -
  note adv = view_change_advance [OF assms(2,3)]
  have "views_backed (process_next s m) (ms @ [m])"
    using views_backed_run [of l "ms @ [m]"] assms(1) by simp
  moreover obtain f g where "f \<noteq> g"
    "f |\<in>| getz {||} (s_viewVotes (process_next s m)) (m_Round m)"
    "g |\<in>| getz {||} (s_viewVotes (process_next s m)) (m_Round m)"
    using adv by (metis two_voters)
  ultimately show ?thesis using adv unfolding views_backed_def by blast
qed

theorem view_change_quorum_witness:
  "let s = process_run (new_State '''') [mk_msg MsgViewChange ''A'' 1 5 ''vc''];
       m = mk_msg MsgViewChange ''B'' 1 5 ''vc''
   in s_Round (process_next s m) = 5 \<and> s_Round s < 5"
proof -
  let ?ms = "[mk_msg MsgViewChange ''A'' 1 5 ''vc'']"
  let ?m = "mk_msg MsgViewChange ''B'' 1 5 ''vc''"
  have "s_Round (process_next (process_run (new_State '''') ?ms) ?m)
      \<noteq> s_Round (process_run (new_State '''') ?ms)"
    by (simp add: Process_parts dispatch_def on_view_change_def new_State_def set_coords_def
        enter_round_def Let_def fcard_finsert_if)
  from view_change_quorum [OF refl _ this] show ?thesis by (simp only: Let_def mk_msg_simps)
qed

text \<open>View-change votes survive a change of height: after two votes for round 5 at
  height 1, a single vote for round 5 at height 2 moves the round and drops the proposal.\<close>

theorem stale_view_votes:
  "let s = process_run (new_State '''')
       [mk_msg MsgViewChange ''A'' 1 5 ''vc'', mk_msg MsgViewChange ''B'' 1 5 ''vc'',
        mk_msg MsgPreprepare ''L'' 2 0 ''blk''];
       t = process_next s (mk_msg MsgViewChange ''C'' 2 5 ''vc'')
   in s_Height s = 2 \<and> s_Round s = 0 \<and> s_Phase s = PhPreprepared
      \<and> s_Round t = 5 \<and> s_Phase t = PhIdle"
  by (simp add: Process_parts dispatch_def on_defs new_State_def set_coords_def enter_round_def
      Let_def fcard_finsert_if)

end
