(* ===== verification/Byte_Codec.thy ===== *)
theory Byte_Codec
  imports Aequa_Prelude
begin

unbundle bit_operations_syntax

text \<open>
  What the stores use of \<^verbatim>\<open>encoding/binary\<close> (\<^verbatim>\<open>BigEndian.PutUintN\<close> and \<^verbatim>\<open>UintN\<close>) and of
  \<^verbatim>\<open>hash/crc32\<close> (\<^verbatim>\<open>ChecksumIEEE\<close>): round trips, injectivity, and the detection of a changed
  byte. \<open>frame\<close> is the header every store file of the node starts with.
\<close>

section \<open>Big-endian integers\<close>

definition put_be :: "nat \<Rightarrow> 'a::len word \<Rightarrow> bytes" where
  "put_be n w = map (\<lambda>i. ucast (drop_bit (8 * i) w)) (rev [0..<n])"

definition be_val :: "bytes \<Rightarrow> nat" where
  "be_val bs = foldl (\<lambda>a b. a * 256 + unat b) 0 bs"

definition get_be :: "bytes \<Rightarrow> 'a::len word" where
  "get_be bs = of_nat (be_val bs)"

lemma length_put_be [simp]: "length (put_be n w) = n"
  by (simp add: put_be_def)

lemma put_be_Suc: "put_be (Suc n) w = ucast (drop_bit (8 * n) w) # put_be n w"
  by (simp add: put_be_def)

lemma be_val_foldl: "foldl (\<lambda>a b. a * 256 + unat b) a bs = a * 256 ^ length bs + be_val bs"
proof (induction bs arbitrary: a)
  case (Cons b bs)
  show ?case
    using Cons.IH [of "a * 256 + unat b"] Cons.IH [of "unat b"]
    by (simp add: be_val_def algebra_simps)
qed (simp add: be_val_def)

lemma be_val_simps [simp]:
  "be_val [] = 0"
  "be_val (b # bs) = unat b * 256 ^ length bs + be_val bs"
proof -
  show "be_val [] = 0" by (simp add: be_val_def)
  show "be_val (b # bs) = unat b * 256 ^ length bs + be_val bs"
    using be_val_foldl [of "unat b" bs] by (simp add: be_val_def)
qed

lemma be_val_less: "be_val bs < 256 ^ length bs"
proof (induction bs)
  case (Cons b bs)
  have "unat b < 2 ^ LENGTH(8)" by (rule unsigned_less)
  then have "unat b \<le> 255" by simp
  then have "unat b * 256 ^ length bs \<le> 255 * 256 ^ length bs"
    by (rule mult_right_mono) simp
  then have "unat b * 256 ^ length bs + be_val bs < 255 * 256 ^ length bs + 256 ^ length bs"
    using Cons.IH by (rule add_le_less_mono)
  also have "\<dots> = 256 ^ length (b # bs)" by simp
  finally show ?case by simp
qed simp

lemma be_val_inj: "length bs = length cs \<Longrightarrow> be_val bs = be_val cs \<Longrightarrow> bs = cs"
proof (induction bs cs rule: list_induct2)
  case (Cons b bs c cs)
  let ?m = "256 ^ length bs :: nat"
  have "be_val bs < ?m" "be_val cs < ?m"
    using be_val_less [of bs] be_val_less [of cs] Cons.hyps by simp_all
  moreover have eq: "unat b * ?m + be_val bs = unat c * ?m + be_val cs"
    using Cons.prems Cons.hyps by simp
  ultimately have "unat b = (unat c * ?m + be_val cs) div ?m" "be_val bs = (unat c * ?m + be_val cs) mod ?m"
    by (simp_all flip: eq)
  with \<open>be_val cs < ?m\<close> have "unat b = unat c" "be_val bs = be_val cs" by simp_all
  with Cons.IH show ?case by (simp add: word_unat_eq_iff)
qed simp

lemma unat_byte_of: "unat (ucast (drop_bit (8 * i) w) :: byte) = unat w div 256 ^ i mod 256"
proof -
  have "unat (drop_bit (8 * i) w) = drop_bit (8 * i) (unat w)" by (rule unat_drop_bit_eq)
  also have "\<dots> = unat w div 256 ^ i" by (simp add: drop_bit_eq_div power_mult)
  finally have "unat (drop_bit (8 * i) w) = unat w div 256 ^ i" .
  then show ?thesis by (simp add: unsigned_ucast_eq take_bit_eq_mod)
qed

lemma be_val_put_be: "be_val (put_be n w) = unat w mod 256 ^ n"
proof (induction n)
  case (Suc n)
  have "unat w mod 256 ^ Suc n = unat w mod (256 ^ n * 256)" by (simp only: power_Suc2)
  also have "\<dots> = 256 ^ n * (unat w div 256 ^ n mod 256) + unat w mod 256 ^ n"
    by (rule mod_mult2_eq)
  also have "\<dots> = (unat w div 256 ^ n mod 256) * 256 ^ n + unat w mod 256 ^ n" by simp
  finally have "unat w mod 256 ^ Suc n = (unat w div 256 ^ n mod 256) * 256 ^ n + unat w mod 256 ^ n" .
  with Suc show ?case by (simp add: put_be_Suc unat_byte_of del: power_Suc)
qed (simp add: put_be_def)

lemma get_put_be [simp]: "LENGTH('a::len) = 8 * n \<Longrightarrow> get_be (put_be n (w :: 'a word)) = w"
proof -
  assume len: "LENGTH('a) = 8 * n"
  have "unat w < 2 ^ LENGTH('a)" by (rule unsigned_less)
  also have "(2::nat) ^ LENGTH('a) = 256 ^ n" by (simp add: len power_mult)
  finally show ?thesis by (simp add: get_be_def be_val_put_be)
qed

lemma get_be_inj:
  assumes "(get_be bs :: 'a::len word) = get_be cs" and "LENGTH('a) = 8 * n"
    and "length bs = n" and "length cs = n"
  shows "bs = cs"
proof -
  have "(2::nat) ^ LENGTH('a) = 256 ^ n" by (simp add: assms(2) power_mult)
  then have "be_val bs < 2 ^ LENGTH('a)" "be_val cs < 2 ^ LENGTH('a)"
    using be_val_less [of bs] be_val_less [of cs] assms(3,4) by simp_all
  with assms(1) have "be_val bs = be_val cs"
    unfolding get_be_def by (metis unat_of_nat mod_less)
  with assms(3,4) show ?thesis by (simp add: be_val_inj)
qed

section \<open>CRC-32\<close>

definition crc_poly :: u32 where "crc_poly = 0xEDB88320"

definition crc_step :: "u32 \<Rightarrow> u32" where
  "crc_step c = (if bit c 0 then drop_bit 1 c XOR crc_poly else drop_bit 1 c)"

definition crc_byte :: "u32 \<Rightarrow> byte \<Rightarrow> u32" where
  "crc_byte c b = (crc_step ^^ 8) (c XOR ucast b)"

definition crc32 :: "bytes \<Rightarrow> u32" where
  "crc32 bs = NOT (foldl crc_byte (NOT 0) bs)"

lemma xor_cancel: "(a :: 'a::len word) XOR c = b XOR c \<longleftrightarrow> a = b"
  by (auto simp: bit_eq_iff bit_xor_iff)

lemma crc_step_bit31: "bit (crc_step c) 31 = bit c 0"
proof -
  have "\<not> bit c 32" using bit_imp_le_length [of c 32] by auto
  then show ?thesis by (simp add: crc_step_def crc_poly_def bit_simps)
qed

lemma inj_crc_step: "inj crc_step"
proof (rule injI)
  fix c d assume eq: "crc_step c = crc_step d"
  then have b0: "bit c 0 = bit d 0" by (metis crc_step_bit31)
  with eq have "drop_bit 1 c = drop_bit 1 d"
    by (simp add: crc_step_def xor_cancel split: if_splits)
  then have "bit c (Suc n) = bit d (Suc n)" for n
    by (metis bit_drop_bit_eq comp_apply plus_1_eq_Suc)
  with b0 show "c = d"
    by (metis bit_word_eqI not0_implies_Suc)
qed

lemma inj_crc_steps: "inj (crc_step ^^ n)"
  by (rule inj_fn [OF inj_crc_step])

lemma crc_byte_inj: "crc_byte c b = crc_byte d b \<Longrightarrow> c = d"
  unfolding crc_byte_def by (drule injD [OF inj_crc_steps]) (simp add: xor_cancel)

lemma crc_byte_inj2: "crc_byte c a = crc_byte c b \<Longrightarrow> a = b"
proof -
  assume "crc_byte c a = crc_byte c b"
  then have "c XOR ucast a = c XOR ucast b"
    unfolding crc_byte_def by (rule injD [OF inj_crc_steps])
  then have "(ucast a :: u32) = ucast b"
    by (simp add: xor.commute [of c] xor_cancel)
  then have "(ucast (ucast a :: u32) :: byte) = ucast (ucast b :: u32)" by simp
  then show "a = b" by (simp add: ucast_down_ucast_id is_down)
qed

lemma foldl_crc_inj: "foldl crc_byte c bs = foldl crc_byte d bs \<Longrightarrow> c = d"
  by (induction bs arbitrary: c d) (auto dest: crc_byte_inj)

text \<open>Changing one byte changes the checksum.\<close>

lemma crc32_detects:
  assumes "i < length bs" and "b \<noteq> bs ! i"
  shows "crc32 (bs[i := b]) \<noteq> crc32 bs"
proof
  assume eq: "crc32 (bs[i := b]) = crc32 bs"
  let ?c = "foldl crc_byte (NOT 0) (take i bs)"
  have "foldl crc_byte (crc_byte ?c b) (drop (Suc i) bs) = foldl crc_byte (NOT 0) (bs[i := b])"
    using assms(1) by (simp add: upd_conv_take_nth_drop)
  also have "\<dots> = foldl crc_byte (NOT 0) bs"
    using eq by (simp add: crc32_def)
  also have "\<dots> = foldl crc_byte (crc_byte ?c (bs ! i)) (drop (Suc i) bs)"
    using assms(1) by (metis foldl_Cons foldl_append id_take_nth_drop)
  finally have "crc_byte ?c b = crc_byte ?c (bs ! i)"
    by (rule foldl_crc_inj)
  then show False
    using assms(2) crc_byte_inj2 by blast
qed

section \<open>The common file header\<close>

text \<open>
  \<^verbatim>\<open>[magic u32][version u16][flags u16][length u32][crc32 u32][body]\<close>, as
  \<^verbatim>\<open>writeFileAtomic\<close>, \<^verbatim>\<open>writeSess\<close>, \<^verbatim>\<open>writeBeastSession\<close> and \<^verbatim>\<open>KeyStore.writeAtomic\<close> build it.
\<close>

definition frame_header :: "u32 \<Rightarrow> u16 \<Rightarrow> u16 \<Rightarrow> bytes \<Rightarrow> bytes" where
  "frame_header magic ver flags body =
     put_be 4 magic @ put_be 2 ver @ put_be 2 flags
     @ put_be 4 (of_nat (length body) :: u32) @ put_be 4 (crc32 body)"

lemma length_frame_header [simp]: "length (frame_header magic ver flags body) = 16"
  by (simp add: frame_header_def)

text \<open>The fields a reader decodes from the first sixteen bytes.\<close>

definition hdr_magic :: "bytes \<Rightarrow> u32" where "hdr_magic f = get_be (take 4 f)"
definition hdr_flags :: "bytes \<Rightarrow> u16" where "hdr_flags f = get_be (take 2 (drop 6 f))"
definition hdr_length :: "bytes \<Rightarrow> u32" where "hdr_length f = get_be (take 4 (drop 8 f))"
definition hdr_crc :: "bytes \<Rightarrow> u32" where "hdr_crc f = get_be (take 4 (drop 12 f))"

lemmas hdr_defs = hdr_magic_def hdr_flags_def hdr_length_def hdr_crc_def

lemma hdr_frame [simp]:
  "hdr_magic (frame_header magic ver flags body @ rest) = magic"
  "hdr_flags (frame_header magic ver flags body @ rest) = flags"
  "hdr_length (frame_header magic ver flags body @ rest) = of_nat (length body)"
  "hdr_crc (frame_header magic ver flags body @ rest) = crc32 body"
  by (simp_all add: hdr_defs frame_header_def)

text \<open>A changed byte and the fields it is in, or is not in.\<close>

lemma segment_update_outside:
  "i < a \<or> a + n \<le> i \<Longrightarrow> take n (drop a (f[i := b])) = take n (drop a f)"
  by (cases "i < a") (simp_all add: drop_update_swap)

lemma segment_update_inside:
  "a \<le> i \<Longrightarrow> i < a + n \<Longrightarrow> take n (drop a (f[i := b])) = (take n (drop a f))[i - a := b]"
  by (simp add: drop_update_swap take_update_swap)

lemma hdr_update_outside [simp]:
  "4 \<le> i \<Longrightarrow> hdr_magic (f[i := b]) = hdr_magic f"
  "i < 8 \<or> 12 \<le> i \<Longrightarrow> hdr_length (f[i := b]) = hdr_length f"
  "i < 12 \<or> 16 \<le> i \<Longrightarrow> hdr_crc (f[i := b]) = hdr_crc f"
  using segment_update_outside [of i 0 4 f b] segment_update_outside [of i 8 4 f b]
    segment_update_outside [of i 12 4 f b]
  by (simp_all add: hdr_defs)

lemma get_be_update_neq:
  assumes "length bs = 4" and "i < 4" and "b \<noteq> bs ! i"
  shows "(get_be (bs[i := b]) :: u32) \<noteq> get_be bs"
proof
  assume "(get_be (bs[i := b]) :: u32) = get_be bs"
  then have "bs[i := b] = bs" by (rule get_be_inj [where n = 4]) (use assms(1) in simp_all)
  with assms show False by (metis nth_list_update_eq)
qed

lemma hdr_update_inside:
  assumes "16 \<le> length f" and "b \<noteq> f ! i"
  shows "i < 4 \<Longrightarrow> hdr_magic (f[i := b]) \<noteq> hdr_magic f"
    and "8 \<le> i \<Longrightarrow> i < 12 \<Longrightarrow> hdr_length (f[i := b]) \<noteq> hdr_length f"
    and "12 \<le> i \<Longrightarrow> i < 16 \<Longrightarrow> hdr_crc (f[i := b]) \<noteq> hdr_crc f"
  using assms segment_update_inside [of 0 i 4 f b] segment_update_inside [of 8 i 4 f b]
    segment_update_inside [of 12 i 4 f b] get_be_update_neq [of "take 4 f" i b]
    get_be_update_neq [of "take 4 (drop 8 f)" "i - 8" b]
    get_be_update_neq [of "take 4 (drop 12 f)" "i - 12" b]
  by (simp_all add: hdr_defs)

lemma hdr_take:
  "16 \<le> i \<Longrightarrow> hdr_magic (take i f) = hdr_magic f"
  "16 \<le> i \<Longrightarrow> hdr_length (take i f) = hdr_length f"
  "16 \<le> i \<Longrightarrow> hdr_crc (take i f) = hdr_crc f"
  "16 \<le> i \<Longrightarrow> hdr_flags (take i f) = hdr_flags f"
  by (simp_all add: hdr_defs drop_take min_def)

end
