(* ===== verification/Atomic_File.thy ===== *)
theory Atomic_File
  imports Byte_Codec
begin

text \<open>
  The atomic replacement protocol that the node's four file stores share
  (\<^verbatim>\<open>internal/state/file_store.go\<close>, \<^verbatim>\<open>internal/tss/dkg/storage.go\<close>,
  \<^verbatim>\<open>session_store.go\<close>, \<^verbatim>\<open>beast_session_store.go\<close>): write a temporary file, sync it, move the
  current file to \<^verbatim>\<open>.bak\<close>, rename the temporary file into place; read the main file and
  fall back to the backup. A write is the list of file-system calls of the Go function;
  an oracle decides for each call whether it succeeds, fails, or the process dies in it.
\<close>

section \<open>File-system calls\<close>

type_synonym fs = "string \<rightharpoonup> bytes"

text \<open>
  \<open>Guard b\<close> is a check of the Go code that returns an error when \<open>b\<close> is false;
  \<open>Backup p q\<close> is the \<^verbatim>\<open>os.Stat\<close> of \<open>p\<close> with the best-effort rename to \<open>q\<close>;
  \<open>SyncDir\<close> is the best-effort sync of the directory.
\<close>

datatype fop =
    Guard bool
  | MkdirAll
  | OpenTrunc string
  | OpenAppend string
  | WriteTo string bytes
  | SyncFile string
  | CloseFile string
  | SyncDir
  | Backup string string
  | Rename string string

text \<open>
  The oracle's decision for one call: it is carried out, it returns an error after
  writing the first \<open>n\<close> bytes of a write, or the process stops there in the same way.
\<close>

datatype call_outcome = Carried | Refused nat | Killed nat

datatype status = Completed | Errored | Crashed

text \<open>The effect of a call that is carried out; \<open>None\<close> when the call itself must fail.\<close>

fun perform :: "fop \<Rightarrow> fs \<Rightarrow> fs option" where
  "perform (Guard b) m = (if b then Some m else None)"
| "perform MkdirAll m = Some m"
| "perform (OpenTrunc p) m = Some (m(p \<mapsto> []))"
| "perform (OpenAppend p) m = Some (m(p \<mapsto> getz [] m p))"
| "perform (WriteTo p bs) m = (case m p of None \<Rightarrow> None | Some c \<Rightarrow> Some (m(p \<mapsto> c @ bs)))"
| "perform (SyncFile p) m = Some m"
| "perform (CloseFile p) m = Some m"
| "perform SyncDir m = Some m"
| "perform (Backup p q) m =
     (case m p of None \<Rightarrow> Some m | Some c \<Rightarrow> Some ((m(p := None))(q \<mapsto> c)))"
| "perform (Rename p q) m =
     (case m p of None \<Rightarrow> None | Some c \<Rightarrow> Some ((m(p := None))(q \<mapsto> c)))"

text \<open>What an interrupted call leaves behind.\<close>

fun interrupted :: "nat \<Rightarrow> fop \<Rightarrow> fs \<Rightarrow> fs" where
  "interrupted n (WriteTo p bs) m =
     (case m p of None \<Rightarrow> m | Some c \<Rightarrow> m(p \<mapsto> c @ take n bs))"
| "interrupted n _ m = m"

fun best_effort :: "fop \<Rightarrow> bool" where
  "best_effort (Backup p q) \<longleftrightarrow> True"
| "best_effort SyncDir \<longleftrightarrow> True"
| "best_effort _ \<longleftrightarrow> False"

fun run_ops :: "(nat \<Rightarrow> call_outcome) \<Rightarrow> fop list \<Rightarrow> fs \<Rightarrow> status \<times> fs" where
  "run_ops \<phi> [] m = (Completed, m)"
| "run_ops \<phi> (op # ops) m =
     (case \<phi> 0 of
        Killed n \<Rightarrow> (Crashed, interrupted n op m)
      | Refused n \<Rightarrow>
          if best_effort op then run_ops (\<lambda>i. \<phi> (Suc i)) ops m
          else (Errored, interrupted n op m)
      | Carried \<Rightarrow>
          (case perform op m of
             None \<Rightarrow> (Errored, m)
           | Some m' \<Rightarrow> run_ops (\<lambda>i. \<phi> (Suc i)) ops m'))"

lemma run_ops_append:
  "run_ops \<phi> (xs @ ys) m =
     (case run_ops \<phi> xs m of
        (Completed, m') \<Rightarrow> run_ops (\<lambda>i. \<phi> (i + length xs)) ys m'
      | r \<Rightarrow> r)"
  by (induction xs arbitrary: \<phi> m) (auto split: call_outcome.splits option.splits prod.splits status.splits)

text \<open>Calls that touch no file but \<open>t\<close>.\<close>

fun only_on :: "string \<Rightarrow> fop \<Rightarrow> bool" where
  "only_on t (OpenTrunc p) \<longleftrightarrow> p = t"
| "only_on t (OpenAppend p) \<longleftrightarrow> p = t"
| "only_on t (WriteTo p bs) \<longleftrightarrow> p = t"
| "only_on t (Backup p q) \<longleftrightarrow> False"
| "only_on t (Rename p q) \<longleftrightarrow> False"
| "only_on t _ \<longleftrightarrow> True"

lemma only_on_perform: "only_on t op \<Longrightarrow> perform op m = Some m' \<Longrightarrow> q \<noteq> t \<Longrightarrow> m' q = m q"
  by (cases op) (auto split: option.splits if_splits)

lemma only_on_interrupted: "only_on t op \<Longrightarrow> q \<noteq> t \<Longrightarrow> interrupted n op m q = m q"
  by (cases op) (auto split: option.splits)

lemma run_ops_only_on:
  "\<lbrakk>run_ops \<phi> ops m = (r, m'); \<forall>op \<in> set ops. only_on t op; q \<noteq> t\<rbrakk> \<Longrightarrow> m' q = m q"
proof (induction ops arbitrary: \<phi> m)
  case (Cons op ops)
  then show ?case
    by (auto simp: only_on_perform only_on_interrupted split: call_outcome.splits option.splits if_splits)
qed simp

lemma run_ops_frame:
  "\<lbrakk>run_ops \<phi> ops m = (r, m');
    \<forall>op \<in> set ops. \<forall>m m1. perform op m = Some m1 \<longrightarrow> m1 q = m q;
    \<forall>op \<in> set ops. \<forall>n m. interrupted n op m q = m q\<rbrakk> \<Longrightarrow> m' q = m q"
proof (induction ops arbitrary: \<phi> m)
  case (Cons op ops)
  then show ?case by (auto split: call_outcome.splits option.splits if_splits)
qed simp

text \<open>Calls that change no file.\<close>

fun quiet :: "fop \<Rightarrow> bool" where
  "quiet SyncDir \<longleftrightarrow> True"
| "quiet _ \<longleftrightarrow> False"

lemma run_ops_quiet: "run_ops \<phi> ops m = (r, m') \<Longrightarrow> \<forall>op \<in> set ops. quiet op \<Longrightarrow> m' = m \<and> r \<noteq> Errored"
proof (induction ops arbitrary: \<phi> m)
  case (Cons op ops)
  moreover obtain "op = SyncDir" using Cons.prems by (cases op) auto
  ultimately show ?case by (auto split: call_outcome.splits)
qed auto

section \<open>The replacement protocol\<close>

abbreviation tmp_of :: "string \<Rightarrow> string" where "tmp_of p \<equiv> p @ ''.tmp''"
abbreviation bak_of :: "string \<Rightarrow> string" where "bak_of p \<equiv> p @ ''.bak''"

definition replace_ops :: "string \<Rightarrow> fop list" where
  "replace_ops p = [Backup p (bak_of p), Rename (tmp_of p) p]"

text \<open>
  Load with a decoder: the main file, or the backup when the main file cannot be read.
\<close>

definition read_at :: "(bytes \<Rightarrow> 'e + 'v) \<Rightarrow> string \<Rightarrow> fs \<Rightarrow> 'v option" where
  "read_at dec p m =
     (case m p of None \<Rightarrow> None | Some f \<Rightarrow> (case dec f of Inl _ \<Rightarrow> None | Inr v \<Rightarrow> Some v))"

definition load_at :: "(bytes \<Rightarrow> 'e + 'v) \<Rightarrow> string \<Rightarrow> fs \<Rightarrow> 'v option" where
  "load_at dec p m =
     (case read_at dec p m of Some v \<Rightarrow> Some v | None \<Rightarrow> read_at dec (bak_of p) m)"

text \<open>The main file is absent or readable: what every save preserves.\<close>

definition main_ok :: "(bytes \<Rightarrow> 'e + 'v) \<Rightarrow> string \<Rightarrow> fs \<Rightarrow> bool" where
  "main_ok dec p m \<longleftrightarrow> m p = None \<or> read_at dec p m \<noteq> None"

lemma load_at_cong: "m' p = m p \<Longrightarrow> m' (bak_of p) = m (bak_of p) \<Longrightarrow> load_at dec p m' = load_at dec p m"
  by (auto simp: load_at_def read_at_def split: option.splits)

lemma main_ok_cong: "m' p = m p \<Longrightarrow> main_ok dec p m' = main_ok dec p m"
  by (simp add: main_ok_def read_at_def)

lemma load_at_moved:
  assumes "main_ok dec p m" and "m p = Some c" and "m' p = None" and "m' (bak_of p) = Some c"
  shows "load_at dec p m' = load_at dec p m"
  using assms by (auto simp: main_ok_def load_at_def read_at_def split: option.splits sum.splits)

text \<open>
  The two calls that replace the file, from a state in which the temporary file decodes
  to \<open>v\<close>: the outcome decides which of the two values a later load returns.
\<close>

lemma replace_ops_cases:
  assumes tmp: "m (tmp_of p) = Some f" and run: "run_ops \<phi> (replace_ops p) m = (r, m')"
  shows "(m' = m \<and> r \<noteq> Completed)
    \<or> (\<exists>c. m p = Some c \<and> m' p = None \<and> m' (bak_of p) = Some c \<and> r \<noteq> Completed)
    \<or> (m' p = Some f \<and> r = Completed)"
proof (cases "m p")
  case None
  with tmp run show ?thesis
    by (simp add: replace_ops_def split: call_outcome.splits) auto
next
  case (Some c)
  with tmp run show ?thesis
    by (simp add: replace_ops_def split: call_outcome.splits) auto
qed

lemma replace_ops_outcome:
  assumes ok: "main_ok dec p m" and tmp: "m (tmp_of p) = Some f" and dec: "dec f = Inr v"
    and run: "run_ops \<phi> (replace_ops p) m = (r, m')"
  shows "main_ok dec p m' \<and> load_at dec p m' = (if r = Completed then Some v else load_at dec p m)"
proof -
  consider (kept) "m' = m" "r \<noteq> Completed"
    | (moved) c where "m p = Some c" "m' p = None" "m' (bak_of p) = Some c" "r \<noteq> Completed"
    | (promoted) "m' p = Some f" "r = Completed"
    using replace_ops_cases [OF tmp run] by blast
  then show ?thesis
  proof cases
    case kept
    with ok show ?thesis by simp
  next
    case moved
    with ok load_at_moved [of dec p m c m'] show ?thesis by (simp add: main_ok_def)
  next
    case promoted
    with dec show ?thesis by (simp add: main_ok_def load_at_def read_at_def)
  qed
qed

section \<open>The interface of a file store\<close>

text \<open>
  \<open>prep c p v\<close> are the calls that build the temporary file for \<open>v\<close>, \<open>post\<close> the calls
  after the rename, \<open>dec c\<close> the reader; \<open>c\<close> carries what the code outside the repository
  decides (codec, nonce), and \<open>faithful c v\<close> what the store relies on there.
\<close>

locale file_store =
  fixes prep :: "'c \<Rightarrow> string \<Rightarrow> 'v \<Rightarrow> fop list"
    and post :: "fop list"
    and dec :: "'c \<Rightarrow> bytes \<Rightarrow> 'e + 'v"
    and faithful :: "'c \<Rightarrow> 'v \<Rightarrow> bool"
  assumes prep_only: "op \<in> set (prep c p v) \<Longrightarrow> only_on (tmp_of p) op"
    and prep_writes: "faithful c v \<Longrightarrow> run_ops \<phi> (prep c p v) m = (Completed, m') \<Longrightarrow>
           \<exists>f. m' (tmp_of p) = Some f \<and> dec c f = Inr v"
    and post_quiet: "op \<in> set post \<Longrightarrow> quiet op"
begin

text \<open>
  Whatever call fails or kills the process, the store stays readable; a completed save
  is what a load returns, a failed one changes nothing, and a crash leaves the old or the
  new value.
\<close>

lemma write_outcome:
  assumes ok: "main_ok (dec c) p m" and good: "faithful c v"
    and run: "run_ops \<phi> (prep c p v @ replace_ops p @ post) m = (r, m')"
  shows "main_ok (dec c) p m'"
    and "r = Completed \<Longrightarrow> load_at (dec c) p m' = Some v"
    and "r = Errored \<Longrightarrow> load_at (dec c) p m' = load_at (dec c) p m"
    and "load_at (dec c) p m' \<in> {load_at (dec c) p m, Some v}"
proof -
  obtain r1 m1 where one: "run_ops \<phi> (prep c p v) m = (r1, m1)" by fastforce
  have same: "m1 p = m p" "m1 (bak_of p) = m (bak_of p)"
    using run_ops_only_on [OF one, of "tmp_of p"] prep_only [of _ c p v] by auto
  then have ok1: "main_ok (dec c) p m1" and ld1: "load_at (dec c) p m1 = load_at (dec c) p m"
    using ok main_ok_cong [of m1 p m "dec c"] load_at_cong [of m1 p m "dec c"] by simp_all
  have concl: "main_ok (dec c) p m' \<and>
      (r = Completed \<longrightarrow> load_at (dec c) p m' = Some v) \<and>
      (r = Errored \<longrightarrow> load_at (dec c) p m' = load_at (dec c) p m) \<and>
      load_at (dec c) p m' \<in> {load_at (dec c) p m, Some v}"
  proof (cases "r1 = Completed")
    case False
    with run one have "r = r1 \<and> m' = m1"
      by (auto simp: run_ops_append split: status.splits)
    with False ok1 ld1 show ?thesis by simp
  next
    case True
    with one prep_writes [OF good] obtain f where f: "m1 (tmp_of p) = Some f" "dec c f = Inr v"
      by blast
    obtain r2 m2 where two: "run_ops (\<lambda>i. \<phi> (i + length (prep c p v))) (replace_ops p) m1 = (r2, m2)"
      by fastforce
    from replace_ops_outcome [OF ok1 f two] ld1
    have r2: "main_ok (dec c) p m2"
      "load_at (dec c) p m2 = (if r2 = Completed then Some v else load_at (dec c) p m)" by simp_all
    show ?thesis
    proof (cases "r2 = Completed")
      case False
      with run one two True have "r = r2 \<and> m' = m2"
        by (auto simp: run_ops_append split: status.splits)
      with False r2 show ?thesis by simp
    next
      case fin: True
      with run one two True obtain \<psi> where "run_ops \<psi> post m2 = (r, m')"
        by (auto simp: run_ops_append)
      then have "m' = m2 \<and> r \<noteq> Errored" using run_ops_quiet post_quiet by blast
      with fin r2 show ?thesis by simp
    qed
  qed
  from concl show "main_ok (dec c) p m'" by simp
  from concl show "r = Completed \<Longrightarrow> load_at (dec c) p m' = Some v" by simp
  from concl show "r = Errored \<Longrightarrow> load_at (dec c) p m' = load_at (dec c) p m" by simp
  from concl show "load_at (dec c) p m' \<in> {load_at (dec c) p m, Some v}" by simp
qed

text \<open>Without a fault the save completes.\<close>

lemma write_completes:
  assumes run: "run_ops \<phi> (prep c p v) m = (Completed, m1)" and good: "faithful c v"
    and calm: "\<And>i. \<phi> i = Carried"
  shows "fst (run_ops \<phi> (prep c p v @ replace_ops p @ post) m) = Completed"
proof -
  obtain f where "m1 (tmp_of p) = Some f" using prep_writes [OF good run] by blast
  moreover have "\<forall>op \<in> set post. op = SyncDir" using post_quiet quiet.elims(2) by blast
  then have "fst (run_ops \<psi> post m') = Completed" if "\<And>i. \<psi> i = Carried" for \<psi> m'
    using that by (induction post arbitrary: \<psi>) auto
  ultimately show ?thesis
    using run calm by (cases "m1 p") (auto simp: run_ops_append replace_ops_def)
qed

end

section \<open>File names\<close>

text \<open>
  \<^verbatim>\<open>filepath.Join\<close> on a Unix system: empty elements are dropped, the others are joined with
  slashes, and the result is cleaned: empty and \<^verbatim>\<open>.\<close> components vanish and \<^verbatim>\<open>..\<close> removes the
  component before it.
\<close>

fun clean_comps :: "bool \<Rightarrow> string list \<Rightarrow> string list \<Rightarrow> string list" where
  "clean_comps rooted acc [] = rev acc"
| "clean_comps rooted acc (c # cs) =
     (if c = [] \<or> c = ''.'' then clean_comps rooted acc cs
      else if c = ''..'' then
        (case acc of
           [] \<Rightarrow> clean_comps rooted (if rooted then [] else [c]) cs
         | a # as \<Rightarrow> clean_comps rooted (if a = ''..'' then c # acc else as) cs)
      else clean_comps rooted (c # acc) cs)"

fun join_slash :: "string list \<Rightarrow> string" where
  "join_slash [] = []"
| "join_slash [c] = c"
| "join_slash (c # cs) = c @ CHR ''/'' # join_slash cs"

definition filepath_Clean :: "string \<Rightarrow> string" where
  "filepath_Clean p =
     (let rooted = (p \<noteq> [] \<and> hd p = CHR ''/'');
          q = join_slash (clean_comps rooted [] (split_on (CHR ''/'') p))
      in if rooted then CHR ''/'' # q else if q = [] then ''.'' else q)"

definition filepath_Join :: "string list \<Rightarrow> string" where
  "filepath_Join es =
     (let ne = filter (\<lambda>e. e \<noteq> []) es in
      if ne = [] then [] else filepath_Clean (join_slash ne))"

end
