(* ===== verification/Tss_Stores.thy ===== *)
theory Tss_Stores
  imports Atomic_File
begin

text \<open>
  The file stores of \<^verbatim>\<open>internal/tss/dkg\<close>: \<^verbatim>\<open>SessionStore\<close>, \<^verbatim>\<open>BeastSessionStore\<close> and
  \<^verbatim>\<open>KeyStore\<close> with its optional AES-GCM encryption. \<^verbatim>\<open>encoding/json\<close> on the stored struct,
  \<^verbatim>\<open>crypto/rand\<close> and the AEAD are arguments. Each store interprets \<open>file_store\<close>, so the
  crash behaviour proved there holds for all of them. The zeroing of buffers has no
  effect that a value can show and is left out.
\<close>

section \<open>Session stores\<close>

text \<open>The JSON codec of the stored struct: \<^verbatim>\<open>json.Marshal\<close> and \<^verbatim>\<open>json.Unmarshal\<close>.\<close>

record 'v json =
  marshal :: "'v \<Rightarrow> bytes option"
  unmarshal :: "bytes \<Rightarrow> 'v option"

text \<open>
  What the stores rely on: decoding the encoding gives the value back, and the encoding
  fits the 32-bit length field.
\<close>

definition json_ok :: "'v json \<Rightarrow> 'v \<Rightarrow> bool" where
  "json_ok J v \<longleftrightarrow> (\<forall>b. marshal J v = Some b \<longrightarrow> unmarshal J b = Some v \<and> length b < 2 ^ 32)"

datatype store_error =
    StOpen | StEOF | StBadMagic | StBadLength | StCrcMismatch | StNoKey | StBadNonce | StAuth | StJson

definition body_of :: "'v json \<Rightarrow> 'v \<Rightarrow> bytes" where
  "body_of J v = (case marshal J v of None \<Rightarrow> [] | Some b \<Rightarrow> b)"

text \<open>The calls of \<^verbatim>\<open>writeSess\<close> and \<^verbatim>\<open>writeBeastSession\<close> up to the backup.\<close>

definition session_prep :: "u32 \<Rightarrow> u16 \<Rightarrow> 'v json \<Rightarrow> string \<Rightarrow> 'v \<Rightarrow> fop list" where
  "session_prep magic ver J path v =
     [Guard (marshal J v \<noteq> None), MkdirAll, OpenTrunc (tmp_of path),
      WriteTo (tmp_of path) (frame_header magic ver 0 (body_of J v)),
      WriteTo (tmp_of path) (body_of J v), SyncFile (tmp_of path), CloseFile (tmp_of path)]"

definition session_decode :: "u32 \<Rightarrow> 'v json \<Rightarrow> bytes \<Rightarrow> store_error + 'v" where
  "session_decode magic J f =
     (if length f < 16 then Inl StEOF
      else if hdr_magic f \<noteq> magic then Inl StBadMagic
      else let l = unat (hdr_length f) in
        if length (drop 16 f) < l then Inl StEOF
        else let body = take l (drop 16 f) in
          if crc32 body \<noteq> hdr_crc f then Inl StCrcMismatch
          else (case unmarshal J body of None \<Rightarrow> Inl StJson | Some v \<Rightarrow> Inr v))"

definition magicSess :: u32 where "magicSess = 0x54535353"
definition versionSess :: u16 where "versionSess = 1"
definition magicBeastSess :: u32 where "magicBeastSess = 0x42445353"
definition versionBeast :: u16 where "versionBeast = 1"

definition sess_pathFor :: "string \<Rightarrow> string \<Rightarrow> string" where
  "sess_pathFor dir i = filepath_Join [dir, ''tss_session_'' @ i @ ''.dat'']"

definition beast_pathFor :: "string \<Rightarrow> string \<Rightarrow> string" where
  "beast_pathFor dir i = filepath_Join [dir, ''beast_dkg_session_'' @ i @ ''.dat'']"

definition sess_prep :: "'v json \<Rightarrow> string \<Rightarrow> 'v \<Rightarrow> fop list" where
  "sess_prep = session_prep magicSess versionSess"

definition writeSess :: "'v json \<Rightarrow> string \<Rightarrow> 'v \<Rightarrow> fop list" where
  "writeSess J path st = sess_prep J path st @ replace_ops path @ []"

definition readSess :: "'v json \<Rightarrow> bytes \<Rightarrow> store_error + 'v" where
  "readSess = session_decode magicSess"

definition sess_Save :: "(nat \<Rightarrow> call_outcome) \<Rightarrow> 'v json \<Rightarrow> string \<Rightarrow> string \<Rightarrow> 'v \<Rightarrow> fs \<Rightarrow> status \<times> fs" where
  "sess_Save \<phi> J dir i st m = run_ops \<phi> (writeSess J (sess_pathFor dir i) st) m"

definition sess_Load :: "'v json \<Rightarrow> string \<Rightarrow> string \<Rightarrow> fs \<Rightarrow> 'v option \<times> metric list" where
  "sess_Load J dir i m =
     (let p = sess_pathFor dir i in
      case read_at (readSess J) p m of
        Some st \<Rightarrow> (Some st, [Inc ''tss_recovery_total'' [(''result'', ''ok'')]])
      | None \<Rightarrow>
          (case read_at (readSess J) (p @ ''.bak'') m of
             Some st \<Rightarrow> (Some st, [Inc ''tss_recovery_total'' [(''result'', ''fallback'')]])
           | None \<Rightarrow> (None, [Inc ''tss_recovery_total'' [(''result'', ''fail'')]])))"

definition beast_prep :: "'v json \<Rightarrow> string \<Rightarrow> 'v \<Rightarrow> fop list" where
  "beast_prep = session_prep magicBeastSess versionBeast"

definition writeBeastSession :: "'v json \<Rightarrow> string \<Rightarrow> 'v \<Rightarrow> fop list" where
  "writeBeastSession J path st = beast_prep J path st @ replace_ops path @ []"

definition readBeastSession :: "'v json \<Rightarrow> bytes \<Rightarrow> store_error + 'v" where
  "readBeastSession = session_decode magicBeastSess"

definition beast_Save :: "(nat \<Rightarrow> call_outcome) \<Rightarrow> 'v json \<Rightarrow> string \<Rightarrow> string \<Rightarrow> 'v \<Rightarrow> fs \<Rightarrow> status \<times> fs" where
  "beast_Save \<phi> J dir i st m = run_ops \<phi> (writeBeastSession J (beast_pathFor dir i) st) m"

definition beast_Load :: "'v json \<Rightarrow> string \<Rightarrow> string \<Rightarrow> fs \<Rightarrow> 'v option" where
  "beast_Load J dir i m =
     (let p = beast_pathFor dir i in
      case read_at (readBeastSession J) p m of
        Some st \<Rightarrow> Some st
      | None \<Rightarrow> read_at (readBeastSession J) (p @ ''.bak'') m)"

lemma session_decode_frame:
  assumes "unmarshal J b = Some v" and "length b < 2 ^ 32"
  shows "session_decode magic J (frame_header magic ver flags b @ b) = Inr v"
proof -
  have "unat (of_nat (length b) :: u32) = length b"
    using assms(2) by (simp add: unat_of_nat)
  with assms(1) show ?thesis by (simp add: session_decode_def Let_def)
qed

lemma session_prep_only: "op \<in> set (session_prep magic ver J p v) \<Longrightarrow> only_on (tmp_of p) op"
  by (auto simp: session_prep_def)

lemma session_prep_writes:
  assumes "json_ok J v" and "run_ops \<phi> (session_prep magic ver J p v) m = (Completed, m')"
  shows "\<exists>f. m' (tmp_of p) = Some f \<and> session_decode magic J f = Inr v"
proof -
  have "marshal J v \<noteq> None"
    and tmp: "m' (tmp_of p) = Some (frame_header magic ver 0 (body_of J v) @ body_of J v)"
    using assms(2) by (auto simp: session_prep_def split: call_outcome.splits if_splits)
  then obtain b where "marshal J v = Some b" by blast
  then have "unmarshal J (body_of J v) = Some v" "length (body_of J v) < 2 ^ 32"
    using assms(1) by (simp_all add: json_ok_def body_of_def)
  with tmp show ?thesis by (simp add: session_decode_frame)
qed

interpretation sess: file_store sess_prep "[]" readSess json_ok
  unfolding sess_prep_def readSess_def
  by unfold_locales (auto intro: session_prep_only session_prep_writes)

interpretation beast: file_store beast_prep "[]" readBeastSession json_ok
  unfolding beast_prep_def readBeastSession_def
  by unfold_locales (auto intro: session_prep_only session_prep_writes)

lemma fst_sess_Load: "fst (sess_Load J dir i m) = load_at (readSess J) (sess_pathFor dir i) m"
  by (auto simp: sess_Load_def load_at_def Let_def split: option.splits)

lemma beast_Load_at: "beast_Load J dir i m = load_at (readBeastSession J) (beast_pathFor dir i) m"
  by (auto simp: beast_Load_def load_at_def Let_def split: option.splits)

section \<open>The key store\<close>

text \<open>
  An AEAD as \<^verbatim>\<open>cipher.AEAD\<close> offers it (no additional data is used), and what the store
  relies on: opening what was sealed under the same nonce gives the plaintext back.
\<close>

record aead =
  seal :: "bytes \<Rightarrow> bytes \<Rightarrow> bytes"
  aopen :: "bytes \<Rightarrow> bytes \<Rightarrow> bytes option"

definition aead_ok :: "aead \<Rightarrow> bool" where
  "aead_ok a \<longleftrightarrow> (\<forall>n p. aopen a n (seal a n p) = Some p)"

record KeyStore =
  ks_path :: string
  ks_aead :: "aead option"
  ks_encrypt :: bool
  ks_zeroize :: bool

definition NewKeyStore :: "string \<Rightarrow> KeyStore" where
  "NewKeyStore path = \<lparr>ks_path = path, ks_aead = None, ks_encrypt = False, ks_zeroize = False\<rparr>"

text \<open>\<open>aes\<close> stands for \<^verbatim>\<open>newAESGCM\<close>.\<close>

definition NewKeyStoreEncrypted :: "(bytes \<Rightarrow> aead option) \<Rightarrow> string \<Rightarrow> bytes \<Rightarrow> bool \<Rightarrow> KeyStore" where
  "NewKeyStoreEncrypted aes path key zeroize =
     (let ks = NewKeyStore path in
      if length key \<noteq> 32 then ks
      else (case aes key of
              None \<Rightarrow> ks
            | Some a \<Rightarrow> ks\<lparr>ks_aead := Some a, ks_encrypt := True, ks_zeroize := zeroize\<rparr>))"

text \<open>\<^verbatim>\<open>hex.DecodeString\<close>: \<open>None\<close> for an odd length or a character that is no hex digit.\<close>

definition hex_digit :: "char \<Rightarrow> nat option" where
  "hex_digit c =
     (let n = of_char c :: nat in
      if 48 \<le> n \<and> n \<le> 57 then Some (n - 48)
      else if 97 \<le> n \<and> n \<le> 102 then Some (n - 87)
      else if 65 \<le> n \<and> n \<le> 70 then Some (n - 55)
      else None)"

fun hex_decode :: "string \<Rightarrow> bytes option" where
  "hex_decode [] = Some []"
| "hex_decode [c] = None"
| "hex_decode (c # d # cs) =
     (case (hex_digit c, hex_digit d, hex_decode cs) of
        (Some h, Some l, Some bs) \<Rightarrow> Some (of_nat (16 * h + l) # bs)
      | _ \<Rightarrow> None)"

text \<open>\<open>env\<close> is \<^verbatim>\<open>os.Getenv\<close> (empty when unset), \<open>file\<close> is \<^verbatim>\<open>os.ReadFile\<close>.\<close>

definition env_key :: "(string \<Rightarrow> string) \<Rightarrow> (string \<Rightarrow> bytes option) \<Rightarrow> bytes" where
  "env_key env rd =
     (if env ''AEQUA_TSS_KEYSTORE_KEY'' \<noteq> [] then
        (case hex_decode (env ''AEQUA_TSS_KEYSTORE_KEY'') of Some b \<Rightarrow> b | None \<Rightarrow> [])
      else if env ''AEQUA_TSS_KEYSTORE_KEY_FILE'' \<noteq> [] then
        (case rd (env ''AEQUA_TSS_KEYSTORE_KEY_FILE'') of Some b \<Rightarrow> b | None \<Rightarrow> [])
      else [])"

definition NewKeyStoreFromEnv :: "(bytes \<Rightarrow> aead option) \<Rightarrow> (string \<Rightarrow> string) \<Rightarrow> (string \<Rightarrow> bytes option)
    \<Rightarrow> string \<Rightarrow> KeyStore" where
  "NewKeyStoreFromEnv aes env rd path =
     (if env ''AEQUA_TSS_KEYSTORE_ENCRYPT'' = ''1'' then
        NewKeyStoreEncrypted aes path (env_key env rd) (env ''AEQUA_TSS_ZEROIZE'' = ''1'')
      else NewKeyStore path)"

definition magicTSS :: u32 where "magicTSS = 0x5453534b"
definition version_tss :: u16 where "version_tss = 1"
definition flagEncrypt :: u16 where "flagEncrypt = 1"

text \<open>
  What one save takes from outside: the codec, and the twelve bytes \<^verbatim>\<open>rand.Read\<close> delivers
  (\<open>None\<close> when it fails).
\<close>

record 'v ks_env =
  ke_store :: KeyStore
  ke_json :: "'v json"
  ke_nonce :: "bytes option"

definition sealing :: "KeyStore \<Rightarrow> aead option" where
  "sealing s = (if ks_encrypt s then ks_aead s else None)"

definition ks_body :: "'v ks_env \<Rightarrow> 'v \<Rightarrow> bytes" where
  "ks_body e v =
     (case sealing (ke_store e) of
        None \<Rightarrow> body_of (ke_json e) v
      | Some a \<Rightarrow> (case ke_nonce e of None \<Rightarrow> [] | Some n \<Rightarrow> n @ seal a n (body_of (ke_json e) v)))"

definition ks_flags :: "KeyStore \<Rightarrow> u16" where
  "ks_flags s = (case sealing s of None \<Rightarrow> 0 | Some a \<Rightarrow> flagEncrypt)"

definition ks_prep :: "'v ks_env \<Rightarrow> string \<Rightarrow> 'v \<Rightarrow> fop list" where
  "ks_prep e path v =
     [OpenTrunc (tmp_of path), Guard (marshal (ke_json e) v \<noteq> None),
      Guard (sealing (ke_store e) \<noteq> None \<longrightarrow> ke_nonce e \<noteq> None),
      WriteTo (tmp_of path) (frame_header magicTSS version_tss (ks_flags (ke_store e)) (ks_body e v)),
      WriteTo (tmp_of path) (ks_body e v), SyncFile (tmp_of path), CloseFile (tmp_of path), SyncDir]"

definition ks_writeAtomic :: "'v ks_env \<Rightarrow> string \<Rightarrow> 'v \<Rightarrow> fop list" where
  "ks_writeAtomic e path v = ks_prep e path v @ replace_ops path @ [SyncDir]"

definition ks_readFile :: "'v ks_env \<Rightarrow> bytes \<Rightarrow> store_error + 'v" where
  "ks_readFile e f =
     (if length f < 16 then Inl StEOF
      else if hdr_magic f \<noteq> magicTSS then Inl StBadMagic
      else if hdr_length f = 0 then Inl StBadLength
      else let l = unat (hdr_length f) in
        if length (drop 16 f) < l then Inl StEOF
        else let body = take l (drop 16 f) in
          if crc32 body \<noteq> hdr_crc f then Inl StCrcMismatch
          else let plain =
            (if hdr_flags f AND flagEncrypt \<noteq> 0 then
               (case ks_aead (ke_store e) of
                  None \<Rightarrow> Inl StNoKey
                | Some a \<Rightarrow>
                    if length body < 12 then Inl StBadNonce
                    else (case aopen a (take 12 body) (drop 12 body) of
                            None \<Rightarrow> Inl StAuth | Some p \<Rightarrow> Inr p))
             else Inr body)
          in (case plain of
                Inl x \<Rightarrow> Inl x
              | Inr p \<Rightarrow> (case unmarshal (ke_json e) p of None \<Rightarrow> Inl StJson | Some v \<Rightarrow> Inr v)))"

definition SaveKeyShare :: "(nat \<Rightarrow> call_outcome) \<Rightarrow> nat \<Rightarrow> 'v ks_env \<Rightarrow> 'v \<Rightarrow> fs \<Rightarrow> (status \<times> fs) \<times> metric list" where
  "SaveKeyShare \<phi> ms e v m =
     (let (r, m') = run_ops \<phi> (ks_writeAtomic e (ks_path (ke_store e)) v) m in
      ((r, m'),
       case r of
         Errored \<Rightarrow> [Inc ''tss_persist_errors_total'' []]
       | Completed \<Rightarrow> [ObserveSummary ''tss_persist_ms'' [] ms]
       | Crashed \<Rightarrow> []))"

definition LoadKeyShare :: "'v ks_env \<Rightarrow> fs \<Rightarrow> 'v option \<times> metric list" where
  "LoadKeyShare e m =
     (let p = ks_path (ke_store e) in
      case read_at (ks_readFile e) p m of
        Some v \<Rightarrow> (Some v, [Inc ''tss_recovery_total'' [(''result'', ''ok'')]])
      | None \<Rightarrow>
          (case read_at (ks_readFile e) (p @ ''.bak'') m of
             Some v \<Rightarrow> (Some v, [Inc ''tss_recovery_total'' [(''result'', ''fallback'')]])
           | None \<Rightarrow> (None, [Inc ''tss_recovery_total'' [(''result'', ''fail'')]])))"

lemma fst_LoadKeyShare: "fst (LoadKeyShare e m) = load_at (ks_readFile e) (ks_path (ke_store e)) m"
  by (auto simp: LoadKeyShare_def load_at_def Let_def split: option.splits)

text \<open>
  What the key store relies on: the codec and the AEAD invert themselves, the nonce has
  twelve bytes, and the stored body is not empty and fits the length field.
\<close>

definition ks_faithful :: "'v ks_env \<Rightarrow> 'v \<Rightarrow> bool" where
  "ks_faithful e v \<longleftrightarrow>
     (\<forall>b. marshal (ke_json e) v = Some b \<longrightarrow> unmarshal (ke_json e) b = Some v)
     \<and> (\<forall>a. ks_aead (ke_store e) = Some a \<longrightarrow> aead_ok a)
     \<and> (\<forall>n. ke_nonce e = Some n \<longrightarrow> length n = 12)
     \<and> (marshal (ke_json e) v \<noteq> None \<longrightarrow> (sealing (ke_store e) \<noteq> None \<longrightarrow> ke_nonce e \<noteq> None) \<longrightarrow>
          0 < length (ks_body e v) \<and> length (ks_body e v) < 2 ^ 32)"

lemma ks_readFile_plain:
  assumes len: "0 < length body" "length body < 2 ^ 32" and plain: "sealing (ke_store e) = None"
  shows "ks_readFile e (frame_header magicTSS version_tss (ks_flags (ke_store e)) body @ body) =
    (case unmarshal (ke_json e) body of None \<Rightarrow> Inl StJson | Some v \<Rightarrow> Inr v)"
proof -
  have "unat (of_nat (length body) :: u32) = length body" using len(2) by (simp add: unat_of_nat)
  moreover have "(of_nat (length body) :: u32) \<noteq> 0" using len calculation by (metis less_irrefl unsigned_0)
  ultimately show ?thesis using plain by (simp add: ks_readFile_def ks_flags_def Let_def)
qed

lemma ks_readFile_sealed:
  assumes len: "length body < 2 ^ 32" and body: "body = n @ seal a n p" "length n = 12"
    and ok: "aead_ok a" and enc: "sealing (ke_store e) = Some a"
  shows "ks_readFile e (frame_header magicTSS version_tss (ks_flags (ke_store e)) body @ body) =
    (case unmarshal (ke_json e) p of None \<Rightarrow> Inl StJson | Some v \<Rightarrow> Inr v)"
proof -
  have l: "unat (of_nat (length body) :: u32) = length body" using len by (simp add: unat_of_nat)
  have nz: "(of_nat (length body) :: u32) \<noteq> 0"
  proof
    assume "(of_nat (length body) :: u32) = 0"
    with l have "length body = 0" by (metis unsigned_0)
    with body show False by simp
  qed
  have "ks_aead (ke_store e) = Some a" using enc by (simp add: sealing_def split: if_splits)
  with l nz enc show ?thesis
    using body ok by (simp add: ks_readFile_def ks_flags_def flagEncrypt_def aead_ok_def Let_def)
qed

lemma ks_prep_writes:
  assumes good: "ks_faithful e v" and run: "run_ops \<phi> (ks_prep e p v) m = (Completed, m')"
  shows "\<exists>f. m' (tmp_of p) = Some f \<and> ks_readFile e f = Inr v"
proof -
  let ?f = "frame_header magicTSS version_tss (ks_flags (ke_store e)) (ks_body e v) @ ks_body e v"
  have ok: "marshal (ke_json e) v \<noteq> None" "sealing (ke_store e) \<noteq> None \<longrightarrow> ke_nonce e \<noteq> None"
    and tmp: "m' (tmp_of p) = Some ?f"
    using run by (auto simp: ks_prep_def split: call_outcome.splits if_splits)
  then have len: "0 < length (ks_body e v)" "length (ks_body e v) < 2 ^ 32"
    using good by (auto simp: ks_faithful_def)
  have dec: "unmarshal (ke_json e) (body_of (ke_json e) v) = Some v"
    using good ok(1) by (auto simp: ks_faithful_def body_of_def)
  have "ks_readFile e ?f = Inr v"
  proof (cases "sealing (ke_store e)")
    case None
    with len dec show ?thesis by (simp add: ks_readFile_plain) (simp add: ks_body_def)
  next
    case (Some a)
    with ok(2) obtain n where n: "ke_nonce e = Some n" by auto
    have a: "aead_ok a"
      using Some good by (auto simp: ks_faithful_def sealing_def split: if_splits)
    have "length n = 12" using n good by (simp add: ks_faithful_def)
    moreover have "ks_body e v = n @ seal a n (body_of (ke_json e) v)"
      using Some n by (simp add: ks_body_def)
    ultimately show ?thesis
      using ks_readFile_sealed [OF len(2) _ _ a Some] dec by simp
  qed
  with tmp show ?thesis by blast
qed

interpretation keystore: file_store ks_prep "[SyncDir]" ks_readFile ks_faithful
  by unfold_locales (auto simp: ks_prep_def intro: ks_prep_writes)

lemma SaveKeyShare_run:
  "fst (SaveKeyShare \<phi> ms e v m) =
     run_ops \<phi> (ks_prep e (ks_path (ke_store e)) v @ replace_ops (ks_path (ke_store e)) @ [SyncDir]) m"
  by (simp add: SaveKeyShare_def ks_writeAtomic_def split: prod.splits)

section \<open>Properties\<close>

text \<open>
  C20: saving a key share is atomic with and without encryption: a completed save loads
  back, a failed one (marshalling, randomness, any file-system call) leaves the previous
  share, and a crash leaves the previous or the new one; the main file never becomes
  unreadable.
\<close>

theorem keystore_crash_safe:
  assumes "main_ok (ks_readFile e) (ks_path (ke_store e)) m" and "ks_faithful e v"
    and "SaveKeyShare \<phi> ms e v m = ((r, m'), ev)"
  shows "main_ok (ks_readFile e) (ks_path (ke_store e)) m'
    \<and> (case r of
         Completed \<Rightarrow> fst (LoadKeyShare e m') = Some v
       | Errored \<Rightarrow> fst (LoadKeyShare e m') = fst (LoadKeyShare e m)
       | Crashed \<Rightarrow> fst (LoadKeyShare e m') \<in> {fst (LoadKeyShare e m), Some v})"
proof -
  have run: "run_ops \<phi> (ks_prep e (ks_path (ke_store e)) v @ replace_ops (ks_path (ke_store e)) @ [SyncDir]) m
      = (r, m')"
    using assms(3) SaveKeyShare_run [of \<phi> ms e v m] by simp
  show ?thesis
    using keystore.write_outcome [OF assms(1,2) run]
    by (cases r) (simp_all add: fst_LoadKeyShare)
qed

text \<open>
  a key store requested with encryption but without a usable key (unset, malformed or
  not 32 bytes) is a plaintext store: the share is written unencrypted with flag 0, and
  with a usable key the written body is the sealed one.
\<close>

theorem keystore_env_encryption:
  assumes "env ''AEQUA_TSS_KEYSTORE_ENCRYPT'' = ''1''"
  shows "sealing (NewKeyStoreFromEnv aes env rd path) =
      (if length (env_key env rd) = 32 then aes (env_key env rd) else None)
    \<and> (length (env_key env rd) \<noteq> 32 \<longrightarrow>
        ks_body \<lparr>ke_store = NewKeyStoreFromEnv aes env rd path, ke_json = J, ke_nonce = n\<rparr> v = body_of J v)"
  using assms
  by (auto simp: NewKeyStoreFromEnv_def NewKeyStoreEncrypted_def NewKeyStore_def sealing_def
      ks_body_def Let_def split: option.splits)

text \<open>A concrete codec and cipher for the examples: bytes stored as they are, masked by the nonce.\<close>

definition demo_json :: "bytes json" where
  "demo_json = \<lparr>marshal = (\<lambda>v. if v = [] then None else Some v), unmarshal = Some\<rparr>"

definition demo_aead :: aead where
  "demo_aead = \<lparr>seal = (\<lambda>n p. map (\<lambda>b. b XOR hd (n @ [0])) p),
     aopen = (\<lambda>n c. Some (map (\<lambda>b. b XOR hd (n @ [0])) c))\<rparr>"

definition demo_env :: "bytes ks_env" where
  "demo_env = \<lparr>ke_store = NewKeyStoreEncrypted (\<lambda>_. Some demo_aead) ''k'' (replicate 32 7) True,
     ke_json = demo_json, ke_nonce = Some (replicate 12 9)\<rparr>"

lemma demo_env_simps [simp]:
  "ks_path (ke_store demo_env) = ''k''" "ks_aead (ke_store demo_env) = Some demo_aead"
  "ks_encrypt (ke_store demo_env)" "ke_json demo_env = demo_json"
  "ke_nonce demo_env = Some (replicate 12 9)" "sealing (ke_store demo_env) = Some demo_aead"
  by (simp_all add: demo_env_def NewKeyStoreEncrypted_def NewKeyStore_def sealing_def)

lemma demo_aead_ok: "aead_ok demo_aead"
  by (simp add: aead_ok_def demo_aead_def comp_def xor.assoc)

lemma demo_faithful: "ks_faithful demo_env [1, 2, 3]"
  by (simp add: ks_faithful_def demo_aead_ok demo_json_def ks_body_def body_of_def) (simp add: demo_aead_def)

theorem keystore_crash_safe_witness:
  "\<exists>m' ev. SaveKeyShare (\<lambda>_. Carried) 1 demo_env [1, 2, 3] Map.empty = ((Completed, m'), ev)
     \<and> fst (LoadKeyShare demo_env m') = Some [1, 2, 3]"
proof -
  obtain r m' ev where run: "SaveKeyShare (\<lambda>_. Carried) 1 demo_env [1, 2, 3] Map.empty = ((r, m'), ev)"
    by (metis surj_pair)
  have "main_ok (ks_readFile demo_env) ''k'' Map.empty" by (simp add: main_ok_def)
  moreover have "r = Completed"
    using run SaveKeyShare_run [of "\<lambda>_. Carried" 1 demo_env "[1, 2, 3]" Map.empty]
    by (simp add: ks_prep_def replace_ops_def demo_json_def)
  ultimately show ?thesis
    using keystore_crash_safe [OF _ demo_faithful run] run by simp
qed

theorem keystore_env_encryption_witness:
  "sealing (NewKeyStoreFromEnv (\<lambda>_. Some demo_aead)
      (\<lambda>k. if k = ''AEQUA_TSS_KEYSTORE_ENCRYPT'' then ''1''
           else if k = ''AEQUA_TSS_KEYSTORE_KEY'' then ''0g'' else []) (\<lambda>_. None) ''k'') = None"
  using keystore_env_encryption [where J = demo_json and n = None and v = "[]" and path = "''k''"
      and rd = "\<lambda>_. None" and aes = "\<lambda>_. Some demo_aead"
      and env = "\<lambda>k. if k = ''AEQUA_TSS_KEYSTORE_ENCRYPT'' then ''1''
           else if k = ''AEQUA_TSS_KEYSTORE_KEY'' then ''0g'' else []"]
  by (simp add: env_key_def hex_digit_def)

end
