(* ===== verification/Qbft_WAL.thy ===== *)
theory Qbft_WAL
  imports Qbft_Message Tss_Stores
begin

text \<open>
  \<^verbatim>\<open>internal/consensus/qbft/wal.go\<close>: the append-only log of vote intents, one JSON line each.
  \<^verbatim>\<open>encoding/json\<close> on the entry struct is the argument \<open>J\<close>; \<^verbatim>\<open>bufio.Scanner\<close> is modelled: lines
  end with byte 10, a trailing byte 13 is dropped, and a line that fills the 64 KiB buffer
  ends the scan. The final \<^verbatim>\<open>Close\<close> changes nothing and its error is ignored.
\<close>

section \<open>Entries and appending\<close>

record walEntry =
  we_Type :: qtype
  we_Height :: u64
  we_Round :: u64
  we_ID :: string
  we_From :: string

definition entry_of :: "Message \<Rightarrow> walEntry" where
  "entry_of m = \<lparr>we_Type = m_Type m, we_Height = m_Height m, we_Round = m_Round m, we_ID = m_ID m, we_From = m_From m\<rparr>"

definition entry_msg :: "walEntry \<Rightarrow> Message" where
  "entry_msg e = zero_Message\<lparr>m_Type := we_Type e, m_Height := we_Height e, m_Round := we_Round e,
     m_ID := we_ID e, m_From := we_From e\<rparr>"

definition wal_ops :: "walEntry json \<Rightarrow> string \<Rightarrow> Message \<Rightarrow> fop list" where
  "wal_ops J path msg =
     [MkdirAll, OpenAppend path, WriteTo path (body_of J (entry_of msg) @ [10]), SyncFile path]"

text \<open>A nil log is \<open>None\<close>.\<close>

definition AppendIntent :: "(nat \<Rightarrow> call_outcome) \<Rightarrow> walEntry json \<Rightarrow> string option \<Rightarrow> Message \<Rightarrow> fs
    \<Rightarrow> (status \<times> fs) \<times> metric list" where
  "AppendIntent \<phi> J w msg m =
     (case w of
        None \<Rightarrow> ((Completed, m), [])
      | Some path \<Rightarrow>
          if \<not> is_vote msg then ((Completed, m), [])
          else let (r, m') = run_ops \<phi> (wal_ops J path msg) m
               in ((r, m'), if r = Completed then [Inc ''qbft_wal_appends_total'' []] else []))"

section \<open>Recovery\<close>

definition scan_pieces :: "bytes \<Rightarrow> bytes list" where
  "scan_pieces f = (let ps = split_on 10 f in if last ps = [] then butlast ps else ps)"

definition strip_cr :: "bytes \<Rightarrow> bytes" where
  "strip_cr l = (if l \<noteq> [] \<and> last l = 13 then butlast l else l)"

definition scan_lines :: "bytes \<Rightarrow> bytes list" where
  "scan_lines f = map strip_cr (takeWhile (\<lambda>l. length l < 65536) (scan_pieces f))"

text \<open>The loop of \<^verbatim>\<open>LastIntent\<close>: the last line that decodes.\<close>

definition last_entry :: "walEntry json \<Rightarrow> bytes list \<Rightarrow> Message" where
  "last_entry J ls =
     foldl (\<lambda>acc l. case unmarshal J l of None \<Rightarrow> acc | Some e \<Rightarrow> entry_msg e) zero_Message ls"

datatype wal_error = WalNil | WalOpen | WalEmpty

definition LastIntent :: "walEntry json \<Rightarrow> string option \<Rightarrow> fs \<Rightarrow> (wal_error + Message) \<times> metric list" where
  "LastIntent J w m =
     (case w of
        None \<Rightarrow> (Inl WalNil, [])
      | Some path \<Rightarrow>
          (case m path of
             None \<Rightarrow> (Inl WalOpen, [])
           | Some f \<Rightarrow>
               let msg = last_entry J (scan_lines f) in
               if m_Type msg = MsgOther [] then (Inl WalEmpty, [])
               else (Inr msg, [Inc ''qbft_wal_recover_total'' [(''result'', ''ok'')]])))"

section \<open>Logs of whole lines\<close>

definition of_lines :: "bytes list \<Rightarrow> bytes" where
  "of_lines ls = concat (map (\<lambda>l. l @ [10]) ls)"

definition short_line :: "bytes \<Rightarrow> bool" where
  "short_line l \<longleftrightarrow> 10 \<notin> set l \<and> length l < 65536"

lemma of_lines_simps [simp]:
  "of_lines [] = []" "of_lines (l # ls) = l @ 10 # of_lines ls" "of_lines (ls @ [l]) = of_lines ls @ l @ [10]"
  by (simp_all add: of_lines_def)

lemma split_on_lines: "\<forall>l \<in> set ls. short_line l \<Longrightarrow> split_on 10 (of_lines ls) = ls @ [[]]"
  by (induction ls) (auto simp: short_line_def split_on_join)

lemma scan_of_lines: "\<forall>l \<in> set ls. short_line l \<Longrightarrow> scan_lines (of_lines ls) = map strip_cr ls"
proof -
  assume short: "\<forall>l \<in> set ls. short_line l"
  then have "scan_pieces (of_lines ls) = ls" by (simp add: scan_pieces_def split_on_lines Let_def)
  moreover have "takeWhile (\<lambda>l. length l < 65536) ls = ls"
    using short by (simp add: takeWhile_eq_all_conv short_line_def)
  ultimately show ?thesis by (simp only: scan_lines_def)
qed

text \<open>
  What the log relies on for an entry: the encoding is one line that fits the scanner,
  does not end in byte 13, and decodes to the entry.
\<close>

definition wal_codec_ok :: "walEntry json \<Rightarrow> walEntry \<Rightarrow> bool" where
  "wal_codec_ok J e \<longleftrightarrow> (\<exists>b. marshal J e = Some b \<and> unmarshal J b = Some e \<and> short_line b \<and> (b = [] \<or> last b \<noteq> 13))"

lemma wal_codec_line:
  assumes "wal_codec_ok J e"
  shows "short_line (body_of J e)" and "strip_cr (body_of J e) = body_of J e" and "unmarshal J (body_of J e) = Some e"
  using assms by (auto simp: wal_codec_ok_def body_of_def strip_cr_def)

lemma last_entry_snoc:
  "unmarshal J l = Some e \<Longrightarrow> last_entry J (ls @ [l]) = entry_msg e"
  by (simp add: last_entry_def)

text \<open>The log holds whole lines only.\<close>

definition whole :: "string \<Rightarrow> fs \<Rightarrow> bool" where
  "whole path m \<longleftrightarrow> (\<exists>ls. getz [] m path = of_lines ls \<and> (\<forall>l \<in> set ls. short_line l))"

lemma append_completed:
  assumes "whole path m" and "is_vote msg" and "wal_codec_ok J (entry_of msg)"
    and "AppendIntent \<phi> J (Some path) msg m = ((Completed, m'), ev)"
  shows "whole path m'" and "fst (LastIntent J (Some path) m') = Inr (entry_msg (entry_of msg))"
proof -
  from assms(1) obtain ls where ls: "getz [] m path = of_lines ls" "\<forall>l \<in> set ls. short_line l"
    by (auto simp: whole_def)
  let ?b = "body_of J (entry_of msg)"
  note line = wal_codec_line [OF assms(3)]
  have run: "run_ops \<phi> (wal_ops J path msg) m = (Completed, m')"
    using assms(2,4) by (auto simp: AppendIntent_def split: prod.splits)
  then have stored: "m' path = Some (of_lines (ls @ [?b]))"
    using ls(1) by (auto simp: wal_ops_def split: call_outcome.splits)
  have short: "\<forall>l \<in> set (ls @ [?b]). short_line l" using ls(2) line(1) by simp
  then show "whole path m'" using stored unfolding whole_def getz_def by (metis option.simps(5))
  have "m_Type (entry_msg (entry_of msg)) = m_Type msg" by (simp add: entry_msg_def entry_of_def)
  moreover have "m_Type msg \<noteq> MsgOther []" using assms(2) by (auto simp: is_vote_def)
  moreover have "last_entry J (scan_lines (of_lines (ls @ [?b]))) = entry_msg (entry_of msg)"
    unfolding scan_of_lines [OF short] using last_entry_snoc [OF line(3)] line(2) by simp
  ultimately show "fst (LastIntent J (Some path) m') = Inr (entry_msg (entry_of msg))"
    by (simp add: LastIntent_def stored)
qed

section \<open>Properties\<close>


text \<open>
  a crash in the middle of an append leaves a torn line without a newline; the next
  append completes without an error but is glued to it, so when the glued line does not
  decode, recovery returns the vote before the crash and not the last one logged.
\<close>

theorem wal_torn_append_lost:
  assumes "m path = Some (of_lines ls @ torn)" and "\<forall>l \<in> set ls. short_line l" and "10 \<notin> set torn"
    and "is_vote msg" and "short_line (torn @ body_of J (entry_of msg))"
    and "unmarshal J (strip_cr (torn @ body_of J (entry_of msg))) = None"
    and "AppendIntent (\<lambda>_. Carried) J (Some path) msg m = ((r, m'), ev)"
  shows "r = Completed \<and> last_entry J (scan_lines (the (m' path))) = last_entry J (map strip_cr ls)"
proof -
  let ?b = "body_of J (entry_of msg)"
  have run: "run_ops (\<lambda>_. Carried) (wal_ops J path msg) m = (r, m')"
    using assms(4,7) by (auto simp: AppendIntent_def split: prod.splits)
  then have "r = Completed" "m' path = Some (of_lines (ls @ [torn @ ?b]))"
    using assms(1) by (auto simp: wal_ops_def getz_def)
  moreover have "\<forall>l \<in> set (ls @ [torn @ ?b]). short_line l" using assms(2,5) by simp
  from scan_of_lines [OF this] have "last_entry J (scan_lines (of_lines (ls @ [torn @ ?b]))) = last_entry J (map strip_cr ls)"
    using assms(6) by (simp only: last_entry_def map_append list.map foldl_append) simp
  ultimately show ?thesis by (simp only: option.sel simp_thms)
qed

text \<open>A codec that knows the two votes of the examples.\<close>

definition demo_wal_json :: "walEntry json" where
  "demo_wal_json = \<lparr>marshal = (\<lambda>e. if e = entry_of (mk_msg MsgPrepare ''A'' 1 1 ''blk'') then Some [1]
       else if e = entry_of (mk_msg MsgCommit ''A'' 1 1 ''blk'') then Some [2] else None),
     unmarshal = (\<lambda>b. if b = [1] then Some (entry_of (mk_msg MsgPrepare ''A'' 1 1 ''blk''))
       else if b = [2] then Some (entry_of (mk_msg MsgCommit ''A'' 1 1 ''blk'')) else None)\<rparr>"

lemma demo_wal_ok:
  "wal_codec_ok demo_wal_json (entry_of (mk_msg MsgPrepare ''A'' 1 1 ''blk''))"
  "wal_codec_ok demo_wal_json (entry_of (mk_msg MsgCommit ''A'' 1 1 ''blk''))"
  by (simp_all add: wal_codec_ok_def demo_wal_json_def short_line_def entry_of_def)

lemma demo_wal_decode:
  "unmarshal demo_wal_json [2, 2] = None"
  "unmarshal demo_wal_json [1] = Some (entry_of (mk_msg MsgPrepare ''A'' 1 1 ''blk''))"
  by (simp_all add: demo_wal_json_def)


theorem wal_torn_append_lost_witness:
  "let m = [''w'' \<mapsto> of_lines [[1]] @ [2]];
       m' = snd (fst (AppendIntent (\<lambda>_. Carried) demo_wal_json (Some ''w'') (mk_msg MsgCommit ''A'' 1 1 ''blk'') m))
   in last_entry demo_wal_json (scan_lines (the (m' ''w''))) = entry_msg (entry_of (mk_msg MsgPrepare ''A'' 1 1 ''blk''))"
proof -
  let ?m = "[''w'' \<mapsto> of_lines [[1]] @ [2]]" and ?msg = "mk_msg MsgCommit ''A'' 1 1 ''blk''"
  obtain r m' ev where run: "AppendIntent (\<lambda>_. Carried) demo_wal_json (Some ''w'') ?msg ?m = ((r, m'), ev)"
    by (metis surj_pair)
  have b: "body_of demo_wal_json (entry_of ?msg) = [2]"
    by (simp add: body_of_def demo_wal_json_def) (simp add: entry_of_def)
  have "?m ''w'' = Some (of_lines [[1]] @ [2])" by simp
  from wal_torn_append_lost [OF this _ _ _ _ _ run]
  have "last_entry demo_wal_json (scan_lines (the (m' ''w''))) = last_entry demo_wal_json (map strip_cr [[1]])"
    by (simp add: b is_vote_def short_line_def strip_cr_def demo_wal_decode)
  also have "\<dots> = entry_msg (entry_of (mk_msg MsgPrepare ''A'' 1 1 ''blk''))"
    by (simp add: last_entry_def strip_cr_def demo_wal_decode)
  finally show ?thesis using run by simp
qed

end
