(* ===== verification/State_Store.thy ===== *)
theory State_Store
  imports Atomic_File
begin

text \<open>
  \<^verbatim>\<open>internal/state\<close>: the last consensus coordinates, kept in memory (\<^verbatim>\<open>db.go\<close>) or in a file
  (\<^verbatim>\<open>file_store.go\<close>). The Go interface \<^verbatim>\<open>Store\<close> is the locale \<open>last_state_store\<close>, and both
  implementations interpret it.
\<close>

section \<open>The interface\<close>

record LastState =
  ls_Height :: u64
  ls_Round :: u64

text \<open>The zero value \<^verbatim>\<open>LastState{}\<close>.\<close>

definition zero_LastState :: LastState where
  "zero_LastState = \<lparr>ls_Height = 0, ls_Round = 0\<rparr>"

text \<open>
  A history of saves with their outcomes, and the values a load may return after it: a
  completed save fixes the value, a failed one changes nothing, a crashed one may or may
  not have taken effect.
\<close>

fun save_run :: "('e \<Rightarrow> LastState \<Rightarrow> 'm \<Rightarrow> status \<times> 'm) \<Rightarrow> ('e \<times> LastState) list \<Rightarrow> 'm
    \<Rightarrow> (status \<times> LastState) list \<times> 'm" where
  "save_run save [] m = ([], m)"
| "save_run save ((e, s) # es) m =
     (let (r, m1) = save e s m; (h, m2) = save_run save es m1 in ((r, s) # h, m2))"

fun possible :: "(status \<times> LastState) list \<Rightarrow> LastState option set \<Rightarrow> LastState option set" where
  "possible [] V = V"
| "possible ((Completed, s) # h) V = possible h {Some s}"
| "possible ((Errored, s) # h) V = possible h V"
| "possible ((Crashed, s) # h) V = possible h (insert (Some s) V)"

lemma possible_mono: "V \<subseteq> W \<Longrightarrow> possible h V \<subseteq> possible h W"
proof (induction h V arbitrary: W rule: possible.induct)
  case (4 s h V)
  then show ?case using "4.IH" [of "insert (Some s) W"] by auto
qed simp_all

lemma possible_some: "None \<notin> V \<Longrightarrow> None \<notin> possible h V"
  by (induction h V rule: possible.induct) simp_all

lemma possible_completed: "(Completed, s) \<in> set h \<Longrightarrow> None \<notin> possible h V"
  by (induction h V rule: possible.induct) (auto simp: possible_some)

locale last_state_store =
  fixes save :: "'e \<Rightarrow> LastState \<Rightarrow> 'm \<Rightarrow> status \<times> 'm"
    and load :: "'m \<Rightarrow> LastState option"
    and inv :: "'m \<Rightarrow> bool"
  assumes save_inv: "inv m \<Longrightarrow> save e s m = (r, m') \<Longrightarrow> inv m'"
    and save_completed: "inv m \<Longrightarrow> save e s m = (Completed, m') \<Longrightarrow> load m' = Some s"
    and save_errored: "inv m \<Longrightarrow> save e s m = (Errored, m') \<Longrightarrow> load m' = load m"
    and save_crashed: "inv m \<Longrightarrow> save e s m = (Crashed, m') \<Longrightarrow> load m' \<in> {load m, Some s}"
begin

lemma run_possible:
  "inv m \<Longrightarrow> save_run save es m = (h, m') \<Longrightarrow> inv m' \<and> load m' \<in> possible h {load m}"
proof (induction es arbitrary: m h)
  case (Cons es1 es)
  obtain e s where [simp]: "es1 = (e, s)" by (cases es1)
  obtain r m1 where one: "save e s m = (r, m1)" by fastforce
  with Cons.prems obtain h1 where rest: "save_run save es m1 = (h1, m')" and h: "h = (r, s) # h1"
    by (auto split: prod.splits)
  have "inv m1" using Cons.prems(1) one by (rule save_inv)
  with Cons.IH rest have IH: "inv m'" "load m' \<in> possible h1 {load m1}" by blast+
  have "possible h1 {load m1} \<subseteq> possible h {load m}"
  proof (cases r)
    case Completed
    with one Cons.prems(1) h show ?thesis by (simp add: save_completed)
  next
    case Errored
    with one Cons.prems(1) h show ?thesis by (simp add: save_errored)
  next
    case Crashed
    with one Cons.prems(1) h show ?thesis
      using save_crashed [of m e s m1] possible_mono [of "{load m1}" "{Some s, load m}" h1] by auto
  qed
  with IH show ?case by blast
qed simp

end

section \<open>The store in memory\<close>

record MemoryStore =
  ms_have :: bool
  ms_last :: LastState

definition NewMemoryStore :: MemoryStore where
  "NewMemoryStore = \<lparr>ms_have = False, ms_last = zero_LastState\<rparr>"

definition mem_SaveLastState :: "unit \<Rightarrow> LastState \<Rightarrow> MemoryStore \<Rightarrow> status \<times> MemoryStore" where
  "mem_SaveLastState _ s m = (Completed, m\<lparr>ms_last := s, ms_have := True\<rparr>)"

definition mem_LoadLastState :: "MemoryStore \<Rightarrow> LastState option" where
  "mem_LoadLastState m = (if \<not> ms_have m then None else Some (ms_last m))"

interpretation mem: last_state_store mem_SaveLastState mem_LoadLastState "\<lambda>_. True"
  by unfold_locales (auto simp: mem_SaveLastState_def mem_LoadLastState_def)

section \<open>The store in a file\<close>

definition state_magic :: u32 where "state_magic = 0x53544442"
definition state_version :: u16 where "state_version = 1"

definition state_payload :: "LastState \<Rightarrow> bytes" where
  "state_payload s = put_be 8 (ls_Height s) @ put_be 8 (ls_Round s)"

definition state_header :: "LastState \<Rightarrow> bytes" where
  "state_header s = frame_header state_magic state_version 0 (state_payload s)"

text \<open>\<^verbatim>\<open>writeFileAtomic\<close>: the calls up to the stat of the main file, and those after the rename.\<close>

definition state_prep :: "unit \<Rightarrow> string \<Rightarrow> LastState \<Rightarrow> fop list" where
  "state_prep _ path s =
     [OpenTrunc (tmp_of path), WriteTo (tmp_of path) (state_header s),
      WriteTo (tmp_of path) (state_payload s), SyncFile (tmp_of path),
      CloseFile (tmp_of path), SyncDir]"

definition writeFileAtomic :: "string \<Rightarrow> LastState \<Rightarrow> fop list" where
  "writeFileAtomic path s = state_prep () path s @ replace_ops path @ [SyncDir]"

datatype read_error = ErrOpen | ErrEOF | ErrBadMagic | ErrBadLength | ErrCrcMismatch

text \<open>\<^verbatim>\<open>readFile\<close> on the contents of an existing file.\<close>

definition decode_state :: "bytes \<Rightarrow> read_error + LastState" where
  "decode_state f =
     (if length f < 16 then Inl ErrEOF
      else if hdr_magic f \<noteq> state_magic then Inl ErrBadMagic
      else if hdr_length f \<noteq> 16 then Inl ErrBadLength
      else if length (drop 16 f) < 16 then Inl ErrEOF
      else let payload = take 16 (drop 16 f) in
        if crc32 payload \<noteq> hdr_crc f then Inl ErrCrcMismatch
        else Inr \<lparr>ls_Height = get_be (take 8 payload), ls_Round = get_be (drop 8 payload)\<rparr>)"

definition readFile :: "string \<Rightarrow> fs \<Rightarrow> read_error + LastState" where
  "readFile path m = (case m path of None \<Rightarrow> Inl ErrOpen | Some f \<Rightarrow> decode_state f)"

text \<open>The store's operations; \<open>ms\<close> is the measured latency.\<close>

definition file_SaveLastState :: "(nat \<Rightarrow> call_outcome) \<Rightarrow> nat \<Rightarrow> string \<Rightarrow> LastState \<Rightarrow> fs
    \<Rightarrow> (status \<times> fs) \<times> metric list" where
  "file_SaveLastState \<phi> ms path s m =
     (let (r, m') = run_ops \<phi> (writeFileAtomic path s) m in
      ((r, m'),
       case r of
         Errored \<Rightarrow> [Inc ''state_persist_errors_total'' []]
       | Completed \<Rightarrow> [ObserveSummary ''state_persist_ms'' [] ms]
       | Crashed \<Rightarrow> []))"

definition file_LoadLastState :: "string \<Rightarrow> fs \<Rightarrow> LastState option \<times> metric list" where
  "file_LoadLastState path m =
     (case readFile path m of
        Inr s \<Rightarrow> (Some s, [Inc ''state_recovery_total'' [(''result'', ''ok'')]])
      | Inl _ \<Rightarrow>
          (case readFile (path @ ''.bak'') m of
             Inr s \<Rightarrow> (Some s, [Inc ''state_recovery_total'' [(''result'', ''fallback'')]])
           | Inl _ \<Rightarrow> (None, [Inc ''state_recovery_total'' [(''result'', ''fail'')]])))"

lemma fst_file_LoadLastState: "fst (file_LoadLastState path m) = load_at decode_state path m"
  by (auto simp: file_LoadLastState_def load_at_def read_at_def readFile_def
      split: option.splits sum.splits)

text \<open>The bytes a completed save leaves in the main file.\<close>

definition state_bytes :: "LastState \<Rightarrow> bytes" where
  "state_bytes s = state_header s @ state_payload s"

lemma length_state [simp]:
  "length (state_header s) = 16" "length (state_payload s) = 16" "length (state_bytes s) = 32"
  by (simp_all add: state_header_def state_payload_def state_bytes_def)

lemma hdr_state_bytes [simp]:
  "hdr_magic (state_header s @ rest) = state_magic"
  "hdr_length (state_header s @ rest) = 16"
  "hdr_crc (state_header s @ rest) = crc32 (state_payload s)"
  by (simp_all add: state_header_def)

lemma decode_state_bytes [simp]: "decode_state (state_bytes s @ junk) = Inr s"
  by (simp add: decode_state_def state_bytes_def Let_def) (simp add: state_payload_def)

section \<open>The file store implements the interface\<close>

interpretation state_file: file_store state_prep "[SyncDir]" "\<lambda>_. decode_state" "\<lambda>_ _. True"
proof unfold_locales
  fix c p s op
  show "op \<in> set (state_prep c p s) \<Longrightarrow> only_on (tmp_of p) op"
    by (auto simp: state_prep_def)
next
  fix c p s \<phi> m m'
  assume "run_ops \<phi> (state_prep c p s) m = (Completed, m')"
  then have "m' (tmp_of p) = Some (state_bytes s)"
    by (auto simp: state_prep_def state_bytes_def split: call_outcome.splits)
  then show "\<exists>f. m' (tmp_of p) = Some f \<and> decode_state f = Inr s"
    using decode_state_bytes [of s "[]"] by simp
qed simp

abbreviation file_save :: "string \<Rightarrow> (nat \<Rightarrow> call_outcome) \<times> nat \<Rightarrow> LastState \<Rightarrow> fs \<Rightarrow> status \<times> fs" where
  "file_save path e s m \<equiv> fst (file_SaveLastState (fst e) (snd e) path s m)"

abbreviation file_load :: "string \<Rightarrow> fs \<Rightarrow> LastState option" where
  "file_load path m \<equiv> fst (file_LoadLastState path m)"

lemma file_save_run:
  "fst (file_SaveLastState \<phi> ms path s m) = run_ops \<phi> (state_prep () path s @ replace_ops path @ [SyncDir]) m"
  by (simp add: file_SaveLastState_def writeFileAtomic_def split: prod.splits)

interpretation fstore: last_state_store "file_save path" "file_load path" "main_ok decode_state path"
  for path
  unfolding file_save_run fst_file_LoadLastState
  using state_file.write_outcome [of path _ _ "()"] by unfold_locales blast+

section \<open>Properties\<close>

text \<open>
  C3: after any history of saves of the file store, whatever file-system calls fail and
  wherever the process dies, \<^verbatim>\<open>LoadLastState\<close> returns a value the history allows: the last
  completed save or one that crashed after it, and never a failed save or a torn write. A
  completed save is never lost.
\<close>

theorem file_store_durable:
  assumes "main_ok decode_state path m"
    and "save_run (file_save path) es m = (h, m')"
  shows "file_load path m' \<in> possible h {file_load path m}
    \<and> ((\<exists>s. (Completed, s) \<in> set h) \<longrightarrow> file_load path m' \<noteq> None)"
proof -
  have "file_load path m' \<in> possible h {file_load path m}"
    using fstore.run_possible [OF assms] by simp
  then show ?thesis using possible_completed by metis
qed

text \<open>
  without faults a save completes over any directory contents, a corrupt main file
  included, and the next load returns exactly the saved coordinates.
\<close>

theorem file_save_load:
  "file_SaveLastState (\<lambda>_. Carried) ms path s m = ((r, m'), ev) \<Longrightarrow>
     r = Completed \<and> file_LoadLastState path m' =
       (Some s, [Inc ''state_recovery_total'' [(''result'', ''ok'')]])"
  using decode_state_bytes [of s "[]"]
  by (cases "m path")
     (auto simp: file_SaveLastState_def writeFileAtomic_def state_prep_def replace_ops_def
       file_LoadLastState_def readFile_def state_bytes_def)

text \<open>
  a file with one changed byte never loads as other coordinates: the change is
  detected, except in the version and reserved fields, which the reader ignores. A
  truncated file is rejected as well.
\<close>

theorem state_file_corruption:
  assumes "i < 32" and "b \<noteq> state_bytes s ! i"
  shows "decode_state ((state_bytes s)[i := b]) =
      (if i < 4 then Inl ErrBadMagic else if i < 8 then Inr s
       else if i < 12 then Inl ErrBadLength else Inl ErrCrcMismatch)
    \<and> decode_state (take i (state_bytes s)) = Inl ErrEOF"
proof -
  let ?f = "state_bytes s" and ?g = "(state_bytes s)[i := b]"
  have ok: "hdr_magic ?f = state_magic" "hdr_length ?f = 16" "hdr_crc ?f = crc32 (state_payload s)"
    "take 16 (drop 16 ?f) = state_payload s"
    by (simp_all add: state_bytes_def)
  have seg: "take 16 (drop 16 ?g) = (if i < 16 then state_payload s else (state_payload s)[i - 16 := b])"
    using segment_update_outside [of i 16 16 ?f b] segment_update_inside [of 16 i 16 ?f b]
      assms(1) ok(4) by auto
  have crc: "crc32 ((state_payload s)[i - 16 := b]) \<noteq> crc32 (state_payload s)" if "16 \<le> i"
    using that assms by (intro crc32_detects) (simp_all add: state_bytes_def nth_append)
  have dec: "decode_state ?f = Inr s" using decode_state_bytes [of s "[]"] by simp
  have "decode_state ?g = (if i < 4 then Inl ErrBadMagic else if i < 8 then Inr s
       else if i < 12 then Inl ErrBadLength else Inl ErrCrcMismatch)"
    using hdr_update_inside [of ?f b i] assms(2) ok seg crc dec
    by (simp add: decode_state_def Let_def) (metis not_le)
  moreover have "decode_state (take i ?f) = Inl ErrEOF"
    using assms(1) ok by (auto simp: decode_state_def hdr_take)
  ultimately show ?thesis ..
qed

text \<open>
  a save over an unreadable main file that is interrupted before the promotion loses
  the last good copy: the corrupt file replaces the readable backup, and the recovery that
  returned the backup before returns nothing afterwards.
\<close>

theorem corrupt_main_loses_backup:
  assumes "decode_state f = Inl e" and "decode_state g = Inr old"
    and "\<phi> = (\<lambda>i. if i = 7 then Refused 0 else Carried)"
  shows "file_load path [path \<mapsto> f, path @ ''.bak'' \<mapsto> g] = Some old
    \<and> (\<exists>m'. file_save path (\<phi>, ms) s [path \<mapsto> f, path @ ''.bak'' \<mapsto> g] = (Errored, m')
         \<and> file_load path m' = None)"
  using assms
  by (auto simp: file_save_run state_prep_def replace_ops_def file_LoadLastState_def readFile_def)

theorem corrupt_main_loses_backup_witness:
  "\<exists>m'. file_save ''s'' ((\<lambda>i. if i = 7 then Refused 0 else Carried), 0) zero_LastState
      [''s'' \<mapsto> [], ''s'' @ ''.bak'' \<mapsto> state_bytes zero_LastState] = (Errored, m')
    \<and> file_load ''s'' m' = None"
  using corrupt_main_loses_backup [of "[]" ErrEOF "state_bytes zero_LastState" zero_LastState _ "''s''" 0 zero_LastState]
    decode_state_bytes [of zero_LastState "[]"]
  by (simp add: decode_state_def)

theorem state_file_corruption_witness:
  "decode_state ((state_bytes zero_LastState)[20 := 1]) = Inl ErrCrcMismatch"
proof -
  have "state_bytes zero_LastState ! 20 = 0"
    by (simp add: state_bytes_def state_payload_def zero_LastState_def nth_append put_be_def)
  then show ?thesis using state_file_corruption [of 20 1 zero_LastState] by simp
qed

theorem file_save_load_witness:
  "\<exists>r m' ev. file_SaveLastState (\<lambda>_. Carried) 3 ''s'' zero_LastState [''s'' \<mapsto> [1]] = ((r, m'), ev)
    \<and> r = Completed \<and> file_load ''s'' m' = Some zero_LastState"
proof -
  obtain r m' ev where run: "file_SaveLastState (\<lambda>_. Carried) 3 ''s'' zero_LastState [''s'' \<mapsto> [1]] = ((r, m'), ev)"
    by (metis surj_pair)
  with file_save_load [OF run] show ?thesis by simp
qed

theorem file_store_durable_witness:
  "\<exists>h m'. save_run (file_save ''s'')
       [((\<lambda>_. Carried, 0), zero_LastState),
        ((\<lambda>i. if i = 7 then Killed 0 else Carried, 0), \<lparr>ls_Height = 1, ls_Round = 0\<rparr>)] Map.empty = (h, m')
     \<and> map fst h = [Completed, Crashed] \<and> file_load ''s'' m' \<noteq> None"
proof -
  obtain h m' where run: "save_run (file_save ''s'')
       [((\<lambda>_. Carried, 0), zero_LastState),
        ((\<lambda>i. if i = 7 then Killed 0 else Carried, 0), \<lparr>ls_Height = 1, ls_Round = 0\<rparr>)] Map.empty = (h, m')"
    by fastforce
  then have "h = [(Completed, zero_LastState), (Crashed, \<lparr>ls_Height = 1, ls_Round = 0\<rparr>)]"
    by (auto simp: file_save_run state_prep_def replace_ops_def)
  moreover have "main_ok decode_state ''s'' Map.empty" by (simp add: main_ok_def)
  ultimately show ?thesis using file_store_durable [OF _ run] run by auto
qed

end
