(* ===== verification/Nonce_Pool.thy ===== *)
theory Nonce_Pool
  imports Payloads
begin

text \<open>
  The pending/future pool that \<^verbatim>\<open>plaintext_v1/pool.go\<close> and \<^verbatim>\<open>auction_bid_v1/pool.go\<close> both
  implement (the two files differ in the transaction type only): per sender the expected
  nonce, the ready transactions in nonce order and the future ones by nonce. The pool's
  mutex makes every operation one step.
\<close>

section \<open>State and operations\<close>

record 'tx nonce_pool =
  np_expect :: "string \<rightharpoonup> u64"
  np_pend :: "string \<rightharpoonup> 'tx list"
  np_future :: "string \<rightharpoonup> (u64 \<rightharpoonup> 'tx)"

definition new_nonce_pool :: "'tx nonce_pool" where
  "new_nonce_pool = \<lparr>np_expect = Map.empty, np_pend = Map.empty, np_future = Map.empty\<rparr>"

text \<open>
  The promotion loop of \<^verbatim>\<open>Add\<close>. It ends because every turn deletes one of the finitely
  many keys a map over 64-bit words can have.
\<close>

lemma finite_dom_word: "finite (dom (m :: 'a::len word \<rightharpoonup> 'b))"
  by (rule finite_subset [OF subset_UNIV]) simp

function promote :: "u64 \<Rightarrow> (u64 \<rightharpoonup> 'tx) \<Rightarrow> 'tx list \<Rightarrow> u64 \<times> (u64 \<rightharpoonup> 'tx) \<times> 'tx list" where
  "promote nx futs pend =
     (case futs nx of
        None \<Rightarrow> (nx, futs, pend)
      | Some tx \<Rightarrow> promote (nx + 1) (futs(nx := None)) (pend @ [tx]))"
  by pat_completeness auto
termination
proof (relation "measure (\<lambda>(nx, futs, pend). card (dom futs))")
  fix nx :: u64 and futs :: "u64 \<rightharpoonup> 'tx" and pend tx
  assume "futs nx = Some tx"
  then have "card (dom futs - {nx}) < card (dom futs)"
    by (intro card_Diff1_less finite_dom_word) auto
  then show "((nx + 1, futs(nx := None), pend @ [tx]), nx, futs, pend)
      \<in> measure (\<lambda>(nx, futs, pend). card (dom futs))"
    by simp
qed simp

declare promote.simps [simp del]

definition mempool_in :: "string \<Rightarrow> metric" where
  "mempool_in r = Inc ''mempool_in_total'' [(''result'', r)]"

definition nonce_add :: "string \<Rightarrow> u64 \<Rightarrow> 'tx \<Rightarrow> 'tx nonce_pool \<Rightarrow> (string + unit) \<times> 'tx nonce_pool \<times> metric list" where
  "nonce_add f n tx p =
     (let exp = getz 0 (np_expect p) f; futs = getz Map.empty (np_future p) f in
      if n < exp then (Inl ''old nonce'', p, [mempool_in ''old''])
      else if n = exp then
        (let (nx, futs', pend) = promote (exp + 1) futs (getz [] (np_pend p) f @ [tx]) in
         (Inr (),
          p\<lparr>np_expect := (np_expect p)(f \<mapsto> nx), np_pend := (np_pend p)(f \<mapsto> pend),
            np_future := (case np_future p f of None \<Rightarrow> np_future p
                          | Some _ \<Rightarrow> (np_future p)(f \<mapsto> futs'))\<rparr>,
          [mempool_in ''ok'', AddGauge ''mempool_size'' [] 1]))
      else if futs n \<noteq> None then (Inl ''duplicate future'', p, [mempool_in ''dup''])
      else (Inr (), p\<lparr>np_future := (np_future p)(f \<mapsto> futs(n \<mapsto> tx))\<rparr>, [mempool_in ''future'']))"

text \<open>\<^verbatim>\<open>Get\<close>: \<open>ks\<close> is the order in which the map of pending lists is visited.\<close>

definition nonce_get :: "('tx \<Rightarrow> u64) \<Rightarrow> string list \<Rightarrow> int \<Rightarrow> 'tx nonce_pool \<Rightarrow> 'tx list" where
  "nonce_get key ks n p =
     (let buf = slice_stable (\<lambda>a b. key b < key a) (flatten (np_pend p) ks) in
      if 0 < n \<and> n < int (length buf) then take (nat n) buf else buf)"

definition nonce_len :: "string list \<Rightarrow> 'tx nonce_pool \<Rightarrow> nat" where
  "nonce_len ks p = sum_list (map (\<lambda>k. length (getz [] (np_pend p) k)) ks)"

section \<open>Invariant\<close>

abbreviation pending :: "'tx nonce_pool \<Rightarrow> string \<Rightarrow> 'tx list" where
  "pending p f \<equiv> getz [] (np_pend p) f"

abbreviation expected :: "'tx nonce_pool \<Rightarrow> string \<Rightarrow> u64" where
  "expected p f \<equiv> getz 0 (np_expect p) f"

abbreviation futures :: "'tx nonce_pool \<Rightarrow> string \<Rightarrow> (u64 \<rightharpoonup> 'tx)" where
  "futures p f \<equiv> getz Map.empty (np_future p) f"

text \<open>\<open>own f n t\<close>: transaction \<open>t\<close> may stand in sender \<open>f\<close>'s lists at nonce \<open>n\<close>.\<close>

definition ready :: "(string \<Rightarrow> u64 \<Rightarrow> 'tx \<Rightarrow> bool) \<Rightarrow> string \<Rightarrow> 'tx list \<Rightarrow> bool" where
  "ready own f l \<longleftrightarrow> (\<forall>i < length l. own f (of_nat i) (l ! i))"

definition np_inv :: "(string \<Rightarrow> u64 \<Rightarrow> 'tx \<Rightarrow> bool) \<Rightarrow> 'tx nonce_pool \<Rightarrow> bool" where
  "np_inv own p \<longleftrightarrow> (\<forall>f. expected p f = of_nat (length (pending p f)) \<and> ready own f (pending p f)
     \<and> (\<forall>n t. futures p f n = Some t \<longrightarrow> expected p f < n \<and> own f n t))"

lemma np_invD:
  assumes "np_inv own p"
  shows "expected p f = of_nat (length (pending p f))" and "ready own f (pending p f)"
    and "futures p f n = Some t \<Longrightarrow> expected p f < n" and "futures p f n = Some t \<Longrightarrow> own f n t"
  using assms unfolding np_inv_def by blast+

lemma ready_snoc: "ready own f l \<Longrightarrow> own f (of_nat (length l)) t \<Longrightarrow> ready own f (l @ [t])"
  by (auto simp: ready_def nth_append less_Suc_eq)

text \<open>What a transaction list and a future map together hold, by nonce.\<close>

definition merged :: "'tx list \<Rightarrow> (u64 \<rightharpoonup> 'tx) \<Rightarrow> (u64 \<rightharpoonup> 'tx)" where
  "merged l futs n = (if unat n < length l then Some (l ! unat n) else futs n)"

lemma merged_promote:
  "length l < 2 ^ 64 \<Longrightarrow> futs (of_nat (length l)) = Some t \<Longrightarrow>
     merged (l @ [t]) (futs(of_nat (length l) := None)) = merged l futs"
proof (rule ext)
  fix n :: u64
  assume l: "length l < 2 ^ 64" and t: "futs (of_nat (length l)) = Some t"
  have u: "unat (of_nat (length l) :: u64) = length l" using l by (simp add: unat_of_nat)
  show "merged (l @ [t]) (futs(of_nat (length l) := None)) n = merged l futs n"
  proof (cases "unat n = length l")
    case True
    then have "n = of_nat (length l)" using u by (simp add: word_unat_eq_iff)
    with t u show ?thesis by (simp add: merged_def)
  next
    case False
    then have "n \<noteq> of_nat (length l)" using u by auto
    with False show ?thesis by (simp add: merged_def nth_append)
  qed
qed

lemma merged_snoc: "unat n = length l \<Longrightarrow> merged (l @ [t]) futs = (merged l futs)(n \<mapsto> t)"
proof (rule ext)
  fix m :: u64
  assume n: "unat n = length l"
  show "merged (l @ [t]) futs m = ((merged l futs)(n \<mapsto> t)) m"
  proof (cases "m = n")
    case False
    then have "unat m \<noteq> length l" using n by (simp add: word_unat_eq_iff)
    with False show ?thesis by (simp add: merged_def nth_append)
  qed (simp add: merged_def n)
qed

lemma next_key: "nx \<le> n \<Longrightarrow> n \<noteq> nx \<Longrightarrow> nx + 1 \<le> n" for nx n :: u64
  by (metis inc_le order_le_neq_trans)

text \<open>The promotion loop: everything the caller relies on.\<close>

lemma promote_spec:
  assumes "promote nx futs l = (nx', futs', l')" and "nx = of_nat (length l)"
    and "ready own f l" and "\<forall>n t. futs n = Some t \<longrightarrow> nx \<le> n \<and> own f n t"
  shows "nx' = of_nat (length l') \<and> ready own f l' \<and> (\<exists>r. l' = l @ r)
    \<and> (\<forall>n t. futs' n = Some t \<longrightarrow> nx' < n \<and> own f n t)"
  using assms
proof (induction nx futs l rule: promote.induct)
  case (1 nx futs l)
  show ?case
  proof (cases "futs nx")
    case None
    with "1.prems"(1) have "nx' = nx" "futs' = futs" "l' = l"
      by (simp_all only: promote.simps [of nx] option.case prod.inject)
    moreover have "nx < n" if "futs n = Some t" for n t
      using that None "1.prems"(4) by (metis option.distinct(1) order_le_imp_less_or_eq)
    ultimately show ?thesis using "1.prems" by auto
  next
    case (Some t)
    have run: "promote (nx + 1) (futs(nx := None)) (l @ [t]) = (nx', futs', l')"
      using "1.prems"(1) Some by (simp add: promote.simps)
    have keys: "\<forall>n u. (futs(nx := None)) n = Some u \<longrightarrow> nx + 1 \<le> n \<and> own f n u"
      using "1.prems"(4) next_key by auto
    have "ready own f (l @ [t])" using "1.prems"(2,3,4) Some by (auto intro: ready_snoc)
    from "1.IH" [OF Some run _ this keys] "1.prems"(2) show ?thesis by auto
  qed
qed

lemma promote_merged:
  assumes "promote nx futs l = (nx', futs', l')" and "nx = of_nat (length l)" and "length l \<le> 2 ^ 64"
    and "\<forall>n t. futs n = Some t \<longrightarrow> nx \<le> n" and "length l = 2 ^ 64 \<longrightarrow> futs = Map.empty"
  shows "merged l' futs' = merged l futs \<and> length l' \<le> 2 ^ 64"
  using assms
proof (induction nx futs l rule: promote.induct)
  case (1 nx futs l)
  show ?case
  proof (cases "futs nx")
    case None
    with "1.prems" show ?thesis by (simp add: promote.simps)
  next
    case (Some t)
    then have len: "length l < 2 ^ 64" using "1.prems"(3,5) by (cases "length l = 2 ^ 64") auto
    have run: "promote (nx + 1) (futs(nx := None)) (l @ [t]) = (nx', futs', l')"
      using "1.prems"(1) Some by (simp add: promote.simps)
    have keys: "\<forall>n u. (futs(nx := None)) n = Some u \<longrightarrow> nx + 1 \<le> n"
      using "1.prems"(4) next_key by auto
    have wrap: "futs(nx := None) = Map.empty" if full: "length (l @ [t]) = 2 ^ 64"
    proof (rule ext)
      fix n :: u64
      have "unat nx = length l" using len "1.prems"(2) by (simp add: unat_of_nat)
      moreover have "unat n < 2 ^ LENGTH(64)" by (rule unsigned_less)
      ultimately have "nx \<le> n \<Longrightarrow> n = nx" using full by (simp add: word_le_nat_alt word_unat_eq_iff)
      with "1.prems"(4) show "(futs(nx := None)) n = None" by (cases "futs n") auto
    qed
    have "merged l' futs' = merged (l @ [t]) (futs(nx := None)) \<and> length l' \<le> 2 ^ 64"
    proof (rule "1.IH" [OF Some run _ _ keys])
      show "nx + 1 = of_nat (length (l @ [t]))" using "1.prems"(2) by simp
      show "length (l @ [t]) \<le> 2 ^ 64" using len by simp
      show "length (l @ [t]) = 2 ^ 64 \<longrightarrow> futs(nx := None) = Map.empty" using wrap by blast
    qed
    with merged_promote [OF len] Some "1.prems"(2) show ?thesis by simp
  qed
qed

lemma full_nonce:
  fixes futs :: "u64 \<rightharpoonup> 'tx"
  assumes "\<forall>m t. futs m = Some t \<longrightarrow> n < m" and "unat n = length l" and "length (l @ [tx]) = 2 ^ 64"
  shows "futs = Map.empty"
proof (rule ext)
  fix m :: u64
  have "unat m < 2 ^ LENGTH(64)" by (rule unsigned_less)
  then have "\<not> n < m" using assms(2,3) by (simp add: word_less_nat_alt)
  with assms(1) show "futs m = None" by (cases "futs m") auto
qed

section \<open>One insertion\<close>

abbreviation add_pool :: "string \<Rightarrow> u64 \<Rightarrow> 'tx \<Rightarrow> 'tx nonce_pool \<Rightarrow> 'tx nonce_pool" where
  "add_pool f n tx p \<equiv> fst (snd (nonce_add f n tx p))"

lemma promote_empty [simp]: "promote nx Map.empty l = (nx, Map.empty, l)"
  by (simp add: promote.simps)

text \<open>Other senders' lists stay as they are.\<close>

lemma nonce_add_others:
  assumes "g \<noteq> f"
  shows "pending (add_pool f n tx p) g = pending p g"
    and "expected (add_pool f n tx p) g = expected p g"
    and "futures (add_pool f n tx p) g = futures p g"
  using assms
  by (simp_all add: nonce_add_def Let_def split: prod.splits option.splits)

lemma nonce_add_ready:
  assumes "n = expected p f" and "promote (n + 1) (futures p f) (pending p f @ [tx]) = (nx, futs, l)"
  shows "fst (nonce_add f n tx p) = Inr ()" and "pending (add_pool f n tx p) f = l"
    and "expected (add_pool f n tx p) f = nx" and "futures (add_pool f n tx p) f = futs"
proof -
  have "np_future p f = None \<Longrightarrow> futs = Map.empty" using assms(2) by (simp add: getz_def)
  then show "futures (add_pool f n tx p) f = futs"
    using assms by (simp add: nonce_add_def getz_def split: option.splits)
qed (use assms in \<open>simp_all add: nonce_add_def\<close>)

lemma nonce_add_future:
  assumes "expected p f < n" and "futures p f n = None"
  shows "fst (nonce_add f n tx p) = Inr ()" and "pending (add_pool f n tx p) f = pending p f"
    and "expected (add_pool f n tx p) f = expected p f"
    and "futures (add_pool f n tx p) f = (futures p f)(n \<mapsto> tx)"
proof -
  have "\<not> n < expected p f" "n \<noteq> expected p f" using assms(1) by auto
  then have "nonce_add f n tx p =
      (Inr (), p\<lparr>np_future := (np_future p)(f \<mapsto> (futures p f)(n \<mapsto> tx))\<rparr>, [mempool_in ''future''])"
    using assms(2) by (simp add: nonce_add_def)
  then show "fst (nonce_add f n tx p) = Inr ()" and "pending (add_pool f n tx p) f = pending p f"
    and "expected (add_pool f n tx p) f = expected p f"
    and "futures (add_pool f n tx p) f = (futures p f)(n \<mapsto> tx)" by simp_all
qed

lemma nonce_add_rejected:
  assumes "n < expected p f \<or> expected p f < n \<and> futures p f n \<noteq> None"
  shows "\<not> is_ok (fst (nonce_add f n tx p))" and "add_pool f n tx p = p"
  using assms by (auto simp: nonce_add_def Let_def is_ok_def)

lemma nonce_add_cases [consumes 0, case_names rejected ready future]:
  obtains "n < expected p f \<or> expected p f < n \<and> futures p f n \<noteq> None"
    | nx futs l where "n = expected p f"
        "promote (n + 1) (futures p f) (pending p f @ [tx]) = (nx, futs, l)"
    | "expected p f < n" "futures p f n = None"
proof -
  consider "n < expected p f" | "n = expected p f" | "expected p f < n" by (rule linorder_cases)
  then show ?thesis
  proof cases
    case 2
    obtain nx futs l where "promote (n + 1) (futures p f) (pending p f @ [tx]) = (nx, futs, l)"
      by (cases "promote (n + 1) (futures p f) (pending p f @ [tx])")
    with 2 that(2) show ?thesis by blast
  qed (use that in blast)+
qed

lemma nonce_add_inv:
  assumes inv: "np_inv own p" and own: "own f n tx"
  shows "np_inv own (add_pool f n tx p)"
proof -
  let ?p = "add_pool f n tx p"
  have others: "expected ?p g = of_nat (length (pending ?p g)) \<and> ready own g (pending ?p g)
      \<and> (\<forall>n t. futures ?p g n = Some t \<longrightarrow> expected ?p g < n \<and> own g n t)" if "g \<noteq> f" for g
    using inv unfolding np_inv_def nonce_add_others [OF that] by blast
  have self: "expected ?p f = of_nat (length (pending ?p f)) \<and> ready own f (pending ?p f)
      \<and> (\<forall>n t. futures ?p f n = Some t \<longrightarrow> expected ?p f < n \<and> own f n t)"
  proof (cases rule: nonce_add_cases [where n = n and p = p and f = f and tx = tx])
    case rejected
    with inv show ?thesis unfolding np_inv_def nonce_add_rejected(2) [OF rejected] by blast
  next
    case future
    have "expected p f < m \<and> own f m t" if "((futures p f)(n \<mapsto> tx)) m = Some t" for m t
      using that own future(1) np_invD(3,4) [OF inv, of f m t] by (cases "m = n") simp_all
    with np_invD(1,2) [OF inv] show ?thesis unfolding nonce_add_future [OF future] by blast
  next
    case (ready nx futs l)
    have "n + 1 = of_nat (length (pending p f @ [tx]))" using inv ready(1) by (simp add: np_inv_def)
    moreover have "ready own f (pending p f @ [tx])"
      using np_invD(1,2) [OF inv, of f] ready(1) own by (intro ready_snoc) simp_all
    moreover have "\<forall>m t. futures p f m = Some t \<longrightarrow> n + 1 \<le> m \<and> own f m t"
      using np_invD(3,4) [OF inv] ready(1) inc_le by blast
    ultimately show ?thesis
      unfolding nonce_add_ready [OF ready] using promote_spec [OF ready(2)] by blast
  qed
  show ?thesis unfolding np_inv_def
  proof
    fix g
    show "expected ?p g = of_nat (length (pending ?p g)) \<and> ready own g (pending ?p g)
      \<and> (\<forall>n t. futures ?p g n = Some t \<longrightarrow> expected ?p g < n \<and> own g n t)"
      using others self by (cases "g = f") blast+
  qed
qed

section \<open>Refinement: one map per sender\<close>

text \<open>The abstract pool: the transaction the pool holds for a sender and a nonce.\<close>

definition held :: "'tx nonce_pool \<Rightarrow> string \<Rightarrow> (u64 \<rightharpoonup> 'tx)" where
  "held p f = merged (pending p f) (futures p f)"

lemma nonce_add_held:
  assumes inv: "np_inv own p" and small: "length (pending p f) < 2 ^ 64"
  shows "held (add_pool f n tx p) g =
      (if g = f \<and> held p f n = None then (held p f)(n \<mapsto> tx) else held p g)"
    and "is_ok (fst (nonce_add f n tx p)) \<longleftrightarrow> held p f n = None"
proof -
  let ?p = "add_pool f n tx p"
  have e: "unat (expected p f) = length (pending p f)"
    using inv small by (simp add: np_inv_def unat_of_nat)
  have main: "held ?p f = (if held p f n = None then (held p f)(n \<mapsto> tx) else held p f)
      \<and> (is_ok (fst (nonce_add f n tx p)) \<longleftrightarrow> held p f n = None)"
  proof (cases rule: nonce_add_cases [where n = n and p = p and f = f and tx = tx])
    case rejected
    then have "held p f n \<noteq> None"
      using e by (auto simp: held_def merged_def word_less_nat_alt)
    with nonce_add_rejected [OF rejected] show ?thesis by auto
  next
    case future
    then have "held p f n = None" "\<not> unat n < length (pending p f)"
      using e by (auto simp: held_def merged_def word_less_nat_alt)
    then show ?thesis
      using nonce_add_future [OF future, of tx] by (auto simp: held_def merged_def is_ok_def)
  next
    case (ready nx futs l)
    have keys: "\<forall>m t. futures p f m = Some t \<longrightarrow> n < m" using np_invD(3) [OF inv] ready(1) by blast
    have none: "held p f n = None"
      using keys e ready(1) by (cases "futures p f n") (auto simp: held_def merged_def)
    have un: "unat n = length (pending p f)" using e ready(1) by simp
    have "merged l futs = merged (pending p f @ [tx]) (futures p f)"
    proof (rule promote_merged [OF ready(2), THEN conjunct1])
      show "n + 1 = of_nat (length (pending p f @ [tx]))" using inv ready(1) by (simp add: np_inv_def)
      show "length (pending p f @ [tx]) \<le> 2 ^ 64" using small by simp
      show "\<forall>m t. futures p f m = Some t \<longrightarrow> n + 1 \<le> m" using keys by (auto intro: inc_le)
      show "length (pending p f @ [tx]) = 2 ^ 64 \<longrightarrow> futures p f = Map.empty"
        using full_nonce [OF keys un] by blast
    qed
    also have "\<dots> = (merged (pending p f) (futures p f))(n \<mapsto> tx)"
      by (rule merged_snoc [OF un])
    finally show ?thesis
      using none nonce_add_ready [OF ready] by (simp add: held_def is_ok_def)
  qed
  then show "is_ok (fst (nonce_add f n tx p)) \<longleftrightarrow> held p f n = None" by blast
  show "held ?p g = (if g = f \<and> held p f n = None then (held p f)(n \<mapsto> tx) else held p g)"
    using main by (cases "g = f") (simp_all add: held_def nonce_add_others)
qed

section \<open>Reading the pool\<close>

lemma promote_prefix: "promote nx futs l = (nx', futs', l') \<Longrightarrow> \<exists>r. l' = l @ r"
proof (induction nx futs l rule: promote.induct)
  case (1 nx futs l)
  show ?case
  proof (cases "futs nx")
    case None
    with "1.prems" show ?thesis by (simp add: promote.simps [of nx])
  next
    case (Some t)
    with "1.prems" have "promote (nx + 1) (futs(nx := None)) (l @ [t]) = (nx', futs', l')"
      by (simp add: promote.simps [of nx])
    from "1.IH" [OF Some this] show ?thesis by auto
  qed
qed

lemma nonce_add_prefix: "\<exists>r. pending (add_pool f n tx p) g = pending p g @ r"
proof (cases "g = f")
  case True
  show ?thesis
  proof (cases rule: nonce_add_cases [where n = n and p = p and f = f and tx = tx])
    case rejected
    then show ?thesis using True by (simp add: nonce_add_rejected(2))
  next
    case (ready nx futs l)
    then show ?thesis using True promote_prefix [OF ready(2)] nonce_add_ready(2) [OF ready] by auto
  next
    case future
    then show ?thesis using True by (simp add: nonce_add_future)
  qed
qed (simp add: nonce_add_others)

abbreviation key_desc :: "('tx \<Rightarrow> u64) \<Rightarrow> 'tx \<Rightarrow> 'tx \<Rightarrow> bool" where
  "key_desc key a b \<equiv> key b < key a"

interpretation by_key: weak_order UNIV "key_desc key" for key
  by unfold_locales auto

lemma nonce_get_all: "nonce_get key ks 0 p = slice_stable (key_desc key) (flatten (np_pend p) ks)"
  by (simp add: nonce_get_def Let_def)

lemma nonce_get_take: "nonce_get key ks n p =
    (if 0 < n then take (nat n) (nonce_get key ks 0 p) else nonce_get key ks 0 p)"
  by (auto simp: nonce_get_def Let_def)

lemma nonce_len_flatten: "nonce_len ks p = length (flatten (np_pend p) ks)"
  by (simp add: nonce_len_def length_flatten)

lemma nonce_get_length:
  "length (nonce_get key ks n p) = (if 0 < n then min (nat n) (nonce_len ks p) else nonce_len ks p)"
  unfolding nonce_get_take [of key ks n] nonce_get_all nonce_len_flatten by (auto simp: min.commute)

lemma nonce_get_mem: "t \<in> set (nonce_get key ks n p) \<Longrightarrow> \<exists>f. t \<in> set (pending p f)"
proof -
  assume "t \<in> set (nonce_get key ks n p)"
  then have "t \<in> set (nonce_get key ks 0 p)"
    by (subst (asm) nonce_get_take) (auto split: if_splits dest: in_set_takeD)
  then show ?thesis by (auto simp: nonce_get_all flatten_def)
qed

lemma nonce_get_own:
  assumes "np_inv own p" and "t \<in> set (nonce_get key ks n p)"
  shows "\<exists>f i. own f (of_nat i) t"
  using nonce_get_mem [OF assms(2)] np_invD(2) [OF assms(1)] by (metis in_set_conv_nth ready_def)

lemma nonce_get_mset:
  "range_order (np_pend p) ks \<Longrightarrow> range_order (np_pend p) ks' \<Longrightarrow>
     mset (nonce_get key ks 0 p) = mset (nonce_get key ks' 0 p)"
  unfolding nonce_get_all mset_slice_stable by (intro mset_flatten_cong range_order_mset)

lemma nonce_get_grows:
  "range_order (np_pend p) ks \<Longrightarrow> range_order (np_pend (add_pool f n tx p)) ks' \<Longrightarrow>
     mset (nonce_get key ks 0 p) \<subseteq># mset (nonce_get key ks' 0 (add_pool f n tx p))"
  unfolding nonce_get_all using mset_flatten_mono [OF nonce_add_prefix] by simp

text \<open>What \<^verbatim>\<open>Get\<close> leaves out pays no more than what it returns, and the result is sorted.\<close>

lemma nonce_get_best:
  "sorted_wrt (\<lambda>a b. key b \<le> key a) (nonce_get key ks n p)"
  "0 < n \<Longrightarrow> t \<in> set (nonce_get key ks n p) \<Longrightarrow> u \<in> set (drop (nat n) (nonce_get key ks 0 p)) \<Longrightarrow> key u \<le> key t"
proof -
  have all: "sorted_wrt (\<lambda>a b. key b \<le> key a) (nonce_get key ks 0 p)"
    using by_key.sorted_slice_stable [of "flatten (np_pend p) ks" key]
    by (simp add: nonce_get_all not_less)
  then show "sorted_wrt (\<lambda>a b. key b \<le> key a) (nonce_get key ks n p)"
    by (subst nonce_get_take) (simp add: sorted_wrt_take)
  show "0 < n \<Longrightarrow> t \<in> set (nonce_get key ks n p) \<Longrightarrow> u \<in> set (drop (nat n) (nonce_get key ks 0 p)) \<Longrightarrow> key u \<le> key t"
    using by_key.take_best [of "flatten (np_pend p) ks" t "nat n" key u]
    by (subst (asm) nonce_get_take) (simp add: nonce_get_all not_less)
qed

section \<open>Runs of insertions\<close>

definition nonce_run :: "((string \<times> u64) \<times> 'tx) list \<Rightarrow> 'tx nonce_pool" where
  "nonce_run xs = fold (\<lambda>((f, n), t). add_pool f n t) xs new_nonce_pool"

lemma nonce_run_simps [simp]:
  "nonce_run [] = new_nonce_pool"
  "nonce_run (xs @ [((f, n), t)]) = add_pool f n t (nonce_run xs)"
  by (simp_all add: nonce_run_def)

definition total :: "'tx nonce_pool \<Rightarrow> string \<Rightarrow> nat" where
  "total p f = length (pending p f) + card (dom (futures p f))"

lemma promote_total:
  "promote nx futs l = (nx', futs', l') \<Longrightarrow> length l' + card (dom futs') = length l + card (dom futs)"
proof (induction nx futs l rule: promote.induct)
  case (1 nx futs l)
  show ?case
  proof (cases "futs nx")
    case None
    with "1.prems" show ?thesis by (simp add: promote.simps [of nx])
  next
    case (Some t)
    with "1.prems" have "promote (nx + 1) (futs(nx := None)) (l @ [t]) = (nx', futs', l')"
      by (simp add: promote.simps [of nx])
    note IH = "1.IH" [OF Some this]
    have "Suc (card (dom futs - {nx})) = card (dom futs)"
      using Some by (intro card_Suc_Diff1 finite_dom_word) (simp add: domI)
    moreover have "dom (futs(nx := None)) = dom futs - {nx}" by auto
    ultimately show ?thesis using IH by (simp only: length_append list.size)
  qed
qed

lemma nonce_add_total: "total (add_pool f n tx p) g \<le> total p g + 1"
proof (cases "g = f")
  case True
  show ?thesis
  proof (cases rule: nonce_add_cases [where n = n and p = p and f = f and tx = tx])
    case rejected
    then show ?thesis by (simp add: nonce_add_rejected(2))
  next
    case (ready nx futs l)
    then show ?thesis
      using True promote_total [OF ready(2)] unfolding total_def True nonce_add_ready [OF ready] by simp
  next
    case future
    then show ?thesis
      unfolding total_def True nonce_add_future [OF future] by (simp add: card_insert_if finite_dom_word)
  qed
qed (simp add: total_def nonce_add_others)

lemma nonce_run_total: "total (nonce_run xs) f \<le> length xs"
proof (induction xs rule: rev_induct)
  case (snoc x xs)
  obtain g n t where "x = ((g, n), t)" by (cases x) auto
  with snoc nonce_add_total [of g n t "nonce_run xs" f] show ?case by simp
qed (simp add: total_def new_nonce_pool_def)

lemma nonce_run_inv: "\<forall>((f, n), t) \<in> set xs. own f n t \<Longrightarrow> np_inv own (nonce_run xs)"
proof (induction xs rule: rev_induct)
  case (snoc x xs)
  obtain g n t where "x = ((g, n), t)" by (cases x) auto
  with snoc show ?case by (simp add: nonce_add_inv)
qed (simp add: np_inv_def new_nonce_pool_def ready_def)

text \<open>
  After any run of fewer than \<open>2 ^ 64\<close> insertions the pool holds, for every sender and
  nonce, the transaction that arrived first, and the ready list of a sender is the longest
  gap-free run of nonces from 0.
\<close>

lemma nonce_run_held:
  assumes "\<forall>((f, n), t) \<in> set xs. own f n t" and "length xs < 2 ^ 64"
  shows "held (nonce_run xs) f n = map_of xs (f, n)"
  using assms
proof (induction xs arbitrary: f n rule: rev_induct)
  case Nil
  show ?case by (simp add: held_def merged_def new_nonce_pool_def)
next
  case (snoc x xs)
  obtain g k t where x: "x = ((g, k), t)" by (cases x) auto
  have inv: "np_inv own (nonce_run xs)" using snoc.prems by (intro nonce_run_inv) auto
  have "length (pending (nonce_run xs) g) \<le> length xs"
    using nonce_run_total [of xs g] by (simp add: total_def)
  then have "length (pending (nonce_run xs) g) < 2 ^ 64" using snoc.prems(2) by simp
  note step = nonce_add_held(1) [OF inv this, of k t]
  have IH: "held (nonce_run xs) f n = map_of xs (f, n)" for f n using snoc by auto
  show ?case
    by (cases "map_of xs (g, k)") (auto simp: x step IH map_add_def split: option.splits)
qed

lemma pending_prefix:
  assumes inv: "np_inv own p" and small: "length (pending p f) < 2 ^ 64"
  shows "i < length (pending p f) \<Longrightarrow> held p f (of_nat i) = Some (pending p f ! i)"
    and "held p f (of_nat (length (pending p f))) = None"
proof -
  show "i < length (pending p f) \<Longrightarrow> held p f (of_nat i) = Some (pending p f ! i)"
    using small by (simp add: held_def merged_def unat_of_nat)
  have "futures p f (expected p f) = None"
    using np_invD(3) [OF inv, of f "expected p f"] by (cases "futures p f (expected p f)") auto
  then show "held p f (of_nat (length (pending p f))) = None"
    using small np_invD(1) [OF inv, of f] by (simp add: held_def merged_def unat_of_nat)
qed

section \<open>The promotion loop ends\<close>

text \<open>
  C27: The loop that moves waiting transactions of a sender to the ready list ends after one
  round for each transaction it moves, which are at most those waiting; it moves the
  consecutive nonces from the expected one on, in order, even past the largest nonce, and
  stops where none waits.
\<close>

theorem promotion_ends:
  "\<exists>nx' futs' ts. promote nx futs l = (nx', futs', l @ ts) \<and> futs' nx' = None \<and> nx' = nx + of_nat (length ts)
     \<and> length ts + card (dom futs') = card (dom futs)
     \<and> (\<forall>j < length ts. futs (nx + of_nat j) = Some (ts ! j))"
proof (induction nx futs l rule: promote.induct)
  case (1 nx futs l)
  show ?case
  proof (cases "futs nx")
    case None
    then show ?thesis by (simp add: promote.simps [of nx])
  next
    case (Some t)
    obtain nx' futs' ts where run: "promote (nx + 1) (futs(nx := None)) (l @ [t]) = (nx', futs', (l @ [t]) @ ts)" "futs' nx' = None"
        "nx' = nx + 1 + of_nat (length ts)" "\<forall>j < length ts. (futs(nx := None)) (nx + 1 + of_nat j) = Some (ts ! j)"
      using "1.IH" [OF Some] by blast
    have "promote nx futs l = (nx', futs', l @ t # ts)"
      using run(1) Some by (simp add: promote.simps [of nx])
    moreover have "futs (nx + of_nat j) = Some ((t # ts) ! j)" if "j < length (t # ts)" for j
      using that Some run(4) by (cases j) (auto simp: add.assoc add.commute [of 1] split: if_splits)
    ultimately show ?thesis
      using run(2,3) promote_total [of nx futs l] by (intro exI [of _ nx'] exI [of _ futs'] exI [of _ "t # ts"]) (simp add: add.assoc)
  qed
qed

theorem promotion_ends_witness:
  "\<exists>futs' ts. promote (- 1) [- 1 \<mapsto> True, 0 \<mapsto> False, 5 \<mapsto> True] [] = (1, futs', ts) \<and> futs' 1 = None"
  using promotion_ends [of "- 1" "[- 1 \<mapsto> True, 0 \<mapsto> False, 5 \<mapsto> True]" "[]"]
  by (auto simp: promote.simps)

end
