(* ===== verification/Typed_Pools.thy ===== *)
theory Typed_Pools
  imports Nonce_Pool
begin

text \<open>
  The three mempools: \<^verbatim>\<open>plaintext_v1\<close>, \<^verbatim>\<open>auction_bid_v1\<close> (nonce-ordered) and \<^verbatim>\<open>private_v1\<close>
  (bounded, deduplicated by hash), each an interpretation of \<open>typed_mempool\<close>.
\<close>

section \<open>plaintext_v1\<close>

type_synonym plaintext_pool = "PlaintextTx nonce_pool"

definition plaintext_New :: plaintext_pool where
  "plaintext_New = new_nonce_pool"

definition plaintext_Add :: "unit \<Rightarrow> payload \<Rightarrow> plaintext_pool \<Rightarrow> (string + unit) \<times> plaintext_pool \<times> metric list" where
  "plaintext_Add _ pl p =
     (case pl of
        Plaintext t \<Rightarrow>
          if \<not> plaintext_Validate t then (Inl ''invalid'', p, [mempool_in ''invalid''])
          else nonce_add (pt_From t) (pt_Nonce t) t p
      | _ \<Rightarrow> (Inr (), p, []))"

definition plaintext_Get :: "string list \<Rightarrow> int \<Rightarrow> plaintext_pool \<Rightarrow> payload list" where
  "plaintext_Get ks n p = map Plaintext (nonce_get pt_Fee ks n p)"

definition plaintext_Len :: "string list \<Rightarrow> plaintext_pool \<Rightarrow> nat" where
  "plaintext_Len = nonce_len"

definition plaintext_own :: "string \<Rightarrow> u64 \<Rightarrow> PlaintextTx \<Rightarrow> bool" where
  "plaintext_own f n t \<longleftrightarrow> pt_From t = f \<and> pt_Nonce t = n \<and> plaintext_Validate t"

section \<open>auction_bid_v1\<close>

type_synonym auction_pool = "AuctionBidTx nonce_pool"

definition auction_New :: auction_pool where
  "auction_New = new_nonce_pool"

definition auction_Add :: "unit \<Rightarrow> payload \<Rightarrow> auction_pool \<Rightarrow> (string + unit) \<times> auction_pool \<times> metric list" where
  "auction_Add _ pl p =
     (case pl of
        Auction t \<Rightarrow>
          if \<not> auction_Validate t then (Inl ''invalid'', p, [mempool_in ''invalid''])
          else nonce_add (at_From t) (at_Nonce t) t p
      | _ \<Rightarrow> (Inr (), p, []))"

definition auction_Get :: "string list \<Rightarrow> int \<Rightarrow> auction_pool \<Rightarrow> payload list" where
  "auction_Get ks n p = map Auction (nonce_get at_Bid ks n p)"

definition auction_Len :: "string list \<Rightarrow> auction_pool \<Rightarrow> nat" where
  "auction_Len = nonce_len"

definition auction_own :: "string \<Rightarrow> u64 \<Rightarrow> AuctionBidTx \<Rightarrow> bool" where
  "auction_own f n t \<longleftrightarrow> at_From t = f \<and> at_Nonce t = n \<and> auction_Validate t"

section \<open>private_v1\<close>

record private_pool =
  pp_items :: "PrivateTx list"
  pp_seen :: "bytes set"
  pp_max :: int

definition private_New :: private_pool where
  "private_New = \<lparr>pp_items = [], pp_seen = {}, pp_max = 4096\<rparr>"

definition private_in :: "string \<Rightarrow> metric" where
  "private_in r = Inc ''private_pool_in_total'' [(''result'', r)]"

text \<open>
  \<open>early\<close> is the test of \<^verbatim>\<open>AEQUA_BEAST_EARLY_SHARE\<close>; the last component lists the heights
  handed to \<^verbatim>\<open>maybeEnsureShare\<close>.
\<close>

definition private_Add_full :: "(bytes \<Rightarrow> bytes) \<Rightarrow> bool \<Rightarrow> payload \<Rightarrow> private_pool
    \<Rightarrow> (string + unit) \<times> private_pool \<times> metric list \<times> u64 list" where
  "private_Add_full sha early pl p =
     (case pl of
        Private t \<Rightarrow>
          if \<not> private_Validate t then (Inl ''invalid'', p, [private_in ''invalid''], [])
          else if pp_max p \<le> int (length (pp_items p)) then
            (Inl ''private pool overflow'', p, [private_in ''overflow''], [])
          else let h = private_Hash sha t in
            if h \<in> pp_seen p then (Inl ''duplicate private tx'', p, [private_in ''dup''], [])
            else let p' = p\<lparr>pp_items := pp_items p @ [t], pp_seen := insert h (pp_seen p)\<rparr> in
              (Inr (), p',
               [private_in ''ok'', SetGauge ''private_pool_size'' [] (int (length (pp_items p')))],
               if early then [pv_TargetHeight t] else [])
      | _ \<Rightarrow> (Inr (), p, [], []))"

definition private_Add :: "(bytes \<Rightarrow> bytes) \<times> bool \<Rightarrow> payload \<Rightarrow> private_pool
    \<Rightarrow> (string + unit) \<times> private_pool \<times> metric list" where
  "private_Add h pl p = (case private_Add_full (fst h) (snd h) pl p of (r, p', ms, _) \<Rightarrow> (r, p', ms))"

definition private_Get :: "unit \<Rightarrow> int \<Rightarrow> private_pool \<Rightarrow> payload list" where
  "private_Get _ n p =
     (let m = (if n \<le> 0 \<or> int (length (pp_items p)) < n then length (pp_items p) else nat n)
      in map Private (take m (pp_items p)))"

definition private_Len :: "unit \<Rightarrow> private_pool \<Rightarrow> nat" where
  "private_Len _ p = length (pp_items p)"

definition private_inv :: "private_pool \<Rightarrow> bool" where
  "private_inv p \<longleftrightarrow> (\<forall>t \<in> set (pp_items p). private_Validate t)"

section \<open>The pools keep the mempool contract\<close>

lemma np_inv_new [simp]: "np_inv own new_nonce_pool"
  by (simp add: np_inv_def new_nonce_pool_def ready_def)

lemma plaintext_Add_inv: "np_inv plaintext_own p \<Longrightarrow> np_inv plaintext_own (fst (snd (plaintext_Add u x p)))"
  by (auto simp: plaintext_Add_def plaintext_own_def intro: nonce_add_inv split: payload.splits)

lemma auction_Add_inv: "np_inv auction_own p \<Longrightarrow> np_inv auction_own (fst (snd (auction_Add u x p)))"
  by (auto simp: auction_Add_def auction_own_def intro: nonce_add_inv split: payload.splits)

lemma map_mset_sub: "mset xs \<subseteq># mset ys \<Longrightarrow> mset (map f xs) \<subseteq># mset (map f ys)"
  by (simp add: image_mset_subseteq_mono)

interpretation pt_pool: typed_mempool "''plaintext_v1''" plaintext_Add plaintext_Get plaintext_Len
    "\<lambda>p ks. range_order (np_pend p) ks" "np_inv plaintext_own"
proof unfold_locales
  fix p u x
  show "np_inv plaintext_own p \<Longrightarrow> np_inv plaintext_own (fst (snd (plaintext_Add u x p)))"
    by (rule plaintext_Add_inv)
next
  fix p ks x n
  assume "np_inv plaintext_own p" "x \<in> set (plaintext_Get ks n p)"
  then show "Type_of x = ''plaintext_v1'' \<and> Validate x"
    using nonce_get_own [of plaintext_own p _ pt_Fee ks n] by (auto simp: plaintext_Get_def plaintext_own_def)
next
  fix p ks n
  show "length (plaintext_Get ks n p) = (if 0 < n then min (nat n) (plaintext_Len ks p) else plaintext_Len ks p)"
    by (simp add: plaintext_Get_def plaintext_Len_def nonce_get_length)
next
  fix p :: plaintext_pool and ks ks'
  assume "range_order (np_pend p) ks" "range_order (np_pend p) ks'"
  then have "mset (nonce_get pt_Fee ks 0 p) = mset (nonce_get pt_Fee ks' 0 p)" by (rule nonce_get_mset)
  then show "mset (plaintext_Get ks 0 p) = mset (plaintext_Get ks' 0 p)" by (simp add: plaintext_Get_def)
next
  fix p ks u x ks'
  assume ks: "range_order (np_pend p) ks" "range_order (np_pend (fst (snd (plaintext_Add u x p)))) ks'"
  have "mset (nonce_get pt_Fee ks 0 p) \<subseteq># mset (nonce_get pt_Fee ks' 0 (fst (snd (plaintext_Add u x p))))"
    using ks nonce_get_mset [of p ks ks'] nonce_get_grows [of p ks]
    by (auto simp: plaintext_Add_def split: payload.splits if_splits)
  then show "mset (plaintext_Get ks 0 p) \<subseteq># mset (plaintext_Get ks' 0 (fst (snd (plaintext_Add u x p))))"
    unfolding plaintext_Get_def by (rule map_mset_sub)
qed

interpretation au_pool: typed_mempool "''auction_bid_v1''" auction_Add auction_Get auction_Len
    "\<lambda>p ks. range_order (np_pend p) ks" "np_inv auction_own"
proof unfold_locales
  fix p u x
  show "np_inv auction_own p \<Longrightarrow> np_inv auction_own (fst (snd (auction_Add u x p)))"
    by (rule auction_Add_inv)
next
  fix p ks x n
  assume "np_inv auction_own p" "x \<in> set (auction_Get ks n p)"
  then show "Type_of x = ''auction_bid_v1'' \<and> Validate x"
    using nonce_get_own [of auction_own p _ at_Bid ks n] by (auto simp: auction_Get_def auction_own_def)
next
  fix p ks n
  show "length (auction_Get ks n p) = (if 0 < n then min (nat n) (auction_Len ks p) else auction_Len ks p)"
    by (simp add: auction_Get_def auction_Len_def nonce_get_length)
next
  fix p :: auction_pool and ks ks'
  assume "range_order (np_pend p) ks" "range_order (np_pend p) ks'"
  then have "mset (nonce_get at_Bid ks 0 p) = mset (nonce_get at_Bid ks' 0 p)" by (rule nonce_get_mset)
  then show "mset (auction_Get ks 0 p) = mset (auction_Get ks' 0 p)" by (simp add: auction_Get_def)
next
  fix p ks u x ks'
  assume ks: "range_order (np_pend p) ks" "range_order (np_pend (fst (snd (auction_Add u x p)))) ks'"
  have "mset (nonce_get at_Bid ks 0 p) \<subseteq># mset (nonce_get at_Bid ks' 0 (fst (snd (auction_Add u x p))))"
    using ks nonce_get_mset [of p ks ks'] nonce_get_grows [of p ks]
    by (auto simp: auction_Add_def split: payload.splits if_splits)
  then show "mset (auction_Get ks 0 p) \<subseteq># mset (auction_Get ks' 0 (fst (snd (auction_Add u x p))))"
    unfolding auction_Get_def by (rule map_mset_sub)
qed

lemma private_Get_all: "private_Get u 0 p = map Private (pp_items p)"
  by (simp add: private_Get_def)

lemma private_Add_items:
  "pp_items (fst (snd (private_Add h x p))) = pp_items p
   \<or> (\<exists>t. x = Private t \<and> private_Validate t \<and> private_Hash (fst h) t \<notin> pp_seen p
        \<and> int (length (pp_items p)) < pp_max p \<and> pp_items (fst (snd (private_Add h x p))) = pp_items p @ [t])"
  by (auto simp: private_Add_def private_Add_full_def Let_def split: payload.splits)

interpretation pv_pool: typed_mempool "''private_v1''" private_Add private_Get private_Len
    "\<lambda>_ _. True" private_inv
proof unfold_locales
  fix p h x
  show "private_inv p \<Longrightarrow> private_inv (fst (snd (private_Add h x p)))"
    using private_Add_items [of h x p] by (auto simp: private_inv_def)
next
  fix p x n and u :: unit
  assume "private_inv p" "x \<in> set (private_Get u n p)"
  then show "Type_of x = ''private_v1'' \<and> Validate x"
    by (auto simp: private_Get_def Let_def private_inv_def dest: in_set_takeD)
next
  fix p n and u :: unit
  show "length (private_Get u n p) = (if 0 < n then min (nat n) (private_Len u p) else private_Len u p)"
    by (auto simp: private_Get_def private_Len_def Let_def)
next
  fix p h x and u u' :: unit
  show "mset (private_Get u 0 p) \<subseteq># mset (private_Get u' 0 (fst (snd (private_Add h x p))))"
    unfolding private_Get_all using private_Add_items [of h x p] by (intro map_mset_sub) auto
qed simp

section \<open>Runs of the pools\<close>

definition plaintext_run :: "payload list \<Rightarrow> plaintext_pool" where
  "plaintext_run xs = fold (\<lambda>x p. fst (snd (plaintext_Add () x p))) xs plaintext_New"

text \<open>The valid transactions of a payload list, keyed by sender and nonce, in arrival order.\<close>

definition plaintext_entries :: "payload list \<Rightarrow> ((string \<times> u64) \<times> PlaintextTx) list" where
  "plaintext_entries xs = concat (map (\<lambda>x. case x of
       Plaintext t \<Rightarrow> if plaintext_Validate t then [((pt_From t, pt_Nonce t), t)] else []
     | _ \<Rightarrow> []) xs)"

lemma plaintext_run_entries: "plaintext_run xs = nonce_run (plaintext_entries xs)"
proof (induction xs rule: rev_induct)
  case Nil
  show ?case by (simp add: plaintext_run_def plaintext_entries_def plaintext_New_def)
next
  case (snoc x xs)
  have "plaintext_run (xs @ [x]) = fst (snd (plaintext_Add () x (nonce_run (plaintext_entries xs))))"
    using snoc by (simp add: plaintext_run_def)
  then show ?case
    by (cases x) (simp_all add: plaintext_Add_def plaintext_entries_def)
qed

lemma plaintext_entries_own: "\<forall>((f, n), t) \<in> set (plaintext_entries xs). plaintext_own f n t"
  by (auto simp: plaintext_entries_def plaintext_own_def split: payload.splits if_splits)

lemma length_plaintext_entries: "length (plaintext_entries xs) \<le> length xs"
proof (induction xs)
  case (Cons x xs)
  then show ?case by (cases x) (simp_all add: plaintext_entries_def)
qed (simp add: plaintext_entries_def)

text \<open>A private pool filled from empty.\<close>

definition private_run :: "(bytes \<Rightarrow> bytes) \<Rightarrow> bool \<Rightarrow> payload list \<Rightarrow> private_pool" where
  "private_run sha early xs = fold (\<lambda>x p. fst (snd (private_Add (sha, early) x p))) xs private_New"

definition private_ok :: "(bytes \<Rightarrow> bytes) \<Rightarrow> private_pool \<Rightarrow> bool" where
  "private_ok sha p \<longleftrightarrow> int (length (pp_items p)) \<le> pp_max p \<and> pp_max p = 4096
     \<and> distinct (map (private_Hash sha) (pp_items p))
     \<and> pp_seen p = private_Hash sha ` set (pp_items p) \<and> private_inv p"

lemma private_Add_ok: "private_ok sha p \<Longrightarrow> private_ok sha (fst (snd (private_Add (sha, early) x p)))"
  by (auto simp: private_ok_def private_inv_def private_Add_def private_Add_full_def Let_def
      split: payload.splits)

lemma private_run_ok: "private_ok sha (private_run sha early xs)"
proof (induction xs rule: rev_induct)
  case Nil
  show ?case by (simp add: private_run_def private_ok_def private_New_def private_inv_def)
next
  case (snoc x xs)
  then show ?case using private_Add_ok by (simp add: private_run_def)
qed

lemma low_byte_wraps: "low_byte (w + 256) = low_byte w"
proof -
  have cut: "(word_of_int (take_bit 64 k) :: byte) = word_of_int k" for k
    by (simp add: word_of_int_eq_iff)
  have "low_byte (w + 256) = word_of_int (uint (w + 256))" by (simp add: low_byte_def)
  also have "uint (w + 256) = take_bit 64 (uint w + 256)"
    by (simp add: uint_word_ariths take_bit_eq_mod)
  also have "(word_of_int \<dots> :: byte) = word_of_int (uint w) + word_of_int 256" by (simp add: cut)
  finally show ?thesis by (simp add: low_byte_def)
qed

section \<open>Properties\<close>

text \<open>
  C26: whatever the arrival order, the plaintext pool keeps for every sender and nonce the
  first valid transaction that arrived, and the ready list of a sender is exactly the
  longest gap-free sequence of nonces from 0 among them.
\<close>

theorem plaintext_pool_first_arrival:
  assumes "length xs < 2 ^ 64" and "p = plaintext_run xs"
  shows "held p f n = map_of (plaintext_entries xs) (f, n)
    \<and> (\<forall>i < length (pending p f). map_of (plaintext_entries xs) (f, of_nat i) = Some (pending p f ! i))
    \<and> map_of (plaintext_entries xs) (f, of_nat (length (pending p f))) = None"
proof -
  let ?es = "plaintext_entries xs"
  have len: "length ?es < 2 ^ 64" using assms(1) length_plaintext_entries [of xs] by simp
  have p: "p = nonce_run ?es" using assms(2) by (simp add: plaintext_run_entries)
  have inv: "np_inv plaintext_own p" unfolding p by (rule nonce_run_inv [OF plaintext_entries_own])
  have small: "length (pending p f) < 2 ^ 64"
    using nonce_run_total [of ?es f] len by (simp add: p total_def)
  have held: "held p f n = map_of ?es (f, n)" for n
    unfolding p by (rule nonce_run_held [OF plaintext_entries_own len])
  show ?thesis using pending_prefix [OF inv small] held by metis
qed

text \<open>
  \<^verbatim>\<open>Get\<close> of the plaintext pool returns at most \<open>n\<close> ready transactions in non-increasing
  fee order, and no ready transaction it leaves out pays more than one it returns,
  whatever the map iteration order.
\<close>

theorem plaintext_get_top:
  assumes "0 < n" and "range_order (np_pend p) ks"
  shows "length (plaintext_Get ks n p) = min (nat n) (plaintext_Len ks p)
    \<and> sorted_wrt (\<lambda>a b. SortKey b \<le> SortKey a) (plaintext_Get ks n p)
    \<and> (\<forall>x \<in> set (plaintext_Get ks n p). \<forall>y \<in> set (drop (nat n) (plaintext_Get ks 0 p)). SortKey y \<le> SortKey x)
    \<and> mset (plaintext_Get ks n p) + mset (drop (nat n) (plaintext_Get ks 0 p))
        = mset (map Plaintext (flatten (np_pend p) ks))"
proof -
  have take: "nonce_get pt_Fee ks n p = take (nat n) (nonce_get pt_Fee ks 0 p)"
    using assms(1) nonce_get_take [of pt_Fee ks n p] by simp
  have "mset (plaintext_Get ks n p) + mset (drop (nat n) (plaintext_Get ks 0 p)) = mset (plaintext_Get ks 0 p)"
    unfolding plaintext_Get_def take by (simp flip: mset_append take_map drop_map)
  moreover have "mset (plaintext_Get ks 0 p) = mset (map Plaintext (flatten (np_pend p) ks))"
    by (simp add: plaintext_Get_def nonce_get_all)
  moreover have "sorted_wrt (\<lambda>a b. SortKey b \<le> SortKey a) (plaintext_Get ks n p)"
    using nonce_get_best(1) [of pt_Fee ks n p] by (simp add: plaintext_Get_def sorted_wrt_map)
  moreover have "\<forall>x \<in> set (plaintext_Get ks n p). \<forall>y \<in> set (drop (nat n) (plaintext_Get ks 0 p)). SortKey y \<le> SortKey x"
    using nonce_get_best(2) [OF assms(1), of _ pt_Fee ks p] by (auto simp: plaintext_Get_def drop_map)
  ultimately show ?thesis
    using pt_pool.get_length [OF assms(2), of n] assms(1) by simp
qed

text \<open>
  the private pool never holds more than 4096 transactions, never two with the same
  hash, and only valid ones.
\<close>

theorem private_pool_bounded:
  "length (pp_items (private_run sha early xs)) \<le> 4096
   \<and> distinct (map (private_Hash sha) (pp_items (private_run sha early xs)))
   \<and> list_all private_Validate (pp_items (private_run sha early xs))"
  using private_run_ok [of sha early xs] by (auto simp: private_ok_def private_inv_def list_all_iff)

text \<open>
  the payload hash does not identify a transaction: nonce, gas and fee (or bid) enter
  it as their low byte only, so changing one by 256 keeps the hash, for every hash function.
\<close>

theorem payload_hash_truncates:
  "Hash sha (Plaintext (t\<lparr>pt_Nonce := pt_Nonce t + 256, pt_Fee := pt_Fee t + 256\<rparr>)) = Hash sha (Plaintext t)
   \<and> Hash sha (Auction (u\<lparr>at_Nonce := at_Nonce u + 256, at_Bid := at_Bid u + 256\<rparr>)) = Hash sha (Auction u)
   \<and> Hash sha (Private (v\<lparr>pv_Nonce := pv_Nonce v + 256\<rparr>)) = Hash sha (Private v)"
  by (simp add: plaintext_Hash_def auction_Hash_def private_Hash_def low_byte_wraps)

definition demo_tx :: "string \<Rightarrow> u64 \<Rightarrow> u64 \<Rightarrow> PlaintextTx" where
  "demo_tx from n fee = \<lparr>pt_From = from, pt_Nonce = n, pt_Gas = 1, pt_Fee = fee, pt_Sig = replicate 32 0\<rparr>"

definition demo_bid :: "string \<Rightarrow> u64 \<Rightarrow> u64 \<Rightarrow> AuctionBidTx" where
  "demo_bid from n bid = \<lparr>at_From = from, at_Nonce = n, at_Gas = 1, at_Bid = bid, at_FeeRecipient = ''r'',
     at_Sig = replicate 32 0\<rparr>"

lemmas pool_eval = plaintext_run_def plaintext_New_def new_nonce_pool_def plaintext_Add_def
  plaintext_Validate_def auction_Add_def auction_Validate_def auction_New_def nonce_add_def
  promote.simps demo_tx_def demo_bid_def getz_def Let_def

theorem plaintext_pool_first_arrival_witness:
  "let p = plaintext_run [Plaintext (demo_tx ''A'' 1 5), Plaintext (demo_tx ''A'' 0 3)]
   in map_of (plaintext_entries [Plaintext (demo_tx ''A'' 1 5), Plaintext (demo_tx ''A'' 0 3)])
        (''A'', of_nat (length (pending p ''A''))) = None
     \<and> pending p ''A'' = [demo_tx ''A'' 0 3, demo_tx ''A'' 1 5]"
proof -
  let ?xs = "[Plaintext (demo_tx ''A'' 1 5), Plaintext (demo_tx ''A'' 0 3)]"
  have "length ?xs < 2 ^ 64" by simp
  from plaintext_pool_first_arrival [OF this refl, of "''A''"]
  have "map_of (plaintext_entries ?xs) (''A'', of_nat (length (pending (plaintext_run ?xs) ''A''))) = None"
    by blast
  moreover have "pending (plaintext_run ?xs) ''A'' = [demo_tx ''A'' 0 3, demo_tx ''A'' 1 5]"
    by (simp add: pool_eval)
  ultimately show ?thesis by (simp only: Let_def simp_thms)
qed

theorem plaintext_get_top_witness:
  "length (plaintext_Get [''A''] 1 (plaintext_run [Plaintext (demo_tx ''A'' 0 3), Plaintext (demo_tx ''A'' 1 5)])) = 1"
proof -
  let ?p = "plaintext_run [Plaintext (demo_tx ''A'' 0 3), Plaintext (demo_tx ''A'' 1 5)]"
  have "range_order (np_pend ?p) [''A'']" by (simp add: pool_eval range_order_def)
  from plaintext_get_top [OF _ this, of 1] show ?thesis
    by (simp add: plaintext_Len_def nonce_len_def) (simp add: pool_eval)
qed

text \<open>
  the order \<^verbatim>\<open>Get\<close> returns is not stable by sender and nonce, as its comment says. Among
  equal fees the senders follow the map iteration order, which Go leaves open.
\<close>

theorem plaintext_get_map_order:
  "let p = plaintext_run [Plaintext (demo_tx ''A'' 0 5), Plaintext (demo_tx ''B'' 0 5)]
   in range_order (np_pend p) [''A'', ''B''] \<and> range_order (np_pend p) [''B'', ''A'']
     \<and> map SortKey (plaintext_Get [''A'', ''B''] 1 p) = map SortKey (plaintext_Get [''B'', ''A''] 1 p)
     \<and> plaintext_Get [''A'', ''B''] 1 p = [Plaintext (demo_tx ''A'' 0 5)]
     \<and> plaintext_Get [''B'', ''A''] 1 p = [Plaintext (demo_tx ''B'' 0 5)]"
  by (auto simp: plaintext_Get_def nonce_get_def flatten_def range_order_def pool_eval)

text \<open>
  the auction pool does not keep the per-sender nonce order its comment promises: a
  later bid of the same sender that pays more is returned before the earlier one.
\<close>

theorem auction_get_breaks_nonce_order:
  "let p = fst (snd (auction_Add () (Auction (demo_bid ''A'' 1 9))
             (fst (snd (auction_Add () (Auction (demo_bid ''A'' 0 1)) auction_New)))))
   in auction_Get [''A''] 0 p = [Auction (demo_bid ''A'' 1 9), Auction (demo_bid ''A'' 0 1)]"
  by (simp add: auction_Get_def nonce_get_def flatten_def pool_eval)

text \<open>
  the gauge \<^verbatim>\<open>mempool_size\<close> is raised by one for an insertion that makes several
  transactions ready, so it falls behind the length of the pool.
\<close>

theorem mempool_size_gauge_undercounts:
  "let (r1, p1, m1) = plaintext_Add () (Plaintext (demo_tx ''A'' 1 5)) plaintext_New;
       (r2, p2, m2) = plaintext_Add () (Plaintext (demo_tx ''A'' 0 5)) p1
   in filter (\<lambda>m. m = AddGauge ''mempool_size'' [] 1) (m1 @ m2) = [AddGauge ''mempool_size'' [] 1]
     \<and> plaintext_Len [''A''] p2 = 2"
  by (simp add: plaintext_Len_def nonce_len_def mempool_in_def pool_eval)

end
