(* ===== verification/Container.thy ===== *)
theory Container
  imports Typed_Pools
begin

text \<open>
  \<^verbatim>\<open>internal/payload/container.go\<close>: the typed mempools by name, and the arrival record of
  every payload by hash. A pool behind the Go interface is one of the three
  implementations. Times are nanoseconds as \<open>int\<close>. \<^verbatim>\<open>GetAll\<close> takes the pool's lock twice;
  here nothing comes in between.
\<close>

section \<open>Pools behind the interface\<close>

datatype mempool = PlaintextPool plaintext_pool | AuctionPool auction_pool | PrivatePool private_pool

text \<open>What a call sees of the outside: SHA-256 and the early-share variable.\<close>

type_synonym pool_env = "(bytes \<Rightarrow> bytes) \<times> bool"

fun pool_Add :: "pool_env \<Rightarrow> payload \<Rightarrow> mempool \<Rightarrow> (string + unit) \<times> mempool \<times> metric list" where
  "pool_Add h x (PlaintextPool p) = (case plaintext_Add () x p of (r, p', ms) \<Rightarrow> (r, PlaintextPool p', ms))"
| "pool_Add h x (AuctionPool p) = (case auction_Add () x p of (r, p', ms) \<Rightarrow> (r, AuctionPool p', ms))"
| "pool_Add h x (PrivatePool p) = (case private_Add h x p of (r, p', ms) \<Rightarrow> (r, PrivatePool p', ms))"

fun pool_Get :: "string list \<Rightarrow> int \<Rightarrow> mempool \<Rightarrow> payload list" where
  "pool_Get ks n (PlaintextPool p) = plaintext_Get ks n p"
| "pool_Get ks n (AuctionPool p) = auction_Get ks n p"
| "pool_Get ks n (PrivatePool p) = private_Get () n p"

fun pool_Len :: "string list \<Rightarrow> mempool \<Rightarrow> nat" where
  "pool_Len ks (PlaintextPool p) = plaintext_Len ks p"
| "pool_Len ks (AuctionPool p) = auction_Len ks p"
| "pool_Len ks (PrivatePool p) = private_Len () p"

fun pool_type :: "mempool \<Rightarrow> string" where
  "pool_type (PlaintextPool p) = ''plaintext_v1''"
| "pool_type (AuctionPool p) = ''auction_bid_v1''"
| "pool_type (PrivatePool p) = ''private_v1''"

fun pool_inv :: "mempool \<Rightarrow> bool" where
  "pool_inv (PlaintextPool p) = np_inv plaintext_own p"
| "pool_inv (AuctionPool p) = np_inv auction_own p"
| "pool_inv (PrivatePool p) = private_inv p"

text \<open>The possible iteration orders of a pool's map.\<close>

fun pool_range :: "mempool \<Rightarrow> string list \<Rightarrow> bool" where
  "pool_range (PlaintextPool p) ks = range_order (np_pend p) ks"
| "pool_range (AuctionPool p) ks = range_order (np_pend p) ks"
| "pool_range (PrivatePool p) ks = True"

lemma pool_type_Add [simp]: "pool_type (fst (snd (pool_Add h x p))) = pool_type p"
  by (cases p) (simp_all split: prod.splits)

lemma pool_Add_inv: "pool_inv p \<Longrightarrow> pool_inv (fst (snd (pool_Add h x p)))"
proof (cases p)
  case (PlaintextPool q)
  then show "pool_inv p \<Longrightarrow> pool_inv (fst (snd (pool_Add h x p)))"
    using pt_pool.add_inv [of q "()" x] by (auto split: prod.splits)
next
  case (AuctionPool q)
  then show "pool_inv p \<Longrightarrow> pool_inv (fst (snd (pool_Add h x p)))"
    using au_pool.add_inv [of q "()" x] by (auto split: prod.splits)
next
  case (PrivatePool q)
  then show "pool_inv p \<Longrightarrow> pool_inv (fst (snd (pool_Add h x p)))"
    using pv_pool.add_inv [of q h x] by (auto split: prod.splits)
qed

lemma pool_Get_typed:
  "pool_inv p \<Longrightarrow> pool_range p ks \<Longrightarrow> x \<in> set (pool_Get ks n p) \<Longrightarrow> Type_of x = pool_type p \<and> Validate x"
  using pt_pool.get_typed au_pool.get_typed pv_pool.get_typed by (cases p) auto

lemma pool_Get_all:
  "pool_range p ks \<Longrightarrow> length (pool_Get ks (int (pool_Len ks p)) p) = pool_Len ks p"
  using pt_pool.get_all_length au_pool.get_all_length pv_pool.get_all_length by (cases p) auto

lemma pool_Get_full:
  "pool_Get ks (int (pool_Len ks p)) p = pool_Get ks 0 p"
proof (cases p)
  case (PlaintextPool q)
  then show ?thesis
    using nonce_get_take [of pt_Fee ks "int (nonce_len ks q)" q]
    by (simp add: plaintext_Get_def plaintext_Len_def nonce_get_all nonce_len_flatten)
next
  case (AuctionPool q)
  then show ?thesis
    using nonce_get_take [of at_Bid ks "int (nonce_len ks q)" q]
    by (simp add: auction_Get_def auction_Len_def nonce_get_all nonce_len_flatten)
qed (simp add: private_Get_def private_Len_def)

lemma pool_Get_mset:
  "pool_range p ks \<Longrightarrow> pool_range p ks' \<Longrightarrow> mset (pool_Get ks 0 p) = mset (pool_Get ks' 0 p)"
proof (cases p)
  case (PlaintextPool q)
  then show "pool_range p ks \<Longrightarrow> pool_range p ks' \<Longrightarrow> mset (pool_Get ks 0 p) = mset (pool_Get ks' 0 p)"
    using pt_pool.get_all_mset [of q ks ks'] by simp
next
  case (AuctionPool q)
  then show "pool_range p ks \<Longrightarrow> pool_range p ks' \<Longrightarrow> mset (pool_Get ks 0 p) = mset (pool_Get ks' 0 p)"
    using au_pool.get_all_mset [of q ks ks'] by simp
qed simp

lemma pool_Len_0: "pool_range p ks \<Longrightarrow> pool_Len ks p = length (pool_Get ks 0 p)"
  using pool_Get_all [of p ks] by (simp add: pool_Get_full)

section \<open>The container\<close>

record arrivalMeta =
  am_Seq :: u64
  am_TS :: int

record Container =
  c_impl :: "string \<rightharpoonup> mempool"
  c_meta :: "bytes \<rightharpoonup> arrivalMeta"
  c_seq :: u64

definition NewContainer :: "(string \<rightharpoonup> mempool) \<Rightarrow> Container" where
  "NewContainer pools = \<lparr>c_impl = pools, c_meta = Map.empty, c_seq = 0\<rparr>"

definition container_Add :: "pool_env \<Rightarrow> int \<Rightarrow> payload \<Rightarrow> Container \<Rightarrow> (string + unit) \<times> Container \<times> metric list" where
  "container_Add h now x c =
     (case c_impl c (Type_of x) of
        None \<Rightarrow> (Inr (), c, [])
      | Some pool \<Rightarrow>
          let seq = c_seq c + 1;
              c' = c\<lparr>c_seq := seq, c_meta := (c_meta c)(Hash (fst h) x \<mapsto> \<lparr>am_Seq = seq, am_TS = now\<rparr>)\<rparr>;
              (r, pool', ms) = pool_Add h x pool
          in (r, c'\<lparr>c_impl := (c_impl c)(Type_of x \<mapsto> pool')\<rparr>, ms))"

definition GetN :: "string list \<Rightarrow> string \<Rightarrow> int \<Rightarrow> Container \<Rightarrow> payload list" where
  "GetN ks t n c = (case c_impl c t of None \<Rightarrow> [] | Some pool \<Rightarrow> pool_Get ks n pool)"

definition GetAll :: "string list \<Rightarrow> string \<Rightarrow> Container \<Rightarrow> payload list" where
  "GetAll ks t c =
     (case c_impl c t of
        None \<Rightarrow> []
      | Some pool \<Rightarrow>
          (let n = pool_Len ks pool in if n \<le> 0 then [] else pool_Get ks (int n) pool))"

text \<open>\<open>ts\<close> is the order in which the pools are visited, \<open>rng\<close> the iteration order inside each.\<close>

definition container_Len :: "string list \<Rightarrow> (string \<Rightarrow> string list) \<Rightarrow> Container \<Rightarrow> nat" where
  "container_Len ts rng c =
     sum_list (map (\<lambda>t. case c_impl c t of None \<Rightarrow> 0 | Some pool \<Rightarrow> pool_Len (rng t) pool) ts)"

definition Arrival :: "(bytes \<Rightarrow> bytes) \<Rightarrow> payload \<Rightarrow> Container \<Rightarrow> arrivalMeta option" where
  "Arrival sha x c = c_meta c (Hash sha x)"

section \<open>Well-formed containers\<close>

definition wired :: "Container \<Rightarrow> bool" where
  "wired c \<longleftrightarrow> (\<forall>t pool. c_impl c t = Some pool \<longrightarrow> pool_type pool = t \<and> pool_inv pool)"

text \<open>The containers \<^verbatim>\<open>main\<close> builds: empty pools under their type names.\<close>

definition main_pools :: "bool \<Rightarrow> string \<rightharpoonup> mempool" where
  "main_pools beast =
     [''auction_bid_v1'' \<mapsto> AuctionPool auction_New, ''plaintext_v1'' \<mapsto> PlaintextPool plaintext_New]
     ++ (if beast then [''private_v1'' \<mapsto> PrivatePool private_New] else Map.empty)"

lemma wired_main: "wired (NewContainer (main_pools beast))"
  by (auto simp: wired_def NewContainer_def main_pools_def plaintext_New_def auction_New_def private_New_def
      private_inv_def split: if_splits)

lemma wired_Add: "wired c \<Longrightarrow> wired (fst (snd (container_Add h now x c)))"
proof (cases "c_impl c (Type_of x)")
  case (Some pool)
  assume w: "wired c"
  obtain r pool' ms where add: "pool_Add h x pool = (r, pool', ms)" by (cases "pool_Add h x pool") auto
  have "pool_type pool' = Type_of x \<and> pool_inv pool'"
    using w Some pool_type_Add [of h x pool] pool_Add_inv [of pool h x] by (auto simp: wired_def add)
  with w show ?thesis by (auto simp: container_Add_def Some add Let_def wired_def)
qed (simp add: container_Add_def)

definition container_range :: "Container \<Rightarrow> string \<Rightarrow> string list \<Rightarrow> bool" where
  "container_range c t ks = (case c_impl c t of None \<Rightarrow> True | Some pool \<Rightarrow> pool_range pool ks)"

lemma GetAll_full: "GetAll ks t c = (case c_impl c t of None \<Rightarrow> [] | Some pool \<Rightarrow> pool_Get ks 0 pool)"
  if "container_range c t ks"
  using that pool_Len_0 by (auto simp: GetAll_def container_range_def Let_def pool_Get_full split: option.splits)

lemma GetAll_typed:
  "wired c \<Longrightarrow> container_range c t ks \<Longrightarrow> x \<in> set (GetAll ks t c) \<Longrightarrow> Type_of x = t \<and> Validate x"
  using pool_Get_typed by (fastforce simp: GetAll_full wired_def container_range_def split: option.splits)

lemma GetAll_mset:
  "container_range c t ks \<Longrightarrow> container_range c t ks' \<Longrightarrow> mset (GetAll ks t c) = mset (GetAll ks' t c)"
  using pool_Get_mset [of _ ks ks'] by (cases "c_impl c t") (auto simp: GetAll_full container_range_def)

section \<open>Properties\<close>

text \<open>
  a rejected payload still refreshes the arrival record of everything with its hash:
  re-submitting an old transaction (refused as an old nonce) renews its arrival time.
\<close>

theorem rejected_add_refreshes_arrival:
  "let h = (sha, False);
       c0 = NewContainer (main_pools False);
       x = Plaintext (demo_tx ''A'' 0 5);
       (r1, c1, m1) = container_Add h 0 x c0;
       (r2, c2, m2) = container_Add h 1000 x c1
   in r1 = Inr () \<and> r2 = Inl ''old nonce''
     \<and> map_option am_TS (Arrival sha x c1) = Some 0 \<and> map_option am_TS (Arrival sha x c2) = Some 1000"
  by (simp add: container_Add_def NewContainer_def main_pools_def Arrival_def pool_eval)

end
