(* ===== verification/Dfba.thy ===== *)
theory Dfba
  imports Payloads
begin

text \<open>
  \<^verbatim>\<open>internal/dfba/dfba.go\<close>: the dual-flow batch auction solver. Go's \<^verbatim>\<open>int\<close> is \<open>int\<close> here (the
  solver only compares and subtracts small counts), \<^verbatim>\<open>sort.SliceStable\<close> sorts a slice of the
  index map in place, so the index is passed on with the sorted slice in it.
\<close>

section \<open>Items and policy\<close>

record Item =
  it_Payload :: payload
  it_Type :: string
  it_Key :: u64
  it_Hash :: bytes

record dfba_policy =
  dp_Order :: "string list"
  dp_MaxN :: int
  dp_MinBid :: u64
  dp_MinFee :: u64
  dp_Window :: int
  dp_BatchTicks :: int

definition lessByKeyHash :: "Item \<Rightarrow> Item \<Rightarrow> bool" where
  "lessByKeyHash a b =
     (if it_Key a \<noteq> it_Key b then it_Key b < it_Key a
      else length (it_Hash a) = length (it_Hash b) \<and> bytes_less (it_Hash a) (it_Hash b))"

text \<open>The normalised limits of \<^verbatim>\<open>SolveDeterministic\<close>, shared with the builder.\<close>

definition eff_max :: "int \<Rightarrow> int" where
  "eff_max n = (if n \<le> 0 then 1024 else n)"

definition eff_window :: "int \<Rightarrow> int \<Rightarrow> int" where
  "eff_window w mx = (if w \<le> 0 \<or> mx < w then mx else w)"

lemma eff_bounds [simp]: "0 < eff_max n" "0 < mx \<Longrightarrow> 0 < eff_window w mx" "0 < mx \<Longrightarrow> eff_window w mx \<le> mx"
  by (auto simp: eff_max_def eff_window_def)

definition by_type :: "Item list \<Rightarrow> string \<Rightarrow> Item list" where
  "by_type items t = filter (\<lambda>i. it_Type i = t) items"

section \<open>Selection per type\<close>

text \<open>Take from a sorted slice as many items as the window and the cap still allow.\<close>

definition pick :: "int \<Rightarrow> int \<Rightarrow> Item list \<Rightarrow> Item list \<Rightarrow> Item list" where
  "pick mx window sel l =
     (let need = min (min window (mx - int (length sel))) (int (length l))
      in if 0 < need then sel @ take (nat need) l else sel)"

text \<open>\<^verbatim>\<open>selectPerType\<close>; \<open>sel\<close> is the selection so far, so \<^verbatim>\<open>remain\<close> is \<open>mx - length sel\<close>.\<close>

fun selectPerType :: "(string \<Rightarrow> Item list) \<Rightarrow> string list \<Rightarrow> int \<Rightarrow> int \<Rightarrow> Item list \<Rightarrow> Item list" where
  "selectPerType bt [] mx window sel = sel"
| "selectPerType bt (t # order) mx window sel =
     (if mx - int (length sel) \<le> 0 then sel
      else if bt t = [] then selectPerType bt order mx window sel
      else
        let l = slice_stable lessByKeyHash (bt t)
        in selectPerType (bt(t := l)) order mx window (pick mx window sel l))"

text \<open>The last loop of \<^verbatim>\<open>SolveDeterministic\<close>: the matched flows and the other types, by policy order.\<close>

fun assemble :: "Item list \<Rightarrow> Item list \<Rightarrow> (string \<Rightarrow> Item list) \<Rightarrow> string list \<Rightarrow> int \<Rightarrow> int \<Rightarrow> Item list \<Rightarrow> Item list" where
  "assemble bids users bt [] mx window sel = sel"
| "assemble bids users bt (t # order) mx window sel =
     (if t = ''auction_bid_v1'' then assemble bids users bt order mx window (sel @ bids)
      else if t = ''plaintext_v1'' then assemble bids users bt order mx window (sel @ users)
      else if bt t = [] then assemble bids users bt order mx window sel
      else
        let l = slice_stable lessByKeyHash (bt t)
        in assemble bids users (bt(t := l)) order mx window (pick mx window sel l))"

section \<open>The solver\<close>

definition solve_total :: "string \<Rightarrow> metric" where
  "solve_total r = Inc ''dfba_solve_total'' [(''result'', r)]"

definition dfba_bids :: "Item list \<Rightarrow> Item list" where
  "dfba_bids items = slice_stable lessByKeyHash (by_type items ''auction_bid_v1'')"

definition dfba_users :: "Item list \<Rightarrow> Item list" where
  "dfba_users items = slice_stable lessByKeyHash (by_type items ''plaintext_v1'')"

text \<open>The number of matched pairs.\<close>

definition match_size :: "Item list \<Rightarrow> int \<Rightarrow> int \<Rightarrow> int" where
  "match_size items mx window =
     min (min (min (int (length (dfba_bids items))) (int (length (dfba_users items)))) window) (mx div 2)"

definition clearing_price :: "Item list \<Rightarrow> Item list \<Rightarrow> nat \<Rightarrow> u64" where
  "clearing_price bids users k = min (it_Key (bids ! (k - 1))) (it_Key (users ! (k - 1)))"

definition match_metrics :: "Item list \<Rightarrow> Item list \<Rightarrow> nat \<Rightarrow> metric list" where
  "match_metrics bids users k =
     (let cp = clearing_price bids users k in
      (if 0 < cp then [SetGauge ''dfba_clearing_price'' [] (min (uint cp) (2 ^ 63 - 1))] else [])
      @ concat (replicate k [Inc ''dfba_accepted_total'' [(''flow'', ''solver'')],
                             Inc ''dfba_accepted_total'' [(''flow'', ''user'')]])
      @ replicate (length bids - k) (Inc ''dfba_rejected_total'' [(''flow'', ''solver''), (''reason'', ''no_pair'')])
      @ replicate (length users - k) (Inc ''dfba_rejected_total'' [(''flow'', ''user''), (''reason'', ''no_pair'')]))"

text \<open>\<open>ms\<close> is the measured time of the deferred summary.\<close>

definition SolveDeterministic :: "nat \<Rightarrow> Item list \<Rightarrow> dfba_policy \<Rightarrow> Item list \<times> metric list" where
  "SolveDeterministic ms items pol =
     (let mx = eff_max (dp_MaxN pol);
          window = eff_window (dp_Window pol) mx;
          bt = by_type items;
          bids = dfba_bids items; users = dfba_users items;
          k = match_size items mx window;
          timing = [ObserveSummary ''dfba_solve_ms'' [] ms]
      in
      if bt ''auction_bid_v1'' = [] \<or> bt ''plaintext_v1'' = [] \<or> mx div 2 \<le> 0 \<or> k \<le> 0 then
        (selectPerType bt (dp_Order pol) mx window [], solve_total ''fallback'' # timing)
      else
        (assemble (take (nat k) bids) (take (nat k) users) bt (dp_Order pol) mx window [],
         match_metrics bids users (nat k) @ solve_total ''ok'' # timing))"

abbreviation dfba_selected :: "Item list \<Rightarrow> dfba_policy \<Rightarrow> Item list" where
  "dfba_selected items pol \<equiv> fst (SolveDeterministic 0 items pol)"

section \<open>The comparison is a strict weak order on items with hashes of one length\<close>

definition hashed :: "nat \<Rightarrow> Item set" where
  "hashed n = {i. length (it_Hash i) = n}"

interpretation dfba_order: weak_order "hashed n" lessByKeyHash for n
proof unfold_locales
  fix x y
  assume "x \<in> hashed n" "y \<in> hashed n" "lessByKeyHash x y"
  then show "\<not> lessByKeyHash y x"
    by (auto simp: lessByKeyHash_def dest: bytes_less_asym split: if_splits)
next
  fix x y z
  assume "x \<in> hashed n" "y \<in> hashed n" "z \<in> hashed n" "lessByKeyHash x z"
  then show "lessByKeyHash x y \<or> lessByKeyHash y z"
    using bytes_less_negtrans [of "it_Hash x" "it_Hash z" "it_Hash y"]
    by (auto simp: lessByKeyHash_def hashed_def split: if_splits)
qed

lemma slice_stable_hashed [simp]:
  "set xs \<subseteq> hashed n \<Longrightarrow> slice_stable lessByKeyHash (slice_stable lessByKeyHash xs) = slice_stable lessByKeyHash xs"
  using dfba_order.sorted_slice_stable by (intro slice_stable_id) blast

lemma less_key: "\<not> lessByKeyHash b a \<Longrightarrow> it_Key b \<le> it_Key a"
  by (auto simp: lessByKeyHash_def split: if_splits)

section \<open>Selections come from the items and respect the cap\<close>

lemma set_by_type: "i \<in> set (by_type items t) \<longleftrightarrow> i \<in> set items \<and> it_Type i = t"
  by (auto simp: by_type_def)

lemma pick_length: "int (length sel) \<le> mx \<Longrightarrow> int (length (pick mx window sel l)) \<le> mx"
  by (auto simp: pick_def Let_def)

lemma pick_set: "i \<in> set (pick mx window sel l) \<Longrightarrow> i \<in> set sel \<or> i \<in> set l"
  by (auto simp: pick_def Let_def split: if_splits dest: in_set_takeD)

lemma selectPerType_length:
  "int (length sel) \<le> mx \<Longrightarrow> int (length (selectPerType bt order mx window sel)) \<le> mx"
proof (induction order arbitrary: bt sel)
  case (Cons t order)
  let ?l = "slice_stable lessByKeyHash (bt t)"
  from Cons.IH [OF Cons.prems, of bt] Cons.IH [OF pick_length [OF Cons.prems, of window ?l], of "bt(t := ?l)"] Cons.prems
  show ?case by (simp add: Let_def del: fun_upd_apply)
qed simp

lemma selectPerType_set:
  "i \<in> set (selectPerType bt order mx window sel) \<Longrightarrow> i \<in> set sel \<or> (\<exists>t \<in> set order. i \<in> set (bt t))"
proof (induction order arbitrary: bt sel)
  case (Cons t order)
  let ?l = "slice_stable lessByKeyHash (bt t)"
  consider "i \<in> set sel" | "i \<in> set (selectPerType bt order mx window sel)"
    | "i \<in> set (selectPerType (bt(t := ?l)) order mx window (pick mx window sel ?l))"
    using Cons.prems by (simp add: Let_def del: fun_upd_apply split: if_splits)
  then show ?case
  proof cases
    case 3
    from Cons.IH [OF this] show ?thesis by (auto dest: pick_set split: if_splits)
  qed (use Cons.IH in auto)
qed simp

lemma assemble_set:
  "i \<in> set (assemble bids users bt order mx window sel) \<Longrightarrow>
     i \<in> set sel \<or> i \<in> set bids \<or> i \<in> set users \<or> (\<exists>t \<in> set order. i \<in> set (bt t))"
proof (induction order arbitrary: bt sel)
  case (Cons t order)
  let ?l = "slice_stable lessByKeyHash (bt t)"
  consider xs where "i \<in> set (assemble bids users bt order mx window (sel @ xs))" "set xs \<subseteq> set bids \<union> set users"
    | "i \<in> set (assemble bids users (bt(t := ?l)) order mx window (pick mx window sel ?l))"
    using Cons.prems append_Nil2 [of sel]
    by (simp add: Let_def del: fun_upd_apply append_Nil2 split: if_splits)
       (metis Un_upper1 Un_upper2 append_Nil2 empty_subsetI list.set(1))+
  then show ?case
  proof cases
    case 1
    from Cons.IH [OF 1(1)] 1(2) show ?thesis by auto
  next
    case 2
    from Cons.IH [OF this] show ?thesis by (auto dest: pick_set split: if_splits)
  qed
qed simp

text \<open>With the two flows only, in a policy that names each at most once.\<close>

lemma assemble_flows:
  assumes "set order \<subseteq> {''auction_bid_v1'', ''plaintext_v1''}" and "distinct order"
  shows "length (assemble bids users bt order mx window sel) \<le> length sel + length bids + length users"
proof -
  from assms consider "order = []" | "order = [''auction_bid_v1'']" | "order = [''plaintext_v1'']"
    | "order = [''auction_bid_v1'', ''plaintext_v1'']" | "order = [''plaintext_v1'', ''auction_bid_v1'']"
  proof (cases order)
    case (Cons a xs)
    with assms that show ?thesis by (cases xs; cases "tl xs") auto
  qed
  then show ?thesis by cases simp_all
qed

section \<open>Permuting the items\<close>

definition same_up_to_order :: "nat \<Rightarrow> (string \<Rightarrow> Item list) \<Rightarrow> (string \<Rightarrow> Item list) \<Rightarrow> bool" where
  "same_up_to_order n bt bt' \<longleftrightarrow> (\<forall>t. mset (bt t) = mset (bt' t) \<and> set (bt t) \<subseteq> hashed n
     \<and> (\<forall>a \<in> set (bt t). \<forall>b \<in> set (bt t). \<not> lessByKeyHash a b \<longrightarrow> \<not> lessByKeyHash b a \<longrightarrow> a = b))"

lemma same_sorted: "same_up_to_order n bt bt' \<Longrightarrow>
    slice_stable lessByKeyHash (bt t) = slice_stable lessByKeyHash (bt' t)"
  unfolding same_up_to_order_def by (blast intro: dfba_order.slice_stable_permute)

lemma same_update: "same_up_to_order n bt bt' \<Longrightarrow>
    same_up_to_order n (bt(t := slice_stable lessByKeyHash (bt t))) (bt'(t := slice_stable lessByKeyHash (bt' t)))"
  by (auto simp: same_up_to_order_def)

lemma same_empty: "same_up_to_order n bt bt' \<Longrightarrow> bt t = [] \<longleftrightarrow> bt' t = []"
  by (metis mset_zero_iff same_up_to_order_def)

lemma selectPerType_same:
  "same_up_to_order n bt bt' \<Longrightarrow> selectPerType bt order mx window sel = selectPerType bt' order mx window sel"
proof (induction order arbitrary: bt bt' sel)
  case (Cons t order)
  from Cons.IH [OF Cons.prems] Cons.IH [OF same_update [OF Cons.prems]] show ?case
    by (simp add: Let_def same_empty [OF Cons.prems] same_sorted [OF Cons.prems] del: fun_upd_apply)
qed simp

lemma assemble_same:
  "same_up_to_order n bt bt' \<Longrightarrow>
     assemble bids users bt order mx window sel = assemble bids users bt' order mx window sel"
proof (induction order arbitrary: bt bt' sel)
  case (Cons t order)
  from Cons.IH [OF Cons.prems] Cons.IH [OF same_update [OF Cons.prems]] show ?case
    by (simp add: Let_def same_empty [OF Cons.prems] same_sorted [OF Cons.prems] del: fun_upd_apply)
qed simp

section \<open>The matched flows\<close>

lemma pick_filter: "\<forall>i \<in> set l. \<not> P i \<Longrightarrow> filter P (pick mx window sel l) = filter P sel"
  by (auto simp: pick_def Let_def filter_empty_conv dest: in_set_takeD)

lemma assemble_flow:
  assumes "\<forall>t. \<forall>i \<in> set (bt t). it_Type i = t" and "distinct order"
    and "\<forall>i \<in> set bids. it_Type i = ''auction_bid_v1''" and "\<forall>i \<in> set users. it_Type i = ''plaintext_v1''"
    and "ty = ''auction_bid_v1'' \<and> flow = bids \<or> ty = ''plaintext_v1'' \<and> flow = users"
  shows "filter (\<lambda>i. it_Type i = ty) (assemble bids users bt order mx window sel) =
    filter (\<lambda>i. it_Type i = ty) sel @ (if ty \<in> set order then flow else [])"
  using assms(1,2)
proof (induction order arbitrary: bt sel)
  case (Cons t order)
  let ?P = "\<lambda>i. it_Type i = ty" and ?l = "slice_stable lessByKeyHash (bt t)"
  have flows: "filter ?P bids = (if ty = ''auction_bid_v1'' then flow else [])"
    "filter ?P users = (if ty = ''plaintext_v1'' then flow else [])"
    using assms(3,4,5) by (auto simp: filter_id_conv filter_empty_conv)
  have bt': "\<forall>u. \<forall>i \<in> set ((bt(t := ?l)) u). it_Type i = u" using Cons.prems(1) by simp
  have pick: "t \<noteq> ty \<Longrightarrow> filter ?P (pick mx window sel ?l) = filter ?P sel"
    using Cons.prems(1) by (intro pick_filter) auto
  have tys: "ty = ''auction_bid_v1'' \<or> ty = ''plaintext_v1''" using assms(5) by blast
  have dist: "distinct order" "t \<notin> set order" using Cons.prems(2) by simp_all
  note IH = Cons.IH [OF Cons.prems(1) dist(1)] Cons.IH [OF bt' dist(1)]
  consider "t = ''auction_bid_v1''" | "t = ''plaintext_v1''" | "t \<noteq> ''auction_bid_v1''" "t \<noteq> ''plaintext_v1''"
    by blast
  then show ?case
  proof cases
    case 1
    with tys dist(2) flows IH(1) show ?thesis by (cases "ty = t") simp_all
  next
    case 2
    with tys dist(2) flows IH(1) show ?thesis by (cases "ty = t") simp_all
  next
    case 3
    then have ne: "t \<noteq> ty" "ty \<noteq> t" using tys by auto
    show ?thesis
    proof (cases "bt t = []")
      case True
      with 3 ne IH(1) show ?thesis by simp
    next
      case False
      then have "assemble bids users bt (t # order) mx window sel =
          assemble bids users (bt(t := ?l)) order mx window (pick mx window sel ?l)"
        using 3 by (simp only: assemble.simps Let_def if_False)
      with ne IH(2) pick show ?thesis by (simp del: assemble.simps fun_upd_apply)
    qed
  qed
qed simp

lemma by_type_assemble:
  assumes "\<forall>t. \<forall>i \<in> set (bt t). it_Type i = t" and "distinct order"
    and "\<forall>i \<in> set bids. it_Type i = ''auction_bid_v1''" and "\<forall>i \<in> set users. it_Type i = ''plaintext_v1''"
    and "{''auction_bid_v1'', ''plaintext_v1''} \<subseteq> set order"
  shows "by_type (assemble bids users bt order mx window []) ''auction_bid_v1'' = bids"
    and "by_type (assemble bids users bt order mx window []) ''plaintext_v1'' = users"
  using assemble_flow [OF assms(1,2,3,4), of "''auction_bid_v1''" bids mx window "[]"]
    assemble_flow [OF assms(1,2,3,4), of "''plaintext_v1''" users mx window "[]"] assms(5)
  by (simp_all add: by_type_def)

lemma dfba_flow_types:
  "\<forall>i \<in> set (take k (dfba_bids items)). it_Type i = ''auction_bid_v1''"
  "\<forall>i \<in> set (take k (dfba_users items)). it_Type i = ''plaintext_v1''"
  "\<forall>t. \<forall>i \<in> set (by_type items t). it_Type i = t"
  by (auto simp: dfba_bids_def dfba_users_def set_by_type dest!: in_set_takeD)

lemma dfba_flow_best:
  assumes "set items \<subseteq> hashed n" and "flow = dfba_bids items \<or> flow = dfba_users items"
    and "x \<in> set (take k flow)" and "y \<in> set (drop k flow)"
  shows "it_Key y \<le> it_Key x"
proof -
  obtain t where flow: "flow = slice_stable lessByKeyHash (by_type items t)"
    using assms(2) by (auto simp: dfba_bids_def dfba_users_def)
  have "set (by_type items t) \<subseteq> hashed n" using assms(1) by (auto simp: by_type_def)
  from dfba_order.take_best [OF this] assms(3,4) flow show ?thesis by (auto intro: less_key)
qed

lemma dfba_flow_sorted:
  assumes "set items \<subseteq> hashed n" and "flow = dfba_bids items \<or> flow = dfba_users items"
  shows "sorted_wrt (\<lambda>a b. it_Key b \<le> it_Key a) flow"
proof -
  obtain t where flow: "flow = slice_stable lessByKeyHash (by_type items t)"
    using assms(2) by (auto simp: dfba_bids_def dfba_users_def)
  have "set (by_type items t) \<subseteq> hashed n" using assms(1) by (auto simp: by_type_def)
  from dfba_order.sorted_slice_stable [OF this] show ?thesis
    unfolding flow by (rule sorted_wrt_mono_rel [rotated]) (blast intro: less_key)
qed

text \<open>When both flows have items and the cap leaves room for a pair, the solver matches.\<close>

lemma dfba_solved:
  assumes "by_type items ''auction_bid_v1'' \<noteq> []" and "by_type items ''plaintext_v1'' \<noteq> []"
    and "2 \<le> eff_max (dp_MaxN pol)" and "mx = eff_max (dp_MaxN pol)" and "w = eff_window (dp_Window pol) mx"
    and "k = nat (match_size items mx w)"
  shows "SolveDeterministic ms items pol =
    (assemble (take k (dfba_bids items)) (take k (dfba_users items)) (by_type items) (dp_Order pol) mx w [],
     match_metrics (dfba_bids items) (dfba_users items) k @ [solve_total ''ok'', ObserveSummary ''dfba_solve_ms'' [] ms])"
    and "1 \<le> k" and "k \<le> length (dfba_bids items)" and "k \<le> length (dfba_users items)" and "2 * int k \<le> mx"
    and "int k \<le> w"
proof -
  have len: "length (dfba_bids items) = length (by_type items ''auction_bid_v1'')"
    "length (dfba_users items) = length (by_type items ''plaintext_v1'')"
    by (simp_all add: dfba_bids_def dfba_users_def)
  have "0 < w" "1 \<le> mx div 2" using assms(3,4,5) by (simp_all add: eff_bounds)
  then have k: "1 \<le> match_size items mx w" using assms(1,2) len by (auto simp: match_size_def Suc_le_eq)
  then show "1 \<le> k" using assms(6) by simp
  have ik: "int k = match_size items mx w" using assms(6) k by simp
  have "match_size items mx w \<le> int (length (dfba_bids items))"
    "match_size items mx w \<le> int (length (dfba_users items))"
    "match_size items mx w \<le> w" "match_size items mx w \<le> mx div 2"
    by (auto simp: match_size_def)
  with ik show "k \<le> length (dfba_bids items)" "k \<le> length (dfba_users items)" "int k \<le> w" by linarith+
  have "int k \<le> mx div 2" using ik \<open>match_size items mx w \<le> mx div 2\<close> by simp
  then show "2 * int k \<le> mx" by linarith
  show "SolveDeterministic ms items pol =
    (assemble (take k (dfba_bids items)) (take k (dfba_users items)) (by_type items) (dp_Order pol) mx w [],
     match_metrics (dfba_bids items) (dfba_users items) k @ [solve_total ''ok'', ObserveSummary ''dfba_solve_ms'' [] ms])"
    using assms k \<open>1 \<le> mx div 2\<close> by (simp add: SolveDeterministic_def Let_def)
qed

section \<open>Properties\<close>


text \<open>
  with the two flows in the policy order and nothing else, and in every fallback, the
  selection has at most \<^verbatim>\<open>MaxN\<close> items, and all of them are items of the input.
\<close>

theorem dfba_cap:
  assumes "set (dp_Order pol) \<subseteq> {''auction_bid_v1'', ''plaintext_v1''}" and "distinct (dp_Order pol)"
  shows "int (length (dfba_selected items pol)) \<le> eff_max (dp_MaxN pol)
    \<and> set (dfba_selected items pol) \<subseteq> set items"
proof -
  let ?mx = "eff_max (dp_MaxN pol)"
  let ?w = "eff_window (dp_Window pol) ?mx"
  let ?k = "nat (match_size items ?mx ?w)"
  have sub: "set (take ?k (dfba_bids items)) \<subseteq> set items" "set (take ?k (dfba_users items)) \<subseteq> set items"
    by (auto simp: dfba_bids_def dfba_users_def set_by_type dest!: in_set_takeD)
  consider (fallback) "dfba_selected items pol = selectPerType (by_type items) (dp_Order pol) ?mx ?w []"
    | (solved) "dfba_selected items pol = assemble (take ?k (dfba_bids items)) (take ?k (dfba_users items))
        (by_type items) (dp_Order pol) ?mx ?w []" "2 * int ?k \<le> ?mx"
  proof (cases "by_type items ''auction_bid_v1'' = [] \<or> by_type items ''plaintext_v1'' = [] \<or> ?mx < 2")
    case True
    then have "by_type items ''auction_bid_v1'' = [] \<or> by_type items ''plaintext_v1'' = [] \<or> ?mx div 2 \<le> 0"
      by auto
    then show ?thesis by (intro that(1)) (auto simp: SolveDeterministic_def Let_def)
  next
    case False
    then show ?thesis
      using dfba_solved(1,5) [of items pol ?mx ?w ?k] by (intro that(2)) auto
  qed
  then show ?thesis
  proof cases
    case fallback
    then show ?thesis
      using selectPerType_length [of "[]" ?mx "by_type items" "dp_Order pol" ?w] eff_bounds(1) [of "dp_MaxN pol"]
        selectPerType_set [of _ "by_type items" "dp_Order pol" ?mx ?w "[]"]
      by (auto simp: set_by_type less_imp_le)
  next
    case solved
    have "length (dfba_selected items pol) \<le>
        length ([] :: Item list) + length (take ?k (dfba_bids items)) + length (take ?k (dfba_users items))"
      unfolding solved(1) by (rule assemble_flows [OF assms])
    also have "\<dots> \<le> 0 + ?k + ?k" by (intro add_mono) simp_all
    finally have "length (dfba_selected items pol) \<le> 0 + ?k + ?k" .
    moreover have "set (dfba_selected items pol) \<subseteq> set items"
      using assemble_set [of _ "take ?k (dfba_bids items)" "take ?k (dfba_users items)" "by_type items" "dp_Order pol" ?mx ?w "[]"] sub
      unfolding solved(1) by (auto simp: set_by_type)
    ultimately show ?thesis using solved(2) by linarith
  qed
qed

lemma solve_permuted:
  assumes "mset items = mset items'" and "set items \<subseteq> hashed n"
    and "\<forall>a \<in> set items. \<forall>b \<in> set items. it_Key a = it_Key b \<longrightarrow> it_Hash a = it_Hash b \<longrightarrow> a = b"
  shows "SolveDeterministic ms items pol = SolveDeterministic ms items' pol"
proof -
  have anti: "a = b" if "a \<in> set items" "b \<in> set items" "\<not> lessByKeyHash a b" "\<not> lessByKeyHash b a" for a b
  proof -
    have "it_Key a = it_Key b" using that(3,4) by (meson less_key order_antisym)
    moreover have "it_Hash a = it_Hash b"
      using that assms(2) calculation bytes_less_total by (auto simp: lessByKeyHash_def hashed_def)
    ultimately show ?thesis using assms(3) that(1,2) by blast
  qed
  have same: "same_up_to_order n (by_type items) (by_type items')"
    unfolding same_up_to_order_def
  proof (intro allI conjI ballI impI)
    fix t
    show "mset (by_type items t) = mset (by_type items' t)"
      using assms(1) by (simp add: by_type_def)
    show "set (by_type items t) \<subseteq> hashed n" using assms(2) by (auto simp: by_type_def)
    fix a b
    assume "a \<in> set (by_type items t)" "b \<in> set (by_type items t)" "\<not> lessByKeyHash a b" "\<not> lessByKeyHash b a"
    then show "a = b" using anti by (simp add: set_by_type)
  qed
  have "dfba_bids items = dfba_bids items'" "dfba_users items = dfba_users items'"
    using same_sorted [OF same] by (simp_all add: dfba_bids_def dfba_users_def)
  then show ?thesis
    unfolding SolveDeterministic_def Let_def match_size_def
    by (simp add: same_empty [OF same] selectPerType_same [OF same] assemble_same [OF same])
qed

text \<open>
  the selection does not depend on the order in which the items are given (the pools
  deliver them in map order), as long as items with equal key and hash are equal and the
  hashes have one length.
\<close>

theorem dfba_deterministic:
  assumes "mset items = mset items'" and "set items \<subseteq> hashed n"
    and "\<forall>a \<in> set items. \<forall>b \<in> set items. it_Key a = it_Key b \<longrightarrow> it_Hash a = it_Hash b \<longrightarrow> a = b"
  shows "SolveDeterministic ms items pol = SolveDeterministic ms items' pol"
  using assms by (rule solve_permuted)

definition demo_item :: "payload \<Rightarrow> string \<Rightarrow> u64 \<Rightarrow> byte \<Rightarrow> Item" where
  "demo_item x t k h = \<lparr>it_Payload = x, it_Type = t, it_Key = k, it_Hash = [h]\<rparr>"

definition demo_private :: payload where
  "demo_private = Private \<lparr>pv_From = ''A'', pv_Nonce = 0, pv_Ciphertext = [1], pv_EphemeralKey = [1],
     pv_TargetHeight = 1, pv_BatchIndex = 0, pv_PuncturedKey = []\<rparr>"

definition demo_items :: "Item list" where
  "demo_items = [demo_item demo_private ''auction_bid_v1'' 5 1, demo_item demo_private ''auction_bid_v1'' 7 2,
     demo_item demo_private ''plaintext_v1'' 3 3, demo_item demo_private ''private_v1'' 0 4,
     demo_item demo_private ''private_v1'' 0 5]"

definition demo_policy :: "string list \<Rightarrow> dfba_policy" where
  "demo_policy order = \<lparr>dp_Order = order, dp_MaxN = 2, dp_MinBid = 0, dp_MinFee = 0, dp_Window = 0, dp_BatchTicks = 0\<rparr>"

lemmas dfba_eval = SolveDeterministic_def demo_items_def demo_item_def demo_policy_def by_type_def dfba_bids_def
  dfba_users_def match_size_def lessByKeyHash_def eff_max_def eff_window_def pick_def Let_def

text \<open>
  the cap is exceeded when another type precedes the two flows in the policy order, as
  in the default order with BEAST enabled: the matched flows are appended without looking
  at the room that is left.
\<close>

theorem dfba_cap_exceeded:
  "length (dfba_selected demo_items (demo_policy [''private_v1'', ''auction_bid_v1'', ''plaintext_v1''])) = 4
   \<and> eff_max (dp_MaxN (demo_policy [''private_v1'', ''auction_bid_v1'', ''plaintext_v1''])) = 2"
  by (simp add: dfba_eval)


theorem dfba_cap_witness:
  "int (length (dfba_selected demo_items (demo_policy [''auction_bid_v1'', ''plaintext_v1'']))) \<le> 2"
  using dfba_cap [of "demo_policy [''auction_bid_v1'', ''plaintext_v1'']" demo_items]
  by (simp add: demo_policy_def eff_max_def)

theorem dfba_deterministic_witness:
  "SolveDeterministic 0 demo_items (demo_policy [''auction_bid_v1'']) =
   SolveDeterministic 0 (rev demo_items) (demo_policy [''auction_bid_v1''])"
  by (rule dfba_deterministic [of _ _ "Suc 0"]) (auto simp: demo_items_def demo_item_def hashed_def)

end
