(* ===== verification/Builder.thy ===== *)
theory Builder
  imports Container Dfba
begin

text \<open>
  \<^verbatim>\<open>internal/payload/builder.go\<close>, \<^verbatim>\<open>beast.go\<close> and \<^verbatim>\<open>standard_block.go\<close>, with the decrypters of
  \<^verbatim>\<open>private_v1\<close> that need no curve arithmetic. What a build sees of the outside is a record:
  SHA-256, the clock, the map iteration order of each pool read, the BEAST variable and the
  installed decrypter. Go's \<^verbatim>\<open>int\<close> is \<open>int\<close>; the one product that can leave 64 bits is wrapped.
\<close>

section \<open>Blocks, policy, decrypters\<close>

record BlockHeader =
  bh_Height :: u64
  bh_Round :: u64

record BlockStats =
  bs_TotalFees :: u64
  bs_TotalBids :: u64
  bs_Items :: int

record StandardBlock =
  sb_Header :: BlockHeader
  sb_Items :: "payload list"
  sb_Stats :: BlockStats

definition zero_BlockStats :: BlockStats where
  "zero_BlockStats = \<lparr>bs_TotalFees = 0, bs_TotalBids = 0, bs_Items = 0\<rparr>"

record BuilderPolicy =
  bp_Order :: "string list"
  bp_MaxN :: int
  bp_BudgetBytes :: int
  bp_MinBid :: u64
  bp_MinFee :: u64
  bp_Window :: int
  bp_BatchTicks :: int
  bp_UseDFBA :: bool

datatype decrypt_error = ErrPrivateInvalid | ErrPrivateEarly | ErrPrivateNotReady | ErrPrivateCipher
  | ErrPrivateEmpty | ErrPrivateDecode | ErrPrivateOther

text \<open>A decrypter returns an error or a payload; \<open>None\<close> is a nil payload without an error.\<close>

type_synonym decrypter = "BlockHeader \<Rightarrow> payload \<Rightarrow> decrypt_error + payload option"

definition noop_Decrypt :: decrypter where
  "noop_Decrypt h p = Inr (Some p)"

record jsonEnvelope =
  je_Type :: string
  je_From :: string
  je_Nonce :: u64
  je_Gas :: u64
  je_Fee :: u64
  je_Bid :: u64
  je_FeeRecipient :: string

text \<open>\<open>unjson\<close> is \<^verbatim>\<open>json.Unmarshal\<close> into the envelope.\<close>

definition decodeEnvelopeBytes :: "(bytes \<Rightarrow> jsonEnvelope option) \<Rightarrow> bytes \<Rightarrow> payload option" where
  "decodeEnvelopeBytes unjson b =
     (case unjson b of
        None \<Rightarrow> None
      | Some env \<Rightarrow>
          if je_Type env = [] \<or> je_Type env = ''plaintext_v1'' then
            Some (Plaintext \<lparr>pt_From = je_From env, pt_Nonce = je_Nonce env, pt_Gas = je_Gas env,
                    pt_Fee = je_Fee env, pt_Sig = []\<rparr>)
          else if je_Type env = ''auction_bid_v1'' then
            Some (Auction \<lparr>at_From = je_From env, at_Nonce = je_Nonce env, at_Gas = je_Gas env,
                    at_Bid = je_Bid env, at_FeeRecipient = je_FeeRecipient env, at_Sig = []\<rparr>)
          else None)"

definition json_Decrypt :: "(bytes \<Rightarrow> jsonEnvelope option) \<Rightarrow> decrypter" where
  "json_Decrypt unjson h p =
     (case p of
        Private tx \<Rightarrow>
          if pv_TargetHeight tx = 0 then Inl ErrPrivateInvalid
          else if bh_Height h < pv_TargetHeight tx then Inl ErrPrivateEarly
          else (case decodeEnvelopeBytes unjson (pv_Ciphertext tx) of
                  None \<Rightarrow> Inl ErrPrivateDecode | Some pl \<Rightarrow> Inr (Some pl))
      | _ \<Rightarrow> Inr (Some p))"

definition pending_Decrypt :: decrypter where
  "pending_Decrypt h p =
     (case p of
        Private tx \<Rightarrow>
          if pv_TargetHeight tx = 0 then Inl ErrPrivateInvalid
          else if bh_Height h < pv_TargetHeight tx then Inl ErrPrivateEarly
          else Inl ErrPrivateNotReady
      | _ \<Rightarrow> Inr (Some p))"

fun decrypt_label :: "decrypt_error \<Rightarrow> string" where
  "decrypt_label ErrPrivateEarly = ''early''"
| "decrypt_label ErrPrivateInvalid = ''invalid''"
| "decrypt_label ErrPrivateNotReady = ''not_ready''"
| "decrypt_label ErrPrivateCipher = ''cipher_error''"
| "decrypt_label ErrPrivateEmpty = ''empty''"
| "decrypt_label ErrPrivateDecode = ''decode_error''"
| "decrypt_label ErrPrivateOther = ''error''"

definition recordDecryptMetric :: "string \<Rightarrow> metric" where
  "recordDecryptMetric r = Inc ''beast_decrypt_total'' [(''result'', r)]"

fun decryptAndMapPrivate :: "decrypter \<Rightarrow> BlockHeader \<Rightarrow> payload list \<Rightarrow> payload list \<times> metric list" where
  "decryptAndMapPrivate D hdr [] = ([], [])"
| "decryptAndMapPrivate D hdr (p # ps) =
     (let (out, ms) = decryptAndMapPrivate D hdr ps in
      case D hdr p of
        Inl e \<Rightarrow> (out, recordDecryptMetric (decrypt_label e) # ms)
      | Inr None \<Rightarrow> (out, recordDecryptMetric ''error'' # ms)
      | Inr (Some dec) \<Rightarrow> (dec # out, recordDecryptMetric ''ok'' # ms))"

section \<open>Filters\<close>

record build_env =
  be_sha :: "bytes \<Rightarrow> bytes"
  be_now :: int
  be_rng :: "nat \<Rightarrow> string list"
  be_beast :: bool
  be_decrypt :: decrypter
  be_ms :: nat

definition belowThreshold :: "string \<Rightarrow> payload \<Rightarrow> BuilderPolicy \<Rightarrow> string" where
  "belowThreshold t p pol =
     (if t = ''auction_bid_v1'' then
        (if 0 < bp_MinBid pol \<and> SortKey p < bp_MinBid pol then ''below_min_bid'' else [])
      else if t = ''plaintext_v1'' then
        (if 0 < bp_MinFee pol \<and> SortKey p < bp_MinFee pol then ''below_min_fee'' else [])
      else [])"

text \<open>\<^verbatim>\<open>time.Duration(BatchTicks) * time.Millisecond\<close> in 64-bit nanoseconds.\<close>

definition windowDur :: "BuilderPolicy \<Rightarrow> int" where
  "windowDur pol = sint (word_of_int (bp_BatchTicks pol * 1000000) :: 64 word)"

definition late :: "(bytes \<Rightarrow> bytes) \<Rightarrow> Container \<Rightarrow> int \<Rightarrow> int \<Rightarrow> payload \<Rightarrow> bool" where
  "late sha c now dur p \<longleftrightarrow>
     0 < dur \<and> (case Arrival sha p c of None \<Rightarrow> False | Some m \<Rightarrow> am_TS m < now - dur)"

definition builder_reject :: "string \<Rightarrow> string \<Rightarrow> metric" where
  "builder_reject t reason = Inc ''builder_reject_total'' [(''type'', t), (''reason'', reason)]"

fun filterByWindowAndThreshold :: "(bytes \<Rightarrow> bytes) \<Rightarrow> Container \<Rightarrow> payload list \<Rightarrow> string \<Rightarrow> BuilderPolicy \<Rightarrow> int \<Rightarrow> int
    \<Rightarrow> payload list \<times> metric list" where
  "filterByWindowAndThreshold sha c [] t pol now dur = ([], [])"
| "filterByWindowAndThreshold sha c (p # ps) t pol now dur =
     (let (out, ms) = filterByWindowAndThreshold sha c ps t pol now dur in
      if late sha c now dur p then (out, builder_reject t ''late'' # ms)
      else if belowThreshold t p pol \<noteq> [] then (out, builder_reject t (belowThreshold t p pol) # ms)
      else (p # out, ms))"

lemma filter_is_filter:
  "fst (filterByWindowAndThreshold sha c ps t pol now dur) =
     filter (\<lambda>p. \<not> late sha c now dur p \<and> belowThreshold t p pol = []) ps"
  by (induction ps) (auto split: prod.splits)

section \<open>Selection\<close>

definition payload_less :: "(bytes \<Rightarrow> bytes) \<Rightarrow> payload \<Rightarrow> payload \<Rightarrow> bool" where
  "payload_less sha a b =
     (if SortKey a \<noteq> SortKey b then SortKey b < SortKey a else bytes_less (Hash sha a) (Hash sha b))"

definition takeDeterministic :: "(bytes \<Rightarrow> bytes) \<Rightarrow> payload list \<Rightarrow> int \<Rightarrow> int \<Rightarrow> payload list" where
  "takeDeterministic sha cands need budget =
     (let n = (if budget < need then budget else need);
          s = slice_stable (payload_less sha) cands
      in if n \<le> 0 \<or> int (length s) < n then s else take (nat n) s)"

definition candidates :: "build_env \<Rightarrow> Container \<Rightarrow> BlockHeader \<Rightarrow> BuilderPolicy \<Rightarrow> nat \<Rightarrow> string
    \<Rightarrow> payload list \<times> metric list" where
  "candidates env c hdr pol i t =
     (let (filtered, ms) = filterByWindowAndThreshold (be_sha env) c (GetAll (be_rng env i) t c) t pol
            (be_now env) (windowDur pol)
      in if t = ''private_v1'' \<and> be_beast env
         then (let (out, ms') = decryptAndMapPrivate (be_decrypt env) hdr filtered in (out, ms @ ms'))
         else (filtered, ms))"

text \<open>
  The loop of \<^verbatim>\<open>PrepareProposal\<close> over the order; \<open>i\<close> counts the pool reads, and \<^verbatim>\<open>remain\<close> is
  \<open>mx - length res\<close>.
\<close>

fun prepare_loop :: "build_env \<Rightarrow> Container \<Rightarrow> BlockHeader \<Rightarrow> BuilderPolicy \<Rightarrow> int \<Rightarrow> int \<Rightarrow> nat \<Rightarrow> string list
    \<Rightarrow> payload list \<Rightarrow> payload list \<times> metric list" where
  "prepare_loop env c hdr pol mx window i [] res = (res, [])"
| "prepare_loop env c hdr pol mx window i (t # order) res =
     (let remain = mx - int (length res) in
      if remain \<le> 0 then (res, [])
      else
        let need = min window remain;
            (cands, ms) = candidates env c hdr pol i t;
            selected = takeDeterministic (be_sha env) cands need remain;
            (out, ms') = prepare_loop env c hdr pol mx window (Suc i) order (res @ selected)
        in (out, ms @ replicate (length selected) (Inc ''builder_selected_total'' [(''type'', t)]) @ ms'))"

text \<open>The items handed to the solver.\<close>

fun dfba_items :: "build_env \<Rightarrow> Container \<Rightarrow> BlockHeader \<Rightarrow> BuilderPolicy \<Rightarrow> nat \<Rightarrow> string list
    \<Rightarrow> Item list \<times> metric list" where
  "dfba_items env c hdr pol i [] = ([], [])"
| "dfba_items env c hdr pol i (t # order) =
     (let (cands, ms) = candidates env c hdr pol i t;
          (items, ms') = dfba_items env c hdr pol (Suc i) order
      in (map (\<lambda>p. \<lparr>it_Payload = p, it_Type = t, it_Key = SortKey p, it_Hash = Hash (be_sha env) p\<rparr>) cands @ items,
          ms @ ms'))"

definition prepareProposalDFBA :: "build_env \<Rightarrow> Container \<Rightarrow> BlockHeader \<Rightarrow> BuilderPolicy
    \<Rightarrow> StandardBlock \<times> metric list" where
  "prepareProposalDFBA env c hdr pol =
     (let mx = eff_max (bp_MaxN pol); window = eff_window (bp_Window pol) mx;
          (items, ms) = dfba_items env c hdr pol 0 (bp_Order pol);
          (out, ms') = SolveDeterministic (be_ms env) items
             \<lparr>dp_Order = bp_Order pol, dp_MaxN = mx, dp_MinBid = bp_MinBid pol, dp_MinFee = bp_MinFee pol,
              dp_Window = window, dp_BatchTicks = bp_BatchTicks pol\<rparr>;
          chosen = it_Hash ` set out
      in (\<lparr>sb_Header = hdr, sb_Items = map it_Payload out, sb_Stats = zero_BlockStats\<rparr>,
          ms @ ms' @ map (\<lambda>it. Inc ''builder_selected_total'' [(''type'', it_Type it)]) out
          @ map (\<lambda>it. builder_reject (it_Type it) ''dfba_no_match'') (filter (\<lambda>it. it_Hash it \<notin> chosen) items)))"

definition PrepareProposal :: "build_env \<Rightarrow> Container \<Rightarrow> BlockHeader \<Rightarrow> BuilderPolicy
    \<Rightarrow> StandardBlock \<times> metric list" where
  "PrepareProposal env c hdr pol =
     (if bp_UseDFBA pol then prepareProposalDFBA env c hdr pol
      else
        let mx = eff_max (bp_MaxN pol); window = eff_window (bp_Window pol) mx;
            (res, ms) = prepare_loop env c hdr pol mx window 0 (bp_Order pol) []
        in (\<lparr>sb_Header = hdr, sb_Items = res, sb_Stats = zero_BlockStats\<rparr>, ms))"

section \<open>Checking a block\<close>

datatype proposal_error = UnexpectedType string | PriorityViolated | SortKeyIncreases string

text \<open>The priority map: the last position of a type in the order.\<close>

definition pri_map :: "string list \<Rightarrow> string \<rightharpoonup> nat" where
  "pri_map order = fold (\<lambda>(i, t) m. m(t \<mapsto> i)) (zip [0..<length order] order) Map.empty"

fun check_items :: "(string \<rightharpoonup> nat) \<Rightarrow> int \<Rightarrow> (string \<rightharpoonup> u64) \<Rightarrow> payload list \<Rightarrow> proposal_error + unit" where
  "check_items pri lastPri lastKey [] = Inr ()"
| "check_items pri lastPri lastKey (it # items) =
     (let t = Type_of it in
      case pri t of
        None \<Rightarrow> Inl (UnexpectedType t)
      | Some p \<Rightarrow>
          if int p < lastPri then Inl PriorityViolated
          else if (case lastKey t of None \<Rightarrow> False | Some prev \<Rightarrow> prev < SortKey it) then Inl (SortKeyIncreases t)
          else check_items pri (if lastPri < int p then int p else lastPri) (lastKey(t \<mapsto> SortKey it)) items)"

definition ProcessProposal :: "StandardBlock \<Rightarrow> BuilderPolicy \<Rightarrow> proposal_error + unit" where
  "ProcessProposal b pol =
     (if bp_Order pol = [] then Inr () else check_items (pri_map (bp_Order pol)) (-1) Map.empty (sb_Items b))"

section \<open>What ProcessProposal accepts\<close>

definition keys_desc :: "payload list \<Rightarrow> bool" where
  "keys_desc xs \<longleftrightarrow> sorted_wrt (\<lambda>a b. SortKey b \<le> SortKey a) xs"

definition of_type :: "string \<Rightarrow> payload list \<Rightarrow> payload list" where
  "of_type t xs = filter (\<lambda>x. Type_of x = t) xs"

text \<open>The rules of the comment: allowed types, priority order, non-increasing keys per type.\<close>

definition proposal_ok :: "(string \<rightharpoonup> nat) \<Rightarrow> payload list \<Rightarrow> bool" where
  "proposal_ok pri items \<longleftrightarrow>
     (\<forall>x \<in> set items. pri (Type_of x) \<noteq> None)
     \<and> sorted (map (\<lambda>x. the (pri (Type_of x))) items)
     \<and> (\<forall>t. keys_desc (of_type t items))"

lemma check_items_iff:
  "is_ok (check_items pri lp lk items) \<longleftrightarrow>
     proposal_ok pri items
     \<and> (\<forall>x \<in> set items. lp \<le> int (the (pri (Type_of x))))
     \<and> (\<forall>x \<in> set items. \<forall>prev. lk (Type_of x) = Some prev \<longrightarrow> SortKey x \<le> prev)"
proof (induction pri lp lk items rule: check_items.induct)
  case (1 pri lp lk)
  show ?case by (simp add: proposal_ok_def keys_desc_def of_type_def is_ok_def)
next
  case (2 pri lp lk it items)
  let ?t = "Type_of it"
  show ?case
  proof (cases "pri ?t")
    case None
    then show ?thesis by (auto simp: proposal_ok_def is_ok_def)
  next
    case (Some p)
    show ?thesis
    proof (cases "int p < lp \<or> (case lk ?t of None \<Rightarrow> False | Some prev \<Rightarrow> prev < SortKey it)")
      case True
      then have "\<not> is_ok (check_items pri lp lk (it # items))"
        using Some by (auto simp: is_ok_def Let_def)
      moreover have "\<not> (lp \<le> int (the (pri ?t)) \<and> (\<forall>prev. lk ?t = Some prev \<longrightarrow> SortKey it \<le> prev))"
        using True Some by (auto split: option.splits)
      ultimately show ?thesis by auto
    next
      case False
      let ?lp = "if lp < int p then int p else lp"
      have step: "check_items pri lp lk (it # items) = check_items pri ?lp (lk(?t \<mapsto> SortKey it)) items"
        using False Some by (simp add: Let_def)
      have IH: "is_ok (check_items pri ?lp (lk(?t \<mapsto> SortKey it)) items) \<longleftrightarrow>
          proposal_ok pri items
          \<and> (\<forall>x \<in> set items. ?lp \<le> int (the (pri (Type_of x))))
          \<and> (\<forall>x \<in> set items. \<forall>prev. (lk(?t \<mapsto> SortKey it)) (Type_of x) = Some prev \<longrightarrow> SortKey x \<le> prev)"
        by (rule "2.IH" [OF refl Some]) (use False in blast)+
      have cons: "proposal_ok pri (it # items) \<longleftrightarrow> proposal_ok pri items
          \<and> (\<forall>x \<in> set items. p \<le> the (pri (Type_of x)))
          \<and> (\<forall>x \<in> set items. Type_of x = ?t \<longrightarrow> SortKey x \<le> SortKey it)"
        using Some by (auto simp: proposal_ok_def keys_desc_def of_type_def)
      have here: "lp \<le> int p" "\<And>prev. lk ?t = Some prev \<Longrightarrow> SortKey it \<le> prev"
        using False by (auto split: option.splits)
      show ?thesis unfolding step IH cons
        using here Some by (auto split: if_splits)
    qed
  qed
qed

lemma ProcessProposal_iff:
  "is_ok (ProcessProposal b pol) \<longleftrightarrow> bp_Order pol = [] \<or> proposal_ok (pri_map (bp_Order pol)) (sb_Items b)"
  by (auto simp: ProcessProposal_def check_items_iff)

lemma pri_map_snoc: "pri_map (order @ [t]) = (pri_map order)(t \<mapsto> length order)"
  by (simp add: pri_map_def)

lemma pri_map_distinct: "distinct order \<Longrightarrow> i < length order \<Longrightarrow> pri_map order (order ! i) = Some i"
proof (induction order rule: rev_induct)
  case (snoc t order)
  then show ?case by (auto simp: pri_map_snoc nth_append in_set_conv_nth less_Suc_eq)
qed simp

lemma dom_pri_map: "dom (pri_map order) = set order"
proof (induction order rule: rev_induct)
  case (snoc t order)
  then show ?case by (auto simp: pri_map_snoc dom_def)
qed (simp add: pri_map_def)

section \<open>Blocks laid out by the policy order\<close>

text \<open>\<open>grouped order out\<close>: one group per type of the order, each of its type and sorted by key.\<close>

definition group_ok :: "string \<Rightarrow> payload list \<Rightarrow> bool" where
  "group_ok t g \<longleftrightarrow> (\<forall>x \<in> set g. Type_of x = t) \<and> keys_desc g"

inductive grouped :: "string list \<Rightarrow> payload list \<Rightarrow> bool" where
  Nil: "grouped [] []"
| Cons: "group_ok t g \<Longrightarrow> grouped order out \<Longrightarrow> grouped (t # order) (g @ out)"

inductive_cases grouped_ConsE: "grouped (t # order) out"

lemma grouped_empty: "grouped order []"
proof (induction order)
  case (Cons t order)
  have "group_ok t []" by (simp add: group_ok_def keys_desc_def)
  from grouped.Cons [OF this Cons] show ?case by simp
qed (rule grouped.Nil)

lemma grouped_types: "grouped order out \<Longrightarrow> x \<in> set out \<Longrightarrow> Type_of x \<in> set order"
  by (induction rule: grouped.induct) (auto simp: group_ok_def)

lemma of_type_group: "group_ok t g \<Longrightarrow> of_type u g = (if u = t then g else [])"
  by (auto simp: of_type_def group_ok_def filter_id_conv filter_empty_conv)

lemma grouped_keys: "grouped order out \<Longrightarrow> distinct order \<Longrightarrow> keys_desc (of_type u out)"
proof (induction rule: grouped.induct)
  case (Cons t g order out)
  show ?case
  proof (cases "u = t")
    case True
    then have "of_type u out = []"
      using Cons.prems grouped_types [OF Cons.hyps(2)] by (auto simp: of_type_def filter_empty_conv)
    with True Cons.hyps(1) show ?thesis
      by (simp add: of_type_def group_ok_def)
  next
    case False
    with Cons of_type_group [OF Cons.hyps(1), of u] show ?thesis by (simp add: of_type_def)
  qed
qed (simp add: of_type_def keys_desc_def)

lemma grouped_priorities:
  "grouped order out \<Longrightarrow> (\<And>i. i < length order \<Longrightarrow> pri (order ! i) = Some (k + i)) \<Longrightarrow>
     sorted (map (\<lambda>x. the (pri (Type_of x))) out) \<and> (\<forall>x \<in> set out. k \<le> the (pri (Type_of x)))"
proof (induction arbitrary: k rule: grouped.induct)
  case (Cons t g order out)
  have head: "the (pri (Type_of x)) = k" if "x \<in> set g" for x
    using that Cons.hyps(1) Cons.prems [of 0] by (simp add: group_ok_def)
  have "pri (order ! i) = Some (Suc k + i)" if "i < length order" for i
    using Cons.prems [of "Suc i"] that by simp
  from Cons.IH [OF this] have tail: "sorted (map (\<lambda>x. the (pri (Type_of x))) out)"
    "\<forall>x \<in> set out. Suc k \<le> the (pri (Type_of x))" by blast+
  have "sorted (map (\<lambda>x. the (pri (Type_of x))) g)"
    using head by (simp add: sorted_wrt_map sorted_wrt_iff_nth_less)
  with head tail show ?case by (auto simp: sorted_append intro: Suc_leD)
qed simp

lemma grouped_accepted:
  assumes "grouped order out" and "distinct order"
  shows "proposal_ok (pri_map order) out"
  unfolding proposal_ok_def
proof (intro conjI ballI allI)
  fix x assume "x \<in> set out"
  then have "Type_of x \<in> dom (pri_map order)" using grouped_types [OF assms(1)] by (simp add: dom_pri_map)
  then show "pri_map order (Type_of x) \<noteq> None" by blast
next
  show "sorted (map (\<lambda>x. the (pri_map order (Type_of x))) out)"
    using grouped_priorities [OF assms(1), of "pri_map order" 0] pri_map_distinct [OF assms(2)] by simp
next
  fix t show "keys_desc (of_type t out)" by (rule grouped_keys [OF assms])
qed

section \<open>Selection from one type\<close>

interpretation pl_order: weak_order UNIV "payload_less sha" for sha
proof unfold_locales
  fix x y
  show "payload_less sha x y \<Longrightarrow> \<not> payload_less sha y x"
    by (auto simp: payload_less_def dest: bytes_less_asym split: if_splits)
next
  fix x y z
  show "payload_less sha x z \<Longrightarrow> payload_less sha x y \<or> payload_less sha y z"
    using bytes_less_negtrans [of "Hash sha x" "Hash sha z" "Hash sha y"]
    by (auto simp: payload_less_def split: if_splits)
qed

lemma payload_less_key: "\<not> payload_less sha b a \<Longrightarrow> SortKey b \<le> SortKey a"
  by (auto simp: payload_less_def split: if_splits)

lemma takeDeterministic_take:
  "0 < min need budget \<Longrightarrow>
     takeDeterministic sha cands need budget = take (nat (min need budget)) (slice_stable (payload_less sha) cands)"
  by (auto simp: takeDeterministic_def Let_def min_def)

lemma takeDeterministic_set: "x \<in> set (takeDeterministic sha cands need budget) \<Longrightarrow> x \<in> set cands"
  by (auto simp: takeDeterministic_def Let_def split: if_splits dest: in_set_takeD)

lemma takeDeterministic_desc: "keys_desc (takeDeterministic sha cands need budget)"
proof -
  have "keys_desc (slice_stable (payload_less sha) cands)"
    unfolding keys_desc_def using pl_order.sorted_slice_stable [of cands sha]
    by (rule sorted_wrt_mono_rel [rotated]) (auto intro: payload_less_key)
  then show ?thesis by (auto simp: takeDeterministic_def keys_desc_def Let_def sorted_wrt_take)
qed

lemma takeDeterministic_length:
  "0 < min need budget \<Longrightarrow> int (length (takeDeterministic sha cands need budget)) \<le> min need budget"
proof -
  assume pos: "0 < min need budget"
  have "length (take (nat (min need budget)) (slice_stable (payload_less sha) cands)) \<le> nat (min need budget)"
    by simp
  with pos show ?thesis unfolding takeDeterministic_take [OF pos] by linarith
qed

lemma takeDeterministic_permute:
  assumes "mset xs = mset ys"
    and "\<forall>a \<in> set xs. \<forall>b \<in> set xs. SortKey a = SortKey b \<longrightarrow> Hash sha a = Hash sha b \<longrightarrow> a = b"
  shows "takeDeterministic sha xs need budget = takeDeterministic sha ys need budget"
proof -
  have "a = b" if "a \<in> set xs" "b \<in> set xs" "\<not> payload_less sha a b" "\<not> payload_less sha b a" for a b
    using that assms(2) bytes_less_total by (metis payload_less_def order_antisym payload_less_key)
  then have "slice_stable (payload_less sha) xs = slice_stable (payload_less sha) ys"
    using assms(1) by (intro pl_order.slice_stable_permute) auto
  then show ?thesis by (simp add: takeDeterministic_def)
qed

section \<open>The loop over the types\<close>

abbreviation cands :: "build_env \<Rightarrow> Container \<Rightarrow> BlockHeader \<Rightarrow> BuilderPolicy \<Rightarrow> nat \<Rightarrow> string \<Rightarrow> payload list" where
  "cands env c hdr pol i t \<equiv> fst (candidates env c hdr pol i t)"

lemma fst_prepare_loop:
  "fst (prepare_loop env c hdr pol mx w i (t # order) res) =
     (if mx - int (length res) \<le> 0 then res
      else fst (prepare_loop env c hdr pol mx w (Suc i) order
        (res @ takeDeterministic (be_sha env) (cands env c hdr pol i t)
           (min w (mx - int (length res))) (mx - int (length res)))))"
  by (simp add: Let_def split: prod.splits)

lemma fst_dfba_items:
  "fst (dfba_items env c hdr pol i (t # order)) =
     map (\<lambda>p. \<lparr>it_Payload = p, it_Type = t, it_Key = SortKey p, it_Hash = Hash (be_sha env) p\<rparr>)
       (cands env c hdr pol i t) @ fst (dfba_items env c hdr pol (Suc i) order)"
  by (simp add: Let_def split: prod.splits)

lemma decrypt_map_filter:
  "fst (decryptAndMapPrivate D hdr ps) =
     List.map_filter (\<lambda>p. case D hdr p of Inl _ \<Rightarrow> None | Inr x \<Rightarrow> x) ps"
  by (induction ps) (auto simp: map_filter_simps split: prod.splits sum.splits option.splits)

text \<open>Which pool reads a build may see: every pool in some order of its own map.\<close>

definition reads_ok :: "build_env \<Rightarrow> Container \<Rightarrow> nat \<Rightarrow> string list \<Rightarrow> bool" where
  "reads_ok env c i order \<longleftrightarrow> (\<forall>j < length order. container_range c (order ! j) (be_rng env (i + j)))"

lemma reads_ok_Cons:
  "reads_ok env c i (t # order) \<longleftrightarrow> container_range c t (be_rng env i) \<and> reads_ok env c (Suc i) order"
  by (auto simp: reads_ok_def nth_Cons split: nat.splits)

lemma cands_eq:
  "cands env c hdr pol i t =
     (let f = filter (\<lambda>p. \<not> late (be_sha env) c (be_now env) (windowDur pol) p \<and> belowThreshold t p pol = [])
                (GetAll (be_rng env i) t c)
      in if t = ''private_v1'' \<and> be_beast env
         then List.map_filter (\<lambda>p. case be_decrypt env hdr p of Inl _ \<Rightarrow> None | Inr x \<Rightarrow> x) f else f)"
  by (simp add: candidates_def case_prod_beta Let_def filter_is_filter decrypt_map_filter)

lemma cands_plain:
  "\<not> be_beast env \<Longrightarrow> cands env c hdr pol i t =
     filter (\<lambda>p. \<not> late (be_sha env) c (be_now env) (windowDur pol) p \<and> belowThreshold t p pol = [])
       (GetAll (be_rng env i) t c)"
  by (simp add: cands_eq)

lemma cands_typed:
  assumes "wired c" and "container_range c t (be_rng env i)" and "\<not> be_beast env"
    and "x \<in> set (cands env c hdr pol i t)"
  shows "Type_of x = t \<and> Validate x"
  using assms GetAll_typed by (auto simp: cands_plain)

lemma prepare_loop_grouped:
  assumes "wired c" and "\<not> be_beast env" and "reads_ok env c i order"
  shows "\<exists>out. fst (prepare_loop env c hdr pol mx w i order res) = res @ out \<and> grouped order out"
  using assms(3)
proof (induction order arbitrary: i res)
  case Nil
  show ?case using grouped.Nil by simp
next
  case (Cons t order)
  let ?rem = "mx - int (length res)"
  show ?case
  proof (cases "?rem \<le> 0")
    case True
    then have "fst (prepare_loop env c hdr pol mx w i (t # order) res) = res @ []"
      by (simp only: fst_prepare_loop if_True append_Nil2)
    with grouped_empty show ?thesis by blast
  next
    case False
    let ?g = "takeDeterministic (be_sha env) (cands env c hdr pol i t) (min w ?rem) ?rem"
    have g: "group_ok t ?g"
      using cands_typed [OF assms(1) _ assms(2)] Cons.prems
      by (auto simp: group_ok_def takeDeterministic_desc reads_ok_Cons dest!: takeDeterministic_set)
    from Cons.IH [of "Suc i" "res @ ?g"] Cons.prems obtain out where
      "fst (prepare_loop env c hdr pol mx w (Suc i) order (res @ ?g)) = (res @ ?g) @ out" "grouped order out"
      by (auto simp: reads_ok_Cons)
    with grouped.Cons [OF g this(2)] False show ?thesis by (auto simp only: fst_prepare_loop if_False append_assoc)
  qed
qed

lemma prepare_loop_length:
  assumes "0 < w" and "int (length res) \<le> mx"
  shows "int (length (fst (prepare_loop env c hdr pol mx w i order res))) \<le> mx"
  using assms(2)
proof (induction order arbitrary: i res)
  case (Cons t order)
  let ?rem = "mx - int (length res)"
  let ?g = "takeDeterministic (be_sha env) (cands env c hdr pol i t) (min w ?rem) ?rem"
  show ?case
  proof (cases "?rem \<le> 0")
    case False
    then have "int (length ?g) \<le> min (min w ?rem) ?rem"
      using assms(1) by (intro takeDeterministic_length) simp
    then have "int (length (res @ ?g)) \<le> mx" by simp
    from Cons.IH [OF this, of "Suc i"] False show ?thesis by (simp only: fst_prepare_loop if_False)
  qed (use Cons.prems in \<open>simp only: fst_prepare_loop if_True\<close>)
qed simp

lemma prepare_loop_set:
  "x \<in> set (fst (prepare_loop env c hdr pol mx w i order res)) \<Longrightarrow>
     x \<in> set res \<or> (\<exists>j < length order. x \<in> set (cands env c hdr pol (i + j) (order ! j)))"
proof (induction order arbitrary: i res)
  case (Cons t order)
  let ?rem = "mx - int (length res)"
  let ?g = "takeDeterministic (be_sha env) (cands env c hdr pol i t) (min w ?rem) ?rem"
  consider "x \<in> set res" | "x \<in> set (fst (prepare_loop env c hdr pol mx w (Suc i) order (res @ ?g)))"
    using Cons.prems by (auto simp only: fst_prepare_loop split: if_splits)
  then show ?case
  proof cases
    case 2
    from Cons.IH [OF this] consider "x \<in> set res" | "x \<in> set ?g"
      | j where "j < length order" "x \<in> set (cands env c hdr pol (Suc i + j) (order ! j))" by auto
    then show ?thesis
    proof cases
      case 2
      then have "x \<in> set (cands env c hdr pol (i + 0) ((t # order) ! 0))" by (auto dest: takeDeterministic_set)
      then show ?thesis by (intro disjI2 exI [of _ 0]) simp
    next
      case (3 j)
      then show ?thesis by (intro disjI2 exI [of _ "Suc j"]) simp
    qed simp
  qed simp
qed simp

section \<open>Independence of the map iteration order\<close>

lemma mset_map_filter: "mset xs = mset ys \<Longrightarrow> mset (List.map_filter f xs) = mset (List.map_filter f ys)"
  by (simp add: map_filter_def)

lemma mset_if_map_filter:
  "mset xs = mset ys \<Longrightarrow>
     mset (if b then List.map_filter f xs else xs) = mset (if b then List.map_filter f ys else ys)"
  using mset_map_filter [of xs ys f] by (cases b) simp_all

lemma cands_mset:
  assumes "container_range c t (be_rng env i)" and "container_range c t (rng i)"
  shows "mset (cands env c hdr pol i t) = mset (cands (env\<lparr>be_rng := rng\<rparr>) c hdr pol i t)"
proof -
  let ?P = "\<lambda>p. \<not> late (be_sha env) c (be_now env) (windowDur pol) p \<and> belowThreshold t p pol = []"
  have eq: "mset (filter ?P (GetAll (be_rng env i) t c)) = mset (filter ?P (GetAll (rng i) t c))"
    using GetAll_mset [OF assms] by simp
  have sels: "be_sha (env\<lparr>be_rng := rng\<rparr>) = be_sha env" "be_now (env\<lparr>be_rng := rng\<rparr>) = be_now env"
    "be_beast (env\<lparr>be_rng := rng\<rparr>) = be_beast env" "be_decrypt (env\<lparr>be_rng := rng\<rparr>) = be_decrypt env"
    "be_rng (env\<lparr>be_rng := rng\<rparr>) = rng" by simp_all
  show ?thesis unfolding cands_eq Let_def sels by (rule mset_if_map_filter [OF eq])
qed

text \<open>
  No two different candidates agree in sort key and hash, across the types of the order
  (they can: the hash truncates nonce and fee).
\<close>

definition collision_free :: "build_env \<Rightarrow> Container \<Rightarrow> BlockHeader \<Rightarrow> BuilderPolicy \<Rightarrow> nat \<Rightarrow> string list \<Rightarrow> bool" where
  "collision_free env c hdr pol i order \<longleftrightarrow>
     (\<forall>j < length order. \<forall>k < length order.
        \<forall>a \<in> set (cands env c hdr pol (i + j) (order ! j)). \<forall>b \<in> set (cands env c hdr pol (i + k) (order ! k)).
          SortKey a = SortKey b \<longrightarrow> Hash (be_sha env) a = Hash (be_sha env) b \<longrightarrow> a = b \<and> order ! j = order ! k)"

lemma collision_free_Cons:
  assumes "collision_free env c hdr pol i (t # order)"
  shows "\<forall>a \<in> set (cands env c hdr pol i t). \<forall>b \<in> set (cands env c hdr pol i t).
      SortKey a = SortKey b \<longrightarrow> Hash (be_sha env) a = Hash (be_sha env) b \<longrightarrow> a = b"
    and "collision_free env c hdr pol (Suc i) order"
proof -
  show "\<forall>a \<in> set (cands env c hdr pol i t). \<forall>b \<in> set (cands env c hdr pol i t).
      SortKey a = SortKey b \<longrightarrow> Hash (be_sha env) a = Hash (be_sha env) b \<longrightarrow> a = b"
    using assms unfolding collision_free_def by (metis add.right_neutral length_greater_0_conv list.distinct(1) nth_Cons_0)
  show "collision_free env c hdr pol (Suc i) order"
    unfolding collision_free_def
  proof (intro allI impI)
    fix j k assume "j < length order" "k < length order"
    then show "\<forall>a \<in> set (cands env c hdr pol (Suc i + j) (order ! j)). \<forall>b \<in> set (cands env c hdr pol (Suc i + k) (order ! k)).
          SortKey a = SortKey b \<longrightarrow> Hash (be_sha env) a = Hash (be_sha env) b \<longrightarrow> a = b \<and> order ! j = order ! k"
      using assms [unfolded collision_free_def, rule_format, of "Suc j" "Suc k"] by simp
  qed
qed

lemma prepare_loop_rng:
  assumes "reads_ok env c i order" and "reads_ok (env\<lparr>be_rng := rng\<rparr>) c i order"
    and "collision_free env c hdr pol i order"
  shows "fst (prepare_loop env c hdr pol mx w i order res) =
    fst (prepare_loop (env\<lparr>be_rng := rng\<rparr>) c hdr pol mx w i order res)"
  using assms
proof (induction order arbitrary: i res)
  case (Cons t order)
  have "takeDeterministic (be_sha env) (cands env c hdr pol i t) n b =
      takeDeterministic (be_sha env) (cands (env\<lparr>be_rng := rng\<rparr>) c hdr pol i t) n b" for n b
    using cands_mset [of c t env i rng hdr pol] collision_free_Cons(1) [OF Cons.prems(3)] Cons.prems(1,2)
    by (intro takeDeterministic_permute) (simp_all add: reads_ok_Cons)
  moreover have "fst (prepare_loop env c hdr pol mx w (Suc i) order res') =
      fst (prepare_loop (env\<lparr>be_rng := rng\<rparr>) c hdr pol mx w (Suc i) order res')" for res'
    using Cons.prems collision_free_Cons(2) [OF Cons.prems(3)] by (intro Cons.IH) (simp_all add: reads_ok_Cons)
  ultimately show ?case unfolding fst_prepare_loop by simp
qed simp

lemma dfba_items_rng:
  assumes "reads_ok env c i order" and "reads_ok (env\<lparr>be_rng := rng\<rparr>) c i order"
  shows "mset (fst (dfba_items env c hdr pol i order)) = mset (fst (dfba_items (env\<lparr>be_rng := rng\<rparr>) c hdr pol i order))"
  using assms
proof (induction order arbitrary: i)
  case (Cons t order)
  from Cons.prems have "mset (cands env c hdr pol i t) = mset (cands (env\<lparr>be_rng := rng\<rparr>) c hdr pol i t)"
    by (intro cands_mset) (simp_all add: reads_ok_Cons)
  moreover have "mset (fst (dfba_items env c hdr pol (Suc i) order)) =
      mset (fst (dfba_items (env\<lparr>be_rng := rng\<rparr>) c hdr pol (Suc i) order))"
    using Cons.prems by (intro Cons.IH) (simp_all add: reads_ok_Cons)
  ultimately show ?case unfolding fst_dfba_items by simp
qed simp

lemma dfba_items_mem:
  "x \<in> set (fst (dfba_items env c hdr pol i order)) \<Longrightarrow>
     \<exists>j < length order. \<exists>p \<in> set (cands env c hdr pol (i + j) (order ! j)).
       x = \<lparr>it_Payload = p, it_Type = order ! j, it_Key = SortKey p, it_Hash = Hash (be_sha env) p\<rparr>"
proof (induction order arbitrary: i)
  case (Cons t order)
  then consider p where "p \<in> set (cands env c hdr pol i t)"
      "x = \<lparr>it_Payload = p, it_Type = t, it_Key = SortKey p, it_Hash = Hash (be_sha env) p\<rparr>"
    | "x \<in> set (fst (dfba_items env c hdr pol (Suc i) order))"
    unfolding fst_dfba_items by auto
  then show ?case
  proof cases
    case 1
    then show ?thesis by (intro exI [of _ 0]) simp
  next
    case 2
    from Cons.IH [OF this] obtain j where j: "j < length order" "\<exists>p \<in> set (cands env c hdr pol (Suc i + j) (order ! j)).
       x = \<lparr>it_Payload = p, it_Type = order ! j, it_Key = SortKey p, it_Hash = Hash (be_sha env) p\<rparr>" by blast
    then show ?thesis by (intro exI [of _ "Suc j"]) simp
  qed
qed simp

section \<open>The layout of a solver selection\<close>

definition item_ok :: "nat \<Rightarrow> string \<Rightarrow> Item \<Rightarrow> bool" where
  "item_ok n t i \<longleftrightarrow> Type_of (it_Payload i) = t \<and> it_Key i = SortKey (it_Payload i) \<and> length (it_Hash i) = n"

lemma sorted_group:
  assumes "\<forall>i \<in> set l. item_ok n t i"
  shows "group_ok t (map it_Payload (take k (slice_stable lessByKeyHash l)))"
proof -
  let ?s = "slice_stable lessByKeyHash l"
  have ok: "item_ok n t i" if "i \<in> set (take k ?s)" for i
    using that assms by (auto dest!: in_set_takeD)
  have "set l \<subseteq> hashed n" using assms by (auto simp: item_ok_def hashed_def)
  then have "sorted_wrt (\<lambda>a b. \<not> lessByKeyHash b a) (take k ?s)"
    by (intro sorted_wrt_take dfba_order.sorted_slice_stable)
  then have "sorted_wrt (\<lambda>a b. SortKey (it_Payload b) \<le> SortKey (it_Payload a)) (take k ?s)"
  proof (rule sorted_wrt_mono_rel [rotated])
    fix x y assume "x \<in> set (take k ?s)" "y \<in> set (take k ?s)" "\<not> lessByKeyHash y x"
    then show "SortKey (it_Payload y) \<le> SortKey (it_Payload x)"
      using less_key [of y x] ok by (simp add: item_ok_def)
  qed
  then show ?thesis using ok by (auto simp: group_ok_def keys_desc_def sorted_wrt_map item_ok_def)
qed

lemma pick_append: "\<exists>k. pick mx w sel l = sel @ take k l"
proof (cases "0 < min (min w (mx - int (length sel))) (int (length l))")
  case True
  then show ?thesis unfolding pick_def Let_def by (simp only: if_True) blast
next
  case False
  then have "pick mx w sel l = sel @ take 0 l" unfolding pick_def Let_def by (simp only: if_False) simp
  then show ?thesis by blast
qed

lemma pick_group:
  assumes "\<forall>i \<in> set l. item_ok n t i"
  obtains g where "pick mx w sel (slice_stable lessByKeyHash l) = sel @ g" "group_ok t (map it_Payload g)"
  using pick_append [of mx w sel "slice_stable lessByKeyHash l"] sorted_group [OF assms] by blast

lemma grouped_skip: "grouped order out \<Longrightarrow> grouped (t # order) out"
  using grouped.Cons [of t "[]" order out] by (simp add: group_ok_def keys_desc_def)

lemma selectPerType_grouped:
  assumes "\<forall>t. \<forall>i \<in> set (bt t). item_ok n t i"
  shows "\<exists>out. selectPerType bt order mx w sel = sel @ out \<and> grouped order (map it_Payload out)"
  using assms
proof (induction order arbitrary: bt sel)
  case Nil
  show ?case using grouped.Nil by simp
next
  case (Cons t order)
  let ?l = "slice_stable lessByKeyHash (bt t)"
  consider "mx - int (length sel) \<le> 0" | "0 < mx - int (length sel)" "bt t = []"
    | "0 < mx - int (length sel)" "bt t \<noteq> []" by linarith
  then show ?case
  proof cases
    case 1
    then show ?thesis using grouped_empty by simp
  next
    case 2
    with Cons.IH [OF Cons.prems, of sel] grouped_skip show ?thesis by fastforce
  next
    case 3
    have "\<forall>i \<in> set (bt t). item_ok n t i" using Cons.prems by blast
    then obtain g where g: "pick mx w sel ?l = sel @ g" "group_ok t (map it_Payload g)" by (rule pick_group)
    have "\<forall>u. \<forall>i \<in> set ((bt(t := ?l)) u). item_ok n u i" using Cons.prems by simp
    from Cons.IH [OF this, of "sel @ g"] obtain out where out:
      "selectPerType (bt(t := ?l)) order mx w (sel @ g) = (sel @ g) @ out" "grouped order (map it_Payload out)"
      by blast
    have "selectPerType bt (t # order) mx w sel = sel @ (g @ out)"
      using 3 g(1) out(1) by (simp add: Let_def del: fun_upd_apply)
    with grouped.Cons [OF g(2) out(2)] show ?thesis by (metis map_append)
  qed
qed

lemma assemble_grouped:
  assumes "\<forall>t. \<forall>i \<in> set (bt t). item_ok n t i"
    and "group_ok ''auction_bid_v1'' (map it_Payload bids)" and "group_ok ''plaintext_v1'' (map it_Payload users)"
  shows "\<exists>out. assemble bids users bt order mx w sel = sel @ out \<and> grouped order (map it_Payload out)"
  using assms(1)
proof (induction order arbitrary: bt sel)
  case Nil
  show ?case using grouped.Nil by simp
next
  case (Cons t order)
  let ?l = "slice_stable lessByKeyHash (bt t)"
  have step: "\<exists>out. assemble bids users bt (t # order) mx w sel = sel @ out \<and> grouped (t # order) (map it_Payload out)"
    if "assemble bids users bt (t # order) mx w sel = assemble bids users bt' order mx w (sel @ g)"
      "group_ok t (map it_Payload g)" "\<forall>u. \<forall>i \<in> set (bt' u). item_ok n u i" for bt' g
  proof -
    from Cons.IH [OF that(3), of "sel @ g"] obtain out where
      "assemble bids users bt' order mx w (sel @ g) = (sel @ g) @ out" "grouped order (map it_Payload out)" by blast
    with that(1) grouped.Cons [OF that(2) this(2)] show ?thesis by (metis append_assoc map_append)
  qed
  consider "t = ''auction_bid_v1''" | "t = ''plaintext_v1''" | "t \<noteq> ''auction_bid_v1''" "t \<noteq> ''plaintext_v1''" "bt t = []"
    | "t \<noteq> ''auction_bid_v1''" "t \<noteq> ''plaintext_v1''" "bt t \<noteq> []" by blast
  then show ?case
  proof cases
    case 1
    with assms(2) Cons.prems show ?thesis by (intro step [of bt bids]) simp_all
  next
    case 2
    with assms(3) Cons.prems show ?thesis by (intro step [of bt users]) simp_all
  next
    case 3
    have "group_ok t (map it_Payload [])" by (simp add: group_ok_def keys_desc_def)
    with 3 Cons.prems show ?thesis by (intro step [of bt "[]"]) simp_all
  next
    case 4
    have "\<forall>i \<in> set (bt t). item_ok n t i" using Cons.prems by blast
    then obtain g where g: "pick mx w sel ?l = sel @ g" "group_ok t (map it_Payload g)" by (rule pick_group)
    show ?thesis
      using 4 g Cons.prems by (intro step [of "bt(t := ?l)" g]) (simp_all add: Let_def)
  qed
qed

lemma solve_grouped:
  assumes "\<forall>i \<in> set items. item_ok n (it_Type i) i"
  shows "grouped (dp_Order pol) (map it_Payload (fst (SolveDeterministic ms items pol)))"
proof -
  let ?mx = "eff_max (dp_MaxN pol)"
  let ?w = "eff_window (dp_Window pol) ?mx"
  let ?k = "nat (match_size items ?mx ?w)"
  have bt: "\<forall>t. \<forall>i \<in> set (by_type items t). item_ok n t i" using assms by (auto simp: set_by_type)
  then have "group_ok ''auction_bid_v1'' (map it_Payload (take ?k (dfba_bids items)))"
    "group_ok ''plaintext_v1'' (map it_Payload (take ?k (dfba_users items)))"
    unfolding dfba_bids_def dfba_users_def by (blast intro: sorted_group)+
  from assemble_grouped [OF bt this, of "dp_Order pol" ?mx ?w "[]"]
    selectPerType_grouped [OF bt, of "dp_Order pol" ?mx ?w "[]"]
  show ?thesis by (simp add: SolveDeterministic_def Let_def)
qed

section \<open>Properties\<close>

abbreviation built :: "build_env \<Rightarrow> Container \<Rightarrow> BlockHeader \<Rightarrow> BuilderPolicy \<Rightarrow> payload list" where
  "built env c hdr pol \<equiv> sb_Items (fst (PrepareProposal env c hdr pol))"

lemma built_plain:
  "\<not> bp_UseDFBA pol \<Longrightarrow> built env c hdr pol =
     fst (prepare_loop env c hdr pol (eff_max (bp_MaxN pol)) (eff_window (bp_Window pol) (eff_max (bp_MaxN pol))) 0 (bp_Order pol) [])"
  by (simp add: PrepareProposal_def Let_def split: prod.splits)

abbreviation solver_policy :: "BuilderPolicy \<Rightarrow> dfba_policy" where
  "solver_policy pol \<equiv> \<lparr>dp_Order = bp_Order pol, dp_MaxN = eff_max (bp_MaxN pol), dp_MinBid = bp_MinBid pol,
     dp_MinFee = bp_MinFee pol, dp_Window = eff_window (bp_Window pol) (eff_max (bp_MaxN pol)),
     dp_BatchTicks = bp_BatchTicks pol\<rparr>"

lemma built_dfba:
  "bp_UseDFBA pol \<Longrightarrow> built env c hdr pol =
     map it_Payload (fst (SolveDeterministic (be_ms env) (fst (dfba_items env c hdr pol 0 (bp_Order pol))) (solver_policy pol)))"
  by (simp add: PrepareProposal_def prepareProposalDFBA_def Let_def case_prod_beta)


lemma own_block_accepted:
  assumes "wired c" and "reads_ok env c 0 (bp_Order pol)" and "distinct (bp_Order pol)" and "\<not> be_beast env"
    and "\<And>b. length (be_sha env b) = 32"
  shows "is_ok (ProcessProposal (fst (PrepareProposal env c hdr pol)) pol)"
proof -
  have "grouped (bp_Order pol) (built env c hdr pol)"
  proof (cases "bp_UseDFBA pol")
    case False
    with prepare_loop_grouped [OF assms(1,4,2), of hdr pol _ _ "[]"] show ?thesis
      by (fastforce simp: built_plain)
  next
    case True
    have "length (Hash (be_sha env) x) = 32" for x
      by (cases x) (simp_all add: plaintext_Hash_def auction_Hash_def private_Hash_def assms(5))
    then have "\<forall>i \<in> set (fst (dfba_items env c hdr pol 0 (bp_Order pol))). item_ok 32 (it_Type i) i"
      using assms(2) cands_typed [OF assms(1) _ assms(4)]
      by (fastforce simp: item_ok_def reads_ok_def dest!: dfba_items_mem)
    from solve_grouped [OF this, of "solver_policy pol" "be_ms env"] True show ?thesis by (simp add: built_dfba)
  qed
  with assms(3) show ?thesis by (simp add: ProcessProposal_iff grouped_accepted)
qed


text \<open>
  the plain builder never selects more than \<^verbatim>\<open>MaxN\<close> items (1024 when the policy names no
  cap), with and without BEAST.
\<close>

theorem builder_cap:
  assumes "\<not> bp_UseDFBA pol"
  shows "int (length (built env c hdr pol)) \<le> eff_max (bp_MaxN pol)"
  unfolding built_plain [OF assms] by (intro prepare_loop_length) (simp_all add: less_imp_le)


text \<open>
  without BEAST every item of a plain block is a valid payload of the pool of its type,
  not late for the batch window, and at least the minimum bid or fee of the policy.
\<close>

theorem builder_respects_thresholds:
  assumes "wired c" and "reads_ok env c 0 (bp_Order pol)" and "\<not> be_beast env" and "\<not> bp_UseDFBA pol"
    and "x \<in> set (built env c hdr pol)"
  shows "Validate x \<and> Type_of x \<in> set (bp_Order pol)
    \<and> \<not> late (be_sha env) c (be_now env) (windowDur pol) x
    \<and> (Type_of x = ''auction_bid_v1'' \<longrightarrow> bp_MinBid pol \<le> SortKey x)
    \<and> (Type_of x = ''plaintext_v1'' \<longrightarrow> bp_MinFee pol \<le> SortKey x)"
proof -
  from prepare_loop_set [of x env c hdr pol _ _ 0 "bp_Order pol" "[]"] assms(4,5)
  obtain j where j: "j < length (bp_Order pol)" "x \<in> set (cands env c hdr pol j (bp_Order pol ! j))"
    by (auto simp: built_plain)
  have typed: "Type_of x = bp_Order pol ! j \<and> Validate x"
    using cands_typed [OF assms(1) _ assms(3) j(2)] assms(2) j(1) by (simp add: reads_ok_def)
  with j(2) have keep: "\<not> late (be_sha env) c (be_now env) (windowDur pol) x" "belowThreshold (Type_of x) x pol = []"
    by (simp_all add: cands_plain [OF assms(3)])
  have "0 \<le> SortKey x" by simp
  with keep(2) have "Type_of x = ''auction_bid_v1'' \<longrightarrow> bp_MinBid pol \<le> SortKey x"
    "Type_of x = ''plaintext_v1'' \<longrightarrow> bp_MinFee pol \<le> SortKey x"
    by (auto simp: belowThreshold_def split: if_splits) (metis not_less word_gt_0 word_zero_le)+
  with typed keep(1) j(1) show ?thesis by simp
qed

section \<open>Examples\<close>

definition demo_h :: pool_env where
  "demo_h = (\<lambda>_. replicate 32 0, False)"

definition demo_container :: Container where
  "demo_container = fst (snd (container_Add demo_h 0 (Plaintext (demo_tx ''A'' 0 3))
     (fst (snd (container_Add demo_h 0 (Auction (demo_bid ''A'' 0 7)) (NewContainer (main_pools False)))))))"

definition demo_build :: build_env where
  "demo_build = \<lparr>be_sha = fst demo_h, be_now = 0, be_rng = (\<lambda>_. [''A'']), be_beast = False,
     be_decrypt = noop_Decrypt, be_ms = 0\<rparr>"

definition demo_pol :: "string list \<Rightarrow> bool \<Rightarrow> BuilderPolicy" where
  "demo_pol order dfba = \<lparr>bp_Order = order, bp_MaxN = 4, bp_BudgetBytes = 0, bp_MinBid = 2, bp_MinFee = 0,
     bp_Window = 0, bp_BatchTicks = 0, bp_UseDFBA = dfba\<rparr>"

definition demo_hdr :: BlockHeader where
  "demo_hdr = \<lparr>bh_Height = 1, bh_Round = 0\<rparr>"

lemmas demo_defs = demo_container_def container_Add_def NewContainer_def main_pools_def pool_eval demo_h_def

lemma demo_impl:
  "c_impl demo_container ''auction_bid_v1'' = Some (AuctionPool
     \<lparr>np_expect = [''A'' \<mapsto> 1], np_pend = [''A'' \<mapsto> [demo_bid ''A'' 0 7]], np_future = Map.empty\<rparr>)"
  "c_impl demo_container ''plaintext_v1'' = Some (PlaintextPool
     \<lparr>np_expect = [''A'' \<mapsto> 1], np_pend = [''A'' \<mapsto> [demo_tx ''A'' 0 3]], np_future = Map.empty\<rparr>)"
  by (simp_all add: demo_defs)

lemma demo_reads: "reads_ok demo_build demo_container 0 [''auction_bid_v1'', ''plaintext_v1'']"
  by (simp add: reads_ok_Cons container_range_def demo_impl demo_build_def range_order_def) (simp add: reads_ok_def)

lemma demo_wired: "wired demo_container"
  by (simp add: demo_container_def wired_Add wired_main)

lemma demo_sha: "length (be_sha demo_build b) = 32"
  by (simp add: demo_build_def demo_h_def)

lemma demo_built:
  "built demo_build demo_container demo_hdr (demo_pol [''auction_bid_v1'', ''plaintext_v1''] False) =
     [Auction (demo_bid ''A'' 0 7), Plaintext (demo_tx ''A'' 0 3)]"
  by (simp add: built_plain demo_pol_def eff_max_def eff_window_def candidates_def GetAll_def demo_impl demo_build_def
      auction_Len_def plaintext_Len_def nonce_len_def auction_Get_def plaintext_Get_def nonce_get_def flatten_def getz_def
      late_def windowDur_def belowThreshold_def takeDeterministic_def demo_bid_def demo_tx_def)


theorem builder_cap_witness:
  "int (length (built demo_build demo_container demo_hdr (demo_pol [''auction_bid_v1'', ''plaintext_v1''] False))) \<le> 4"
  using builder_cap [of "demo_pol [''auction_bid_v1'', ''plaintext_v1''] False" demo_build demo_container demo_hdr]
  by (simp add: demo_pol_def eff_max_def)

theorem builder_respects_thresholds_witness:
  "let x = Auction (demo_bid ''A'' 0 7); pol = demo_pol [''auction_bid_v1'', ''plaintext_v1''] False
   in x \<in> set (built demo_build demo_container demo_hdr pol) \<and> bp_MinBid pol \<le> SortKey x"
proof -
  let ?pol = "demo_pol [''auction_bid_v1'', ''plaintext_v1''] False" and ?x = "Auction (demo_bid ''A'' 0 7)"
  have mem: "?x \<in> set (built demo_build demo_container demo_hdr ?pol)" by (simp only: demo_built) simp
  have "reads_ok demo_build demo_container 0 (bp_Order ?pol)" "\<not> be_beast demo_build" "\<not> bp_UseDFBA ?pol"
    by (simp_all add: demo_pol_def demo_reads) (simp add: demo_build_def)
  from builder_respects_thresholds [OF demo_wired this mem] have "bp_MinBid ?pol \<le> SortKey ?x" by simp
  with mem show ?thesis by (simp only: Let_def simp_thms)
qed


definition beast_container :: Container where
  "beast_container = fst (snd (container_Add demo_h 0 demo_private
     (fst (snd (container_Add demo_h 0 (Auction (demo_bid ''A'' 0 7)) (NewContainer (main_pools True)))))))"

definition demo_envelope :: jsonEnvelope where
  "demo_envelope = \<lparr>je_Type = ''plaintext_v1'', je_From = ''B'', je_Nonce = 0, je_Gas = 1, je_Fee = 1, je_Bid = 0,
     je_FeeRecipient = []\<rparr>"

definition beast_build :: build_env where
  "beast_build = demo_build\<lparr>be_beast := True, be_decrypt := json_Decrypt (\<lambda>_. Some demo_envelope)\<rparr>"

text \<open>
  with BEAST enabled and the default order (private, auction, plaintext) a node rejects
  the block it built itself as soon as a decrypted private transaction meets an auction
  bid: the decrypted item has type \<^verbatim>\<open>plaintext_v1\<close> and stands before the bids.
\<close>

theorem beast_block_rejected:
  "let pol = demo_pol [''private_v1'', ''auction_bid_v1'', ''plaintext_v1''] False;
       blk = fst (PrepareProposal beast_build beast_container demo_hdr pol)
   in map Type_of (sb_Items blk) = [''plaintext_v1'', ''auction_bid_v1'']
     \<and> ProcessProposal blk pol = Inl PriorityViolated"
proof -
  let ?pol = "demo_pol [''private_v1'', ''auction_bid_v1'', ''plaintext_v1''] False"
  have impl: "c_impl beast_container ''auction_bid_v1'' = Some (AuctionPool
     \<lparr>np_expect = [''A'' \<mapsto> 1], np_pend = [''A'' \<mapsto> [demo_bid ''A'' 0 7]], np_future = Map.empty\<rparr>)"
    "c_impl beast_container ''plaintext_v1'' = Some (PlaintextPool
     \<lparr>np_expect = Map.empty, np_pend = Map.empty, np_future = Map.empty\<rparr>)"
    "\<exists>s. c_impl beast_container ''private_v1'' = Some (PrivatePool \<lparr>pp_items = [case demo_private of Private t \<Rightarrow> t], pp_seen = s, pp_max = 4096\<rparr>)"
    by (simp_all add: beast_container_def demo_defs demo_private_def private_Add_def private_Add_full_def private_New_def private_Validate_def)
  have blk: "built beast_build beast_container demo_hdr ?pol =
      [Plaintext \<lparr>pt_From = ''B'', pt_Nonce = 0, pt_Gas = 1, pt_Fee = 1, pt_Sig = []\<rparr>, Auction (demo_bid ''A'' 0 7)]"
    using impl
    by (auto simp: built_plain demo_pol_def eff_max_def eff_window_def candidates_def GetAll_def beast_build_def demo_build_def
      auction_Len_def plaintext_Len_def private_Len_def nonce_len_def auction_Get_def plaintext_Get_def private_Get_def nonce_get_def
      flatten_def getz_def late_def windowDur_def belowThreshold_def takeDeterministic_def demo_bid_def demo_private_def
      json_Decrypt_def decodeEnvelopeBytes_def demo_envelope_def demo_hdr_def Let_def)
  then show ?thesis
    by (simp add: ProcessProposal_def Let_def) (simp add: demo_pol_def pri_map_def)
qed

end
