(* ===== verification/Consensus.thy ===== *)
theory Consensus
  imports Event_Bus Qbft_Verifier Qbft_State Qbft_WAL State_Store Builder
begin

text \<open>
  \<^verbatim>\<open>internal/consensus\<close>: the adapter from bus events to QBFT messages (\<^verbatim>\<open>adapter.go\<close>), the fee
  records (\<^verbatim>\<open>sink.go\<close>) and the service (\<^verbatim>\<open>service.go\<close>), whose event loop composes the verifier,
  the vote log, the builder, the state machine and the last-state store. The injected
  broadcaster, signer and sink are outside: the calls they receive are the \<open>effect\<close>s an event
  causes, and whether they fail is part of the event's environment.
\<close>

section \<open>Events as messages\<close>

definition MapEventToQBFT :: "Event \<Rightarrow> Message" where
  "MapEventToQBFT ev =
     (case (ev_Kind ev, ev_Body ev) of
        (KindConsensus, BodyMessage msg) \<Rightarrow> msg
      | _ \<Rightarrow>
          \<lparr>m_From = ''consensus_stub'', m_Height = ev_Height ev, m_Round = 0, m_Type = MsgPreprepare,
           m_Payload = [],
           m_ID = ''ev-'' @ ev_TraceID ev @ ''-'' @ decimal (unat (ev_Height ev)) @ ''-'' @ decimal 0,
           m_TraceID = ev_TraceID ev, m_Sig = []\<rparr>)"

section \<open>Block accounting\<close>

record ValueRecord =
  vr_Height :: u64
  vr_Round :: u64
  vr_Bids :: u64
  vr_Fees :: u64
  vr_Items :: int

definition add_stats :: "BlockStats \<Rightarrow> payload \<Rightarrow> BlockStats" where
  "add_stats st it = (case it of
     Auction tx \<Rightarrow> st\<lparr>bs_TotalBids := bs_TotalBids st + at_Bid tx\<rparr>
   | Plaintext tx \<Rightarrow> st\<lparr>bs_TotalFees := bs_TotalFees st + pt_Fee tx\<rparr>
   | Private tx \<Rightarrow> st)"

definition summarizeStats :: "payload list \<Rightarrow> BlockStats" where
  "summarizeStats items = foldl add_stats (zero_BlockStats\<lparr>bs_Items := int (length items)\<rparr>) items"

section \<open>The service before and after Start\<close>

datatype store = MemStore MemoryStore | FileStore string

text \<open>What the setters fill in; \<open>None\<close> is nil.\<close>

record wiring =
  w_sub :: bool
  w_v :: "BasicVerifier option"
  w_store :: "store option"
  w_st :: "State option"
  w_wal :: "string option"
  w_tss :: "(bytes \<Rightarrow> bytes \<Rightarrow> bytes \<Rightarrow> bool) option"
  w_pool :: "Container option"
  w_policy :: BuilderPolicy
  w_polConfigured :: bool
  w_signer :: bool
  w_bc :: bool
  w_sink :: bool

definition zero_BuilderPolicy :: BuilderPolicy where
  "zero_BuilderPolicy = \<lparr>bp_Order = [], bp_MaxN = 0, bp_BudgetBytes = 0, bp_MinBid = 0, bp_MinFee = 0,
     bp_Window = 0, bp_BatchTicks = 0, bp_UseDFBA = False\<rparr>"

definition NewWithSub :: wiring where
  "NewWithSub = \<lparr>w_sub = True, w_v = None, w_store = None, w_st = None, w_wal = None, w_tss = None,
     w_pool = None, w_policy = zero_BuilderPolicy, w_polConfigured = False, w_signer = False,
     w_bc = False, w_sink = False\<rparr>"

definition SetPayloadContainer :: "Container \<Rightarrow> wiring \<Rightarrow> wiring" where
  "SetPayloadContainer c w = w\<lparr>w_pool := Some c\<rparr>"

definition SetBuilderPolicy :: "BuilderPolicy \<Rightarrow> wiring \<Rightarrow> wiring" where
  "SetBuilderPolicy p w = w\<lparr>w_policy := p, w_polConfigured := True\<rparr>"

definition SetWAL :: "string \<Rightarrow> wiring \<Rightarrow> wiring" where
  "SetWAL path w = w\<lparr>w_wal := Some path\<rparr>"

definition SetStore :: "store \<Rightarrow> wiring \<Rightarrow> wiring" where
  "SetStore st w = w\<lparr>w_store := Some st\<rparr>"

definition SetVerifier :: "BasicVerifier option \<Rightarrow> wiring \<Rightarrow> wiring" where
  "SetVerifier v w = w\<lparr>w_v := v\<rparr>"

definition SetProcessor :: "State option \<Rightarrow> wiring \<Rightarrow> wiring" where
  "SetProcessor p w = w\<lparr>w_st := p\<rparr>"

definition SetTSSVerifier :: "(bytes \<Rightarrow> bytes \<Rightarrow> bytes \<Rightarrow> bool) option \<Rightarrow> wiring \<Rightarrow> wiring" where
  "SetTSSVerifier v w = w\<lparr>w_tss := v\<rparr>"

text \<open>The signer, the broadcaster and the sink are arguments of the loop; here they are set or nil.\<close>

definition SetTSSSigner :: "bool \<Rightarrow> wiring \<Rightarrow> wiring" where
  "SetTSSSigner si w = w\<lparr>w_signer := si\<rparr>"

definition SetBroadcaster :: "bool \<Rightarrow> wiring \<Rightarrow> wiring" where
  "SetBroadcaster b w = w\<lparr>w_bc := b\<rparr>"

definition SetFeeSink :: "bool \<Rightarrow> wiring \<Rightarrow> wiring" where
  "SetFeeSink fs w = w\<lparr>w_sink := fs\<rparr>"

lemmas wiring_defs = NewWithSub_def SetPayloadContainer_def SetBuilderPolicy_def SetTSSSigner_def SetBroadcaster_def SetFeeSink_def

record Service =
  sv_v :: BasicVerifier
  sv_store :: store
  sv_st :: State
  sv_wal :: "string option"
  sv_lastWAL :: Message
  sv_tss :: "(bytes \<Rightarrow> bytes \<Rightarrow> bytes \<Rightarrow> bool) option"
  sv_enableTSSSync :: bool
  sv_enableBuilder :: bool
  sv_pool :: "Container option"
  sv_policy :: BuilderPolicy
  sv_lastBlock :: "u64 \<rightharpoonup> u64 \<rightharpoonup> StandardBlock"
  sv_enableTSSSign :: bool
  sv_signer :: bool
  sv_bc :: bool
  sv_sink :: bool

text \<open>The environment variables \<^verbatim>\<open>Start\<close> reads, as booleans (equal to \<^verbatim>\<open>1\<close>).\<close>

record start_env =
  se_tssSync :: bool
  se_builder :: bool
  se_tssSign :: bool
  se_beast :: bool

definition default_order :: "bool \<Rightarrow> string list" where
  "default_order beast =
     (if beast then [''private_v1''] else []) @ [''auction_bid_v1'', ''plaintext_v1'']"

definition start_policy :: "start_env \<Rightarrow> wiring \<Rightarrow> BuilderPolicy \<times> metric list" where
  "start_policy e w =
     (if \<not> se_builder e then (w_policy w, [])
      else if \<not> w_polConfigured w
      then (zero_BuilderPolicy\<lparr>bp_Order := default_order (se_beast e), bp_MaxN := 1024\<rparr>,
            [Inc ''builder_policy_total'' [(''result'', ''default'')]])
      else
        let p = w_policy w;
            p = (if bp_Order p = [] then p\<lparr>bp_Order := default_order (se_beast e)\<rparr> else p);
            p = (if bp_MaxN p \<le> 0 then p\<lparr>bp_MaxN := 1024\<rparr> else p)
        in (p, [Inc ''builder_policy_total'' [(''result'', ''custom'')]]))"

definition store_load :: "store \<Rightarrow> fs \<Rightarrow> LastState option \<times> metric list" where
  "store_load st m = (case st of
     MemStore x \<Rightarrow> (mem_LoadLastState x, []) | FileStore path \<Rightarrow> file_LoadLastState path m)"

definition store_save :: "(nat \<Rightarrow> call_outcome) \<Rightarrow> nat \<Rightarrow> LastState \<Rightarrow> store \<Rightarrow> fs
    \<Rightarrow> (status \<times> store \<times> fs) \<times> metric list" where
  "store_save \<phi> ms ls st m = (case st of
     MemStore x \<Rightarrow> (let (r, x') = mem_SaveLastState () ls x in ((r, MemStore x', m), []))
   | FileStore path \<Rightarrow>
       (let ((r, m'), ev) = file_SaveLastState \<phi> ms path ls m in ((r, FileStore path, m'), ev)))"

text \<open>
  \<^verbatim>\<open>Start\<close> up to the event loop; \<open>None\<close> is the stub without a subscription. The loaded state is
  only logged.
\<close>

definition Start :: "start_env \<Rightarrow> walEntry json \<Rightarrow> wiring \<Rightarrow> fs \<Rightarrow> Service option \<times> metric list" where
  "Start e J w m =
     (if \<not> w_sub w then (None, [])
      else
        let (pol, ms1) = start_policy e w;
            store = (case w_store w of None \<Rightarrow> MemStore NewMemoryStore | Some s \<Rightarrow> s);
            (lastWAL, ms2) = (if w_wal w = None then (zero_Message, [])
               else case LastIntent J (w_wal w) m of (Inr l, ev) \<Rightarrow> (l, ev) | (Inl _, ev) \<Rightarrow> (zero_Message, ev));
            (_, ms3) = store_load store m
        in (Some \<lparr>sv_v = (case w_v w of None \<Rightarrow> NewBasicVerifierWithPolicy DefaultPolicy | Some v \<Rightarrow> v),
              sv_store = store,
              sv_st = (case w_st w of None \<Rightarrow> new_State [] | Some st \<Rightarrow> st),
              sv_wal = w_wal w, sv_lastWAL = lastWAL, sv_tss = w_tss w,
              sv_enableTSSSync = se_tssSync e, sv_enableBuilder = se_builder e,
              sv_pool = w_pool w, sv_policy = pol, sv_lastBlock = Map.empty,
              sv_enableTSSSign = se_tssSign e, sv_signer = w_signer w, sv_bc = w_bc w,
              sv_sink = w_sink w\<rparr>,
            ms1 @ ms2 @ ms3))"

section \<open>The event loop\<close>

text \<open>
  What one event meets outside: the fate of its file-system calls, whether the broadcaster
  and the signer fail, the build environment, the JSON encoders and the measured latencies.
\<close>

record event_env =
  ee_json :: "walEntry json"
  ee_wal :: "nat \<Rightarrow> call_outcome"
  ee_bcast :: bool
  ee_build :: build_env
  ee_early :: bool
  ee_blockjson :: "StandardBlock \<Rightarrow> bytes"
  ee_sign :: bool
  ee_save :: "nat \<Rightarrow> call_outcome"
  ee_save_ms :: nat
  ee_ms :: nat

datatype effect = Broadcast Message | SignBlock u64 u64 bytes | FeeRecord ValueRecord

definition on_tx :: "event_env \<Rightarrow> Event \<Rightarrow> Service \<Rightarrow> Service \<times> metric list" where
  "on_tx env ev s =
     (case (sv_pool s, ev_Body ev) of
        (Some c, BodyPayload p) \<Rightarrow>
          (let (_, c', ms) = container_Add (be_sha (ee_build env), ee_early env) (be_now (ee_build env)) p c
           in (s\<lparr>sv_pool := Some c'\<rparr>, ms))
      | _ \<Rightarrow> (s, []))"

definition log_vote :: "event_env \<Rightarrow> Message \<Rightarrow> Service \<Rightarrow> fs \<Rightarrow> (status \<times> fs) \<times> metric list" where
  "log_vote env msg s m =
     (if sv_wal s \<noteq> None \<and> is_vote msg then AppendIntent (ee_wal env) (ee_json env) (sv_wal s) msg m
      else ((Completed, m), []))"

definition broadcast_vote :: "event_env \<Rightarrow> Message \<Rightarrow> Service \<Rightarrow> metric list \<times> effect list" where
  "broadcast_vote env msg s =
     (if sv_bc s \<and> is_vote msg
      then ([Inc ''consensus_broadcast_total'' [(''type'', type_string (m_Type msg)),
               (''result'', if ee_bcast env then ''ok'' else ''error'')]], [Broadcast msg])
      else ([], []))"

definition build_block :: "event_env \<Rightarrow> Message \<Rightarrow> Service \<Rightarrow> Service \<times> metric list" where
  "build_block env msg s =
     (case sv_pool s of
        Some c \<Rightarrow>
          if sv_enableBuilder s
          then let hdr = \<lparr>bh_Height = m_Height msg, bh_Round = m_Round msg\<rparr>;
                   (blk, ms) = PrepareProposal (ee_build env) c hdr (sv_policy s)
               in (case ProcessProposal blk (sv_policy s) of
                     Inl _ \<Rightarrow> (s, ms)
                   | Inr _ \<Rightarrow>
                       (let blk = blk\<lparr>sb_Stats := summarizeStats (sb_Items blk)\<rparr>;
                            row = getz Map.empty (sv_lastBlock s) (m_Height msg)
                        in (s\<lparr>sv_lastBlock := (sv_lastBlock s)(m_Height msg \<mapsto> row(m_Round msg \<mapsto> blk))\<rparr>, ms)))
          else (s, [])
      | None \<Rightarrow> (s, []))"

definition wal_allows :: "Service \<Rightarrow> Message \<Rightarrow> bool" where
  "wal_allows s msg \<longleftrightarrow>
     \<not> (is_vote msg \<and> m_Type (sv_lastWAL s) \<noteq> MsgOther []
        \<and> (m_Height msg < m_Height (sv_lastWAL s)
           \<or> (m_Height msg = m_Height (sv_lastWAL s) \<and> m_Round msg < m_Round (sv_lastWAL s))))"

definition block_at :: "Service \<Rightarrow> Message \<Rightarrow> StandardBlock option" where
  "block_at s msg = (case sv_lastBlock s (m_Height msg) of None \<Rightarrow> None | Some row \<Rightarrow> row (m_Round msg))"

definition block_value :: "event_env \<Rightarrow> Message \<Rightarrow> Service \<Rightarrow> metric list \<times> effect list" where
  "block_value env msg s =
     (case block_at s msg of
        None \<Rightarrow> ([], [])
      | Some blk \<Rightarrow>
          (let value = [ObserveSummary ''block_value_bids'' [] (unat (bs_TotalBids (sb_Stats blk))),
                        ObserveSummary ''block_value_fees'' [] (unat (bs_TotalFees (sb_Stats blk)))];
               rec = (if sv_sink s
                      then [FeeRecord \<lparr>vr_Height = m_Height msg, vr_Round = m_Round msg,
                              vr_Bids = bs_TotalBids (sb_Stats blk), vr_Fees = bs_TotalFees (sb_Stats blk),
                              vr_Items = int (length (sb_Items blk))\<rparr>]
                      else [])
           in if sv_enableTSSSign s \<and> sv_signer s \<and> m_Type msg = MsgCommit
              then (value @ [Inc ''block_sign_total'' [(''result'', if ee_sign env then ''ok'' else ''error'')]],
                    rec @ [SignBlock (m_Height msg) (m_Round msg) (be_sha (ee_build env) (ee_blockjson env blk))])
              else (value, rec)))"

text \<open>The part the WAL guard protects; the error of \<^verbatim>\<open>Process\<close> is ignored.\<close>

definition process_save :: "event_env \<Rightarrow> Message \<Rightarrow> Service \<Rightarrow> fs
    \<Rightarrow> (status \<times> Service \<times> fs) \<times> metric list \<times> effect list" where
  "process_save env msg s m =
     (let (_, st', ms1) = Process (sv_st s) msg;
          s1 = s\<lparr>sv_st := st'\<rparr>;
          (ms2, eff) = block_value env msg s1;
          ((r, store', m'), ms3) = store_save (ee_save env) (ee_save_ms env)
             \<lparr>ls_Height = m_Height msg, ls_Round = m_Round msg\<rparr> (sv_store s1) m
      in ((r, s1\<lparr>sv_store := store'\<rparr>, m'), ms1 @ ms2 @ ms3, eff))"

text \<open>What follows a successful verification.\<close>

definition on_verified :: "event_env \<Rightarrow> Message \<Rightarrow> Service \<Rightarrow> fs
    \<Rightarrow> (status \<times> Service \<times> fs) \<times> metric list \<times> effect list" where
  "on_verified env msg s m =
     (let ((r, m1), ms1) = log_vote env msg s m in
      if r = Crashed then ((Crashed, s, m1), ms1, [])
      else
        let (ms2, eff) = broadcast_vote env msg s;
            (s1, ms3) = build_block env msg s
        in if wal_allows s1 msg
           then let (res, ms4, eff') = process_save env msg s1 m1 in (res, ms1 @ ms2 @ ms3 @ ms4, eff @ eff')
           else ((Completed, s1, m1), ms1 @ ms2 @ ms3 @ [Inc ''qbft_wal_guard_drops_total'' []], eff))"

text \<open>
  One turn of the loop: the service afterwards (\<open>None\<close> when the process died), the files, the
  metrics and the calls to the outside.
\<close>

definition on_message :: "event_env \<Rightarrow> Message \<Rightarrow> Service \<Rightarrow> fs
    \<Rightarrow> (status \<times> Service \<times> fs) \<times> metric list \<times> effect list" where
  "on_message env msg s m =
     (case Verify (sv_v s) msg of
        (Inl _, v', ms) \<Rightarrow> ((Completed, s\<lparr>sv_v := v'\<rparr>, m), ms, [])
      | (Inr _, v', ms) \<Rightarrow>
          (let (res, ms', eff) = on_verified env msg (s\<lparr>sv_v := v'\<rparr>) m in (res, ms @ ms', eff)))"

definition on_event :: "event_env \<Rightarrow> Event \<Rightarrow> Service \<Rightarrow> fs
    \<Rightarrow> (Service option \<times> fs) \<times> metric list \<times> effect list" where
  "on_event env ev s m =
     (if ev_Kind ev = KindTx then let (s', ms) = on_tx env ev s in ((Some s', m), ms, [])
      else
        let k = [(''kind'', kind_string (ev_Kind ev))];
            ((r, s', m'), ms, eff) = on_message env (MapEventToQBFT ev) s m
        in if r = Crashed then ((None, m'), Inc ''consensus_events_total'' k # ms, eff)
           else ((Some s', m'),
                 Inc ''consensus_events_total'' k # ms @ [ObserveSummary ''consensus_proc_ms'' k (ee_ms env)], eff))"

fun run_events :: "(event_env \<times> Event) list \<Rightarrow> Service \<Rightarrow> fs
    \<Rightarrow> (Service option \<times> fs) \<times> metric list \<times> effect list" where
  "run_events [] s m = ((Some s, m), [], [])"
| "run_events ((env, ev) # es) s m =
     (case on_event env ev s m of
        ((None, m'), ms, eff) \<Rightarrow> ((None, m'), ms, eff)
      | ((Some s', m'), ms, eff) \<Rightarrow>
          (let (res, ms', eff') = run_events es s' m' in (res, ms @ ms', eff @ eff')))"

section \<open>Header verification\<close>

definition VerifyHeaderWithTSS :: "bytes \<Rightarrow> bytes \<Rightarrow> bytes \<Rightarrow> Service \<Rightarrow> bool \<times> metric list" where
  "VerifyHeaderWithTSS pkGroup header sig s =
     (case sv_tss s of
        Some verifyAgg \<Rightarrow>
          if sv_enableTSSSync s
          then (let ok = verifyAgg pkGroup header sig
                in (ok, [Inc ''state_sync_verified_total'' [(''result'', if ok then ''ok'' else ''fail'')]]))
          else (False, [Inc ''state_sync_verified_total'' [(''result'', ''disabled'')]])
      | None \<Rightarrow> (False, [Inc ''state_sync_verified_total'' [(''result'', ''disabled'')]]))"

section \<open>What an event touches\<close>

abbreviation res_status :: "(status \<times> Service \<times> fs) \<times> metric list \<times> effect list \<Rightarrow> status" where
  "res_status x \<equiv> fst (fst x)"

abbreviation res_svc :: "(status \<times> Service \<times> fs) \<times> metric list \<times> effect list \<Rightarrow> Service" where
  "res_svc x \<equiv> fst (snd (fst x))"

abbreviation res_fs :: "(status \<times> Service \<times> fs) \<times> metric list \<times> effect list \<Rightarrow> fs" where
  "res_fs x \<equiv> snd (snd (fst x))"

abbreviation res_eff :: "(status \<times> Service \<times> fs) \<times> metric list \<times> effect list \<Rightarrow> effect list" where
  "res_eff x \<equiv> snd (snd x)"

lemma build_block_frame:
  "fst (build_block env msg s) = s\<lparr>sv_lastBlock := sv_lastBlock (fst (build_block env msg s))\<rparr>"
  by (auto simp: build_block_def Let_def split: option.splits prod.splits sum.splits)

lemma build_block_simps [simp]:
  "sv_v (fst (build_block env msg s)) = sv_v s" "sv_st (fst (build_block env msg s)) = sv_st s"
  "sv_store (fst (build_block env msg s)) = sv_store s" "sv_wal (fst (build_block env msg s)) = sv_wal s"
  "sv_lastWAL (fst (build_block env msg s)) = sv_lastWAL s" "sv_policy (fst (build_block env msg s)) = sv_policy s"
  "sv_enableTSSSign (fst (build_block env msg s)) = sv_enableTSSSign s"
  "sv_signer (fst (build_block env msg s)) = sv_signer s" "sv_sink (fst (build_block env msg s)) = sv_sink s"
  by (subst build_block_frame, simp)+

lemma wal_allows_build [simp]: "wal_allows (fst (build_block env msg s)) msg = wal_allows s msg"
  by (simp add: wal_allows_def)

lemma process_save_svc:
  "res_svc (process_save env msg s m) =
     s\<lparr>sv_st := process_next (sv_st s) msg,
       sv_store := fst (snd (fst (store_save (ee_save env) (ee_save_ms env)
         \<lparr>ls_Height = m_Height msg, ls_Round = m_Round msg\<rparr> (sv_store s) m)))\<rparr>"
  by (simp add: process_save_def Let_def case_prod_beta)

text \<open>The message reaches the state machine.\<close>

definition handled :: "event_env \<Rightarrow> Message \<Rightarrow> Service \<Rightarrow> fs \<Rightarrow> bool" where
  "handled env msg s m \<longleftrightarrow> is_ok (verdict (sv_v s) msg) \<and> wal_allows s msg
     \<and> fst (fst (log_vote env msg s m)) \<noteq> Crashed"

lemma wal_allows_v [simp]: "wal_allows (s\<lparr>sv_v := v\<rparr>) msg = wal_allows s msg"
  by (simp add: wal_allows_def)

lemma log_vote_v [simp]: "log_vote env msg (s\<lparr>sv_v := v\<rparr>) m = log_vote env msg s m"
  by (simp add: log_vote_def)

lemma broadcast_vote_v [simp]: "broadcast_vote env msg (s\<lparr>sv_v := v\<rparr>) = broadcast_vote env msg s"
  by (simp add: broadcast_vote_def)

lemma is_ok_cases: "is_ok r \<Longrightarrow> (\<And>x. r = Inr x \<Longrightarrow> P) \<Longrightarrow> P"
  by (cases r) auto

lemma on_message_rejected:
  "\<not> is_ok (verdict (sv_v s) msg) \<Longrightarrow>
     on_message env msg s m = ((Completed, s\<lparr>sv_v := verify_next (sv_v s) msg\<rparr>, m), snd (snd (Verify (sv_v s) msg)), [])"
  by (cases "Verify (sv_v s) msg"; cases "verdict (sv_v s) msg") (auto simp: on_message_def)

lemma on_message_verified:
  assumes "is_ok (verdict (sv_v s) msg)"
  shows "fst (on_message env msg s m) = fst (on_verified env msg (s\<lparr>sv_v := verify_next (sv_v s) msg\<rparr>) m)"
    and "res_eff (on_message env msg s m) = res_eff (on_verified env msg (s\<lparr>sv_v := verify_next (sv_v s) msg\<rparr>) m)"
  using assms
  by (cases "Verify (sv_v s) msg"; cases "verdict (sv_v s) msg"; simp add: on_message_def case_prod_beta)+

lemma on_message_v [simp]: "sv_v (res_svc (on_message env msg s m)) = verify_next (sv_v s) msg"
proof (cases "is_ok (verdict (sv_v s) msg)")
  case True
  show ?thesis
    unfolding on_message_verified(1) [OF True]
    by (simp add: on_verified_def Let_def case_prod_beta process_save_svc)
qed (simp add: on_message_rejected)

lemma on_message_st:
  "sv_st (res_svc (on_message env msg s m)) =
     (if handled env msg s m then process_next (sv_st s) msg else sv_st s)"
proof (cases "is_ok (verdict (sv_v s) msg)")
  case True
  then show ?thesis
    unfolding on_message_verified(1) [OF True]
    by (simp add: on_verified_def handled_def Let_def case_prod_beta process_save_svc)
qed (simp add: on_message_rejected handled_def)

lemma on_tx_frame: "fst (on_tx env ev s) = s\<lparr>sv_pool := sv_pool (fst (on_tx env ev s))\<rparr>"
  by (auto simp: on_tx_def Let_def split: option.splits body.splits prod.splits)

lemma on_tx_simps [simp]:
  "sv_v (fst (on_tx env ev s)) = sv_v s" "sv_st (fst (on_tx env ev s)) = sv_st s"
  "sv_store (fst (on_tx env ev s)) = sv_store s" "sv_wal (fst (on_tx env ev s)) = sv_wal s"
  "sv_policy (fst (on_tx env ev s)) = sv_policy s" "sv_lastBlock (fst (on_tx env ev s)) = sv_lastBlock s"
  by (subst on_tx_frame, simp)+

text \<open>An event is a transaction, or a message handled to its end or to a crash.\<close>

lemma on_event_cases:
  assumes "on_event env ev s m = ((so, m'), ms, eff)"
  obtains (tx) "ev_Kind ev = KindTx" "so = Some (fst (on_tx env ev s))" "m' = m" "eff = []"
  | (msg) x where "x = on_message env (MapEventToQBFT ev) s m" "ev_Kind ev \<noteq> KindTx"
      "so = (if res_status x = Crashed then None else Some (res_svc x))" "m' = res_fs x" "eff = res_eff x"
proof (cases "ev_Kind ev = KindTx")
  case True
  with assms show thesis by (intro tx) (auto simp: on_event_def Let_def case_prod_beta)
next
  case False
  with assms show thesis
    by (intro msg [OF refl]) (auto simp: on_event_def Let_def case_prod_beta split: if_splits)
qed

lemma run_events_induct:
  assumes "run_events es s m = ((Some s', m'), ms, eff)" and "P s m"
    and "\<And>env ev s m s' m' ms eff. (env, ev) \<in> set es \<Longrightarrow> on_event env ev s m = ((Some s', m'), ms, eff) \<Longrightarrow> P s m \<Longrightarrow> P s' m'"
  shows "P s' m'"
  using assms
proof (induction es arbitrary: s m ms eff)
  case (Cons e es)
  obtain env ev where [simp]: "e = (env, ev)" by (cases e)
  from Cons.prems(1) obtain s1 m1 ms1 eff1 ms2 eff2 where
    one: "on_event env ev s m = ((Some s1, m1), ms1, eff1)" and rest: "run_events es s1 m1 = ((Some s', m'), ms2, eff2)"
    by (auto split: prod.splits option.splits)
  have "P s1 m1" using Cons.prems(3) [of env ev s m s1 m1] one Cons.prems(2) by simp
  with Cons.IH [OF rest] Cons.prems(3) show ?case by (metis list.set_intros(2))
qed simp

section \<open>The default verifier never lets a vote count\<close>

text \<open>
  \<open>S\<close> are the ids the verifier has recorded: the open proposal is one of them, so no vote for
  it can pass the verifier again.
\<close>

definition calm :: "string set \<Rightarrow> State \<Rightarrow> bool" where
  "calm S st \<longleftrightarrow> s_Phase st \<in> {PhIdle, PhPreprepared} \<and> (s_proposalID st = [] \<or> s_proposalID st \<in> S)"

lemma calm_mono: "calm S st \<Longrightarrow> S \<subseteq> T \<Longrightarrow> calm T st"
  by (auto simp: calm_def)

lemma calm_set_coords [simp]: "calm S (set_coords st m) = calm S st"
  by (simp add: calm_def set_coords_def Let_def)

lemma calm_votes:
  assumes "calm S st" and "m_ID m \<notin> S" and "is_vote m"
  shows "\<exists>e. dispatch st m = (Inl e, st, [])"
  using assms by (auto simp: calm_def dispatch_def is_vote_def on_prepare_def on_commit_def)

lemma calm_dispatch:
  assumes "calm S st" and "m_ID m \<notin> S"
  shows "calm (insert (m_ID m) S) (fst (snd (dispatch st m)))"
proof (cases "is_vote m")
  case True
  with calm_votes [OF assms True] assms(1) show ?thesis by (auto intro: calm_mono)
next
  case False
  then show ?thesis using assms
    by (cases "m_Type m")
      (auto simp: is_vote_def calm_def dispatch_def on_preprepare_def on_view_change_def on_new_view_def
        enter_round_def Let_def)
qed

lemma Process_next_dispatch: "process_next st m = fst (snd (dispatch (set_coords st m) m))"
  by (simp add: Process_def split: prod.splits sum.splits)

lemma Process_result_dispatch: "process_result st m = fst (dispatch (set_coords st m) m)"
  by (simp add: Process_def split: prod.splits sum.splits)

lemma calm_process: "calm S st \<Longrightarrow> m_ID m \<notin> S \<Longrightarrow> calm (insert (m_ID m) S) (process_next st m)"
  unfolding Process_next_dispatch by (rule calm_dispatch) simp_all

definition svc_calm :: "Service \<Rightarrow> bool" where
  "svc_calm s \<longleftrightarrow> (\<exists>S. id_mode (sv_v s) S \<and> calm S (sv_st s))"

lemma svc_calm_message:
  assumes "svc_calm s"
  shows "svc_calm (res_svc (on_message env msg s m))"
proof -
  from assms obtain S where S: "id_mode (sv_v s) S" "calm S (sv_st s)" by (auto simp: svc_calm_def)
  let ?T = "if admissible_pre (sv_v s) msg then insert (m_ID msg) S else S"
  note step = id_mode_step [OF S(1), of msg]
  have "calm ?T (sv_st (res_svc (on_message env msg s m)))"
  proof (cases "handled env msg s m")
    case True
    with step(2) S(2) show ?thesis by (simp add: on_message_st handled_def calm_process)
  next
    case False
    with S(2) show ?thesis by (auto simp: on_message_st intro: calm_mono)
  qed
  with step(1) show ?thesis by (auto simp: svc_calm_def)
qed

lemma svc_calm_event: "on_event env ev s m = ((Some s', m'), ms, eff) \<Longrightarrow> svc_calm s \<Longrightarrow> svc_calm s'"
  by (erule on_event_cases) (auto simp: svc_calm_message split: if_splits, simp add: svc_calm_def)

lemma svc_calm_run:
  assumes "run_events es s m = ((Some s', m'), ms, eff)" and "svc_calm s"
  shows "svc_calm s'"
  using assms(1) assms(2) by (rule run_events_induct [where P = "\<lambda>s m. svc_calm s"]) (rule svc_calm_event)

lemma Start_parts:
  assumes "Start e J w m = (Some s, ms)"
  shows "w_v w = None \<Longrightarrow> sv_v s = NewBasicVerifierWithPolicy DefaultPolicy"
    and "w_st w = None \<Longrightarrow> sv_st s = new_State []"
    and "sv_lastBlock s = Map.empty" and "sv_wal s = w_wal w"
    and "sv_lastWAL s = (case w_wal w of None \<Rightarrow> zero_Message
       | Some path \<Rightarrow> (case fst (LastIntent J (Some path) m) of Inl _ \<Rightarrow> zero_Message | Inr l \<Rightarrow> l))"
  using assms
  by (auto simp: Start_def Let_def case_prod_beta split: if_splits option.splits sum.splits)

lemma svc_calm_Start:
  assumes "Start e J w m = (Some s, ms)" and "w_v w = None" and "w_st w = None"
  shows "svc_calm s"
proof -
  have "calm {} (new_State [])" by (simp add: calm_def new_State_def)
  with id_mode_default Start_parts(1,2) [OF assms(1)] assms(2,3) show ?thesis
    by (auto simp: svc_calm_def)
qed

lemma svc_calm_vote:
  assumes "svc_calm s" and "is_ok (verdict (sv_v s) msg)" and "is_vote msg"
  shows "\<exists>e. process_result (sv_st s) msg = Inl e"
proof -
  from assms(1) obtain S where S: "id_mode (sv_v s) S" "calm S (sv_st s)" by (auto simp: svc_calm_def)
  from id_mode_step(2) [OF S(1) assms(2)] have "m_ID msg \<notin> S" ..
  with calm_votes [of S "set_coords (sv_st s) msg" msg] S(2) assms(3) show ?thesis
    by (auto simp: Process_result_dispatch)
qed

section \<open>Stored blocks\<close>

definition blocks_ok :: "Service \<Rightarrow> bool" where
  "blocks_ok s \<longleftrightarrow> (\<forall>msg blk. block_at s msg = Some blk \<longrightarrow>
     sb_Header blk = \<lparr>bh_Height = m_Height msg, bh_Round = m_Round msg\<rparr>
     \<and> is_ok (ProcessProposal blk (sv_policy s)) \<and> sb_Stats blk = summarizeStats (sb_Items blk))"

lemma block_at_cong: "sv_lastBlock s' = sv_lastBlock s \<Longrightarrow> block_at s' = block_at s"
  by (intro ext) (simp add: block_at_def)

lemma blocks_ok_cong: "sv_lastBlock s' = sv_lastBlock s \<Longrightarrow> sv_policy s' = sv_policy s \<Longrightarrow> blocks_ok s' = blocks_ok s"
  by (simp add: blocks_ok_def block_at_cong [of s' s])

lemma PrepareProposal_Header [simp]: "sb_Header (fst (PrepareProposal env c hdr pol)) = hdr"
  by (simp add: PrepareProposal_def prepareProposalDFBA_def Let_def case_prod_beta)

lemma ProcessProposal_stats [simp]: "ProcessProposal (b\<lparr>sb_Stats := x\<rparr>) pol = ProcessProposal b pol"
  by (simp add: ProcessProposal_def)

text \<open>The block an event builds, when it passes the check.\<close>

definition fresh_block :: "event_env \<Rightarrow> Message \<Rightarrow> Service \<Rightarrow> StandardBlock option" where
  "fresh_block env msg s =
     (case sv_pool s of
        None \<Rightarrow> None
      | Some c \<Rightarrow>
          (let blk = fst (PrepareProposal (ee_build env) c \<lparr>bh_Height = m_Height msg, bh_Round = m_Round msg\<rparr> (sv_policy s))
           in if sv_enableBuilder s \<and> is_ok (ProcessProposal blk (sv_policy s))
              then Some (blk\<lparr>sb_Stats := summarizeStats (sb_Items blk)\<rparr>) else None))"

lemma fresh_block_v [simp]: "fresh_block env msg (s\<lparr>sv_v := v\<rparr>) = fresh_block env msg s"
  by (simp add: fresh_block_def split: option.split)

lemma build_block_at:
  "block_at (fst (build_block env msg s)) x =
     (if m_Height x = m_Height msg \<and> m_Round x = m_Round msg \<and> fresh_block env msg s \<noteq> None
      then fresh_block env msg s else block_at s x)"
  by (auto simp: build_block_def fresh_block_def block_at_def getz_def Let_def case_prod_beta
      split: option.splits sum.splits)

lemma fresh_block_ok:
  "fresh_block env msg s = Some blk \<Longrightarrow>
     sb_Header blk = \<lparr>bh_Height = m_Height msg, bh_Round = m_Round msg\<rparr>
     \<and> is_ok (ProcessProposal blk (sv_policy s)) \<and> sb_Stats blk = summarizeStats (sb_Items blk)"
  by (auto simp: fresh_block_def Let_def split: option.splits if_splits)

lemma blocks_ok_build: "blocks_ok s \<Longrightarrow> blocks_ok (fst (build_block env msg s))"
  using fresh_block_ok [of env msg s] by (simp add: blocks_ok_def build_block_at)

lemma blocks_ok_v [simp]: "blocks_ok (s\<lparr>sv_v := v\<rparr>) = blocks_ok s"
  by (rule blocks_ok_cong) simp_all

lemma blocks_ok_message: "blocks_ok s \<Longrightarrow> blocks_ok (res_svc (on_message env msg s m))"
proof (cases "is_ok (verdict (sv_v s) msg)")
  case True
  assume ok: "blocks_ok s"
  let ?s = "s\<lparr>sv_v := verify_next (sv_v s) msg\<rparr>"
  have saved: "blocks_ok (res_svc (process_save env msg t m1)) = blocks_ok t" for t m1
    unfolding process_save_svc by (rule blocks_ok_cong) simp_all
  have built: "blocks_ok (fst (build_block env msg ?s))" by (rule blocks_ok_build) (simp add: ok)
  show ?thesis
    unfolding on_message_verified(1) [OF True]
    using ok built by (simp add: on_verified_def Let_def case_prod_beta saved)
qed (simp add: on_message_rejected)

lemma blocks_ok_event: "on_event env ev s m = ((Some s', m'), ms, eff) \<Longrightarrow> blocks_ok s \<Longrightarrow> blocks_ok s'"
  by (erule on_event_cases)
    (auto simp: blocks_ok_message blocks_ok_cong [of "fst (on_tx env ev s)" s] split: if_splits)

lemma blocks_ok_run:
  assumes "run_events es s m = ((Some s', m'), ms, eff)" and "blocks_ok s"
  shows "blocks_ok s'"
  using assms(1) assms(2) by (rule run_events_induct [where P = "\<lambda>s m. blocks_ok s"]) (rule blocks_ok_event)

lemma on_message_policy [simp]: "sv_policy (res_svc (on_message env msg s m)) = sv_policy s"
proof (cases "is_ok (verdict (sv_v s) msg)")
  case True
  show ?thesis
    unfolding on_message_verified(1) [OF True]
    by (simp add: on_verified_def Let_def case_prod_beta process_save_svc)
qed (simp add: on_message_rejected)

section \<open>Broadcast votes\<close>

definition sent :: "effect list \<Rightarrow> Message list" where
  "sent eff = List.map_filter (\<lambda>x. case x of Broadcast m \<Rightarrow> Some m | _ \<Rightarrow> None) eff"

lemma sent_append [simp]: "sent (xs @ ys) = sent xs @ sent ys"
  by (simp add: sent_def map_filter_def)

lemma sent_simps [simp]:
  "sent [] = []" "sent (Broadcast m # xs) = m # sent xs" "sent (SignBlock h r d # xs) = sent xs"
  "sent (FeeRecord v # xs) = sent xs"
  by (simp_all add: sent_def map_filter_simps)

lemma sent_block_value [simp]: "sent (snd (block_value env msg s)) = []"
  by (simp add: block_value_def Let_def split: option.splits)

lemma sent_process_save [simp]: "sent (res_eff (process_save env msg s m)) = []"
  by (simp add: process_save_def Let_def case_prod_beta)

lemma sent_message:
  "sent (res_eff (on_message env msg s m)) =
     (if is_ok (verdict (sv_v s) msg) \<and> sv_bc s \<and> is_vote msg \<and> fst (fst (log_vote env msg s m)) \<noteq> Crashed
      then [msg] else [])"
proof (cases "is_ok (verdict (sv_v s) msg)")
  case True
  then show ?thesis
    unfolding on_message_verified(2) [OF True]
    by (simp add: on_verified_def Let_def case_prod_beta) (simp add: broadcast_vote_def)
qed (simp add: on_message_rejected)

lemma sent_run:
  assumes "run_events es s m = (res, ms, eff)" and "id_mode (sv_v s) S"
  shows "distinct (map m_ID (sent eff)) \<and> m_ID ` set (sent eff) \<inter> S = {} \<and> (\<forall>x \<in> set (sent eff). is_vote x)"
  using assms
proof (induction es arbitrary: s m S res ms eff)
  case (Cons e es)
  obtain env ev where [simp]: "e = (env, ev)" by (cases e)
  obtain so m1 ms1 eff1 where one: "on_event env ev s m = ((so, m1), ms1, eff1)" by (metis surj_pair)
  obtain T where T: "distinct (map m_ID (sent eff1))" "m_ID ` set (sent eff1) \<inter> S = {}"
    "\<forall>x \<in> set (sent eff1). is_vote x" "S \<union> m_ID ` set (sent eff1) \<subseteq> T" "\<And>s1. so = Some s1 \<Longrightarrow> id_mode (sv_v s1) T"
    using one
  proof (cases rule: on_event_cases)
    case tx
    with Cons.prems(2) that [of S] show thesis by simp
  next
    case (msg x)
    note step = id_mode_step [OF Cons.prems(2), of "MapEventToQBFT ev"]
    show thesis
    proof (rule that)
      show "id_mode (sv_v s1) (if admissible_pre (sv_v s) (MapEventToQBFT ev) then insert (m_ID (MapEventToQBFT ev)) S else S)"
        if "so = Some s1" for s1
        using that msg step(1) by (auto split: if_splits)
    qed (use step(2) in \<open>auto simp: msg sent_message\<close>)
  qed
  show ?case
  proof (cases so)
    case None
    with Cons.prems(1) one T(1-3) show ?thesis by simp
  next
    case (Some s1)
    with Cons.prems(1) one obtain res' ms2 eff2 where
      rest: "run_events es s1 m1 = (res', ms2, eff2)" and "eff = eff1 @ eff2" by (auto split: prod.splits)
    moreover note IH = Cons.IH [OF rest T(5) [OF Some]]
    moreover have "m_ID ` set (sent eff1) \<inter> m_ID ` set (sent eff2) = {}" using T(4) IH by blast
    ultimately show ?thesis using T(1-4)
      by (simp add: image_Un Int_Un_distrib2 ball_Un) blast
  qed
qed simp

section \<open>Persisted coordinates\<close>

text \<open>The service saves to a file, and the vote log is another file.\<close>

definition file_backed :: "string \<Rightarrow> Service \<Rightarrow> fs \<Rightarrow> bool" where
  "file_backed path s m \<longleftrightarrow> sv_store s = FileStore path \<and> main_ok decode_state path m
     \<and> sv_wal s \<noteq> Some path \<and> sv_wal s \<noteq> Some (bak_of path)"

abbreviation coords :: "Message \<Rightarrow> LastState" where
  "coords msg \<equiv> \<lparr>ls_Height = m_Height msg, ls_Round = m_Round msg\<rparr>"

lemma log_vote_frame:
  assumes "sv_wal s \<noteq> Some q"
  shows "snd (fst (log_vote env msg s m)) q = m q"
proof (cases "sv_wal s")
  case (Some w)
  obtain r m1 where run: "run_ops (ee_wal env) (wal_ops (ee_json env) w msg) m = (r, m1)" by fastforce
  from run_ops_only_on [OF run, of w q] assms Some have "m1 q = m q" by (simp add: wal_ops_def)
  with Some run show ?thesis by (simp add: log_vote_def AppendIntent_def)
qed (simp add: log_vote_def)

lemma file_backed_log:
  assumes "file_backed path s m"
  shows "main_ok decode_state path (snd (fst (log_vote env msg s m)))"
    and "file_load path (snd (fst (log_vote env msg s m))) = file_load path m"
proof -
  let ?m = "snd (fst (log_vote env msg s m))"
  have frame: "?m path = m path" "?m (bak_of path) = m (bak_of path)"
    using assms by (simp_all add: file_backed_def log_vote_frame)
  show "main_ok decode_state path ?m"
    using assms main_ok_cong [where dec = decode_state and m' = ?m and m = m and p = path, OF frame(1)] by (simp add: file_backed_def)
  show "file_load path ?m = file_load path m"
    unfolding fst_file_LoadLastState using frame by (rule load_at_cong)
qed

lemma store_save_file:
  "fst (store_save \<phi> ms ls (FileStore path) m) =
     (let (r, m') = file_save path (\<phi>, ms) ls m in (r, FileStore path, m'))"
  by (simp add: store_save_def Let_def case_prod_beta)

lemma process_save_file:
  assumes "sv_store s = FileStore path"
  shows "fst (process_save env msg s m) =
     (let (r, m') = file_save path (ee_save env, ee_save_ms env) (coords msg) m
      in (r, s\<lparr>sv_st := process_next (sv_st s) msg, sv_store := FileStore path\<rparr>, m'))"
  using assms store_save_file [of "ee_save env" "ee_save_ms env" "coords msg" path m]
  by (simp add: process_save_def Let_def case_prod_beta)

text \<open>One message: what a later load may return.\<close>

lemma message_persist:
  assumes "file_backed path s m" and "x = on_message env msg s m"
  shows "file_backed path (res_svc x) (res_fs x)"
    and "\<not> handled env msg s m \<Longrightarrow> file_load path (res_fs x) = file_load path m"
    and "handled env msg s m \<Longrightarrow> res_status x = Completed \<Longrightarrow> file_load path (res_fs x) = Some (coords msg)"
    and "handled env msg s m \<Longrightarrow> file_load path (res_fs x) \<in> {file_load path m, Some (coords msg)}"
proof -
  note fb = assms(1) [unfolded file_backed_def]
  let ?m1 = "snd (fst (log_vote env msg s m))"
  note log = file_backed_log [OF assms(1), of env msg]
  have main: "file_backed path (res_svc x) (res_fs x)
    \<and> (\<not> handled env msg s m \<longrightarrow> file_load path (res_fs x) = file_load path m)
    \<and> (handled env msg s m \<longrightarrow> (res_status x = Completed \<longrightarrow> file_load path (res_fs x) = Some (coords msg))
         \<and> file_load path (res_fs x) \<in> {file_load path m, Some (coords msg)})"
  proof (cases "handled env msg s m")
    case False
    then have "res_fs x = m \<or> res_fs x = ?m1" "sv_store (res_svc x) = sv_store s" "sv_wal (res_svc x) = sv_wal s"
      using assms(2)
      by (cases "is_ok (verdict (sv_v s) msg)";
          simp add: on_message_rejected on_message_verified on_verified_def handled_def Let_def case_prod_beta)+
    with fb log False show ?thesis by (auto simp: file_backed_def)
  next
    case True
    define t where "t = fst (build_block env msg (s\<lparr>sv_v := verify_next (sv_v s) msg\<rparr>))"
    have t: "sv_store t = FileStore path" "sv_wal t = sv_wal s" using fb by (simp_all add: t_def)
    obtain r m' where save: "file_save path (ee_save env, ee_save_ms env) (coords msg) ?m1 = (r, m')" by fastforce
    from True have ok: "is_ok (verdict (sv_v s) msg)" by (simp add: handled_def)
    have "fst x = fst (process_save env msg t ?m1)"
      using True unfolding assms(2) on_message_verified(1) [OF ok]
      by (simp add: on_verified_def handled_def t_def Let_def case_prod_beta)
    then have x: "res_status x = r" "res_fs x = m'" "sv_store (res_svc x) = FileStore path" "sv_wal (res_svc x) = sv_wal s"
      using save t by (simp_all add: process_save_file [OF t(1)])
    have "main_ok decode_state path m'" by (rule fstore.save_inv [OF log(1) save])
    moreover have "file_load path m' \<in> {file_load path m, Some (coords msg)}"
      "r = Completed \<longrightarrow> file_load path m' = Some (coords msg)"
      using fstore.save_completed [OF log(1)] fstore.save_errored [OF log(1)] fstore.save_crashed [OF log(1)] save log(2)
      by (cases r; metis insert_iff)+
    ultimately show ?thesis using x fb True by (simp add: file_backed_def)
  qed
  then show "file_backed path (res_svc x) (res_fs x)"
    and "\<not> handled env msg s m \<Longrightarrow> file_load path (res_fs x) = file_load path m"
    and "handled env msg s m \<Longrightarrow> res_status x = Completed \<Longrightarrow> file_load path (res_fs x) = Some (coords msg)"
    and "handled env msg s m \<Longrightarrow> file_load path (res_fs x) \<in> {file_load path m, Some (coords msg)}"
    by blast+
qed

text \<open>The messages a run hands to the verifier and that it accepts.\<close>

definition event_messages :: "(event_env \<times> Event) list \<Rightarrow> Message list" where
  "event_messages es = map (MapEventToQBFT \<circ> snd) (filter (\<lambda>e. ev_Kind (snd e) \<noteq> KindTx) es)"

lemma run_persist:
  assumes "run_events es s m = ((so, m'), ms, eff)" and "file_backed path s m"
  shows "file_load path m' \<in> insert (file_load path m) (Some ` coords ` set (accepted (sv_v s) (event_messages es)))"
  using assms
proof (induction es arbitrary: s m so m' ms eff)
  case (Cons e es)
  obtain env ev where [simp]: "e = (env, ev)" by (cases e)
  obtain so1 m1 ms1 eff1 where one: "on_event env ev s m = ((so1, m1), ms1, eff1)" by (metis surj_pair)
  from one show ?case
  proof (cases rule: on_event_cases)
    case tx
    with Cons.prems(1) one obtain ms2 eff2 where
      "run_events es (fst (on_tx env ev s)) m = ((so, m'), ms2, eff2)" by (auto split: prod.splits)
    moreover have "file_backed path (fst (on_tx env ev s)) m" using Cons.prems(2) by (simp add: file_backed_def)
    ultimately show ?thesis using Cons.IH tx(1) by (fastforce simp: event_messages_def)
  next
    case (msg x)
    let ?msg = "MapEventToQBFT ev"
    note p = message_persist [OF Cons.prems(2) msg(1)]
    have here: "file_load path m1 \<in> insert (file_load path m) (Some ` coords ` set (accepted (sv_v s) [?msg]))"
      using p(2,4) msg(4) by (cases "handled env ?msg s m") (auto simp: handled_def)
    have ems: "event_messages (e # es) = ?msg # event_messages es" using msg(2) by (simp add: event_messages_def)
    show ?thesis
    proof (cases so1)
      case None
      with Cons.prems(1) one have "m' = m1" by simp
      with here show ?thesis unfolding ems by (auto split: if_splits)
    next
      case (Some s1)
      then have s1: "s1 = res_svc x" using msg(3) by (simp split: if_splits)
      from Some Cons.prems(1) one obtain ms2 eff2 where rest: "run_events es s1 m1 = ((so, m'), ms2, eff2)"
        by (auto split: prod.splits)
      from Cons.IH [OF rest] p(1) s1 msg(4)
      have "file_load path m' \<in> insert (file_load path m1) (Some ` coords ` set (accepted (sv_v s1) (event_messages es)))" by blast
      moreover have "sv_v s1 = verify_next (sv_v s) ?msg" using s1 msg(1) by simp
      ultimately show ?thesis using here unfolding ems by (auto split: if_splits)
    qed
  qed
qed simp

section \<open>Block value\<close>

fun bid_of :: "payload \<Rightarrow> nat" where
  "bid_of (Auction tx) = unat (at_Bid tx)" | "bid_of _ = 0"

fun fee_of :: "payload \<Rightarrow> nat" where
  "fee_of (Plaintext tx) = unat (pt_Fee tx)" | "fee_of _ = 0"

lemma add_stats_simps [simp]:
  "bs_Items (add_stats st it) = bs_Items st"
  "bs_TotalBids (add_stats st it) = bs_TotalBids st + of_nat (bid_of it)"
  "bs_TotalFees (add_stats st it) = bs_TotalFees st + of_nat (fee_of it)"
  by (cases it; simp add: add_stats_def)+

lemma foldl_add_stats:
  "bs_Items (foldl add_stats st items) = bs_Items st"
  "bs_TotalBids (foldl add_stats st items) = bs_TotalBids st + of_nat (sum_list (map bid_of items))"
  "bs_TotalFees (foldl add_stats st items) = bs_TotalFees st + of_nat (sum_list (map fee_of items))"
  by (induction items arbitrary: st) simp_all

section \<open>Properties\<close>

text \<open>
  C15: a service started with the default verifier and state machine, as \<^verbatim>\<open>main\<close> wires it,
  never leaves the phases idle and preprepared, whatever events arrive: a vote must carry the
  id of the proposal, and the id-level anti-replay has recorded that id when it accepted the
  proposal. Every prepare and commit that passes the verifier is rejected by the state machine.
\<close>

theorem consensus_never_prepares:
  assumes "Start e J w m = (Some s, ms0)" and "w_v w = None" and "w_st w = None"
    and "run_events es s m = ((Some s', m'), ms, eff)"
  shows "s_Phase (sv_st s') \<in> {PhIdle, PhPreprepared}
    \<and> (\<forall>msg. is_vote msg \<longrightarrow> is_ok (verdict (sv_v s') msg) \<longrightarrow> (\<exists>e. process_result (sv_st s') msg = Inl e))"
proof -
  have calm: "svc_calm s'" by (rule svc_calm_run [OF assms(4) svc_calm_Start [OF assms(1-3)]])
  then have "s_Phase (sv_st s') \<in> {PhIdle, PhPreprepared}" by (auto simp: svc_calm_def calm_def)
  with svc_calm_vote [OF calm] show ?thesis by blast
qed

text \<open>
  C16: with signing and the builder enabled, every commit message that passes the default
  verifier makes the node sign the block of its coordinate, although the state machine rejects
  the message: no prepare or commit certificate exists for the block.
\<close>

theorem commit_signed_without_certificate:
  assumes "Start e J w m = (Some s, ms0)" and "w_v w = None" and "w_st w = None"
    and "run_events es s m = ((Some s1, m1), ms, eff)"
    and "ev_Kind ev = KindConsensus" and "ev_Body ev = BodyMessage msg" and "m_Type msg = MsgCommit"
    and "is_ok (verdict (sv_v s1) msg)" and "sv_enableTSSSign s1" and "sv_signer s1" and "sv_wal s1 = None"
    and "wal_allows s1 msg" and "fresh_block env msg s1 = Some blk"
  shows "process_result (sv_st s1) msg = Inl ErrCommitBeforePrepared
    \<and> SignBlock (m_Height msg) (m_Round msg) (be_sha (ee_build env) (ee_blockjson env blk))
        \<in> set (snd (snd (on_event env ev s1 m1)))"
proof -
  have calm: "svc_calm s1" by (rule svc_calm_run [OF assms(4) svc_calm_Start [OF assms(1-3)]])
  then have "s_Phase (sv_st s1) \<in> {PhIdle, PhPreprepared}" by (auto simp: svc_calm_def calm_def)
  then have rej: "process_result (sv_st s1) msg = Inl ErrCommitBeforePrepared"
    using assms(7) by (auto simp: Process_result_dispatch dispatch_def on_commit_def set_coords_def)
  let ?v = "verify_next (sv_v s1) msg" and ?m = "snd (fst (log_vote env msg s1 m1))"
  define t where "t = fst (build_block env msg (s1\<lparr>sv_v := ?v\<rparr>))"
  have "fresh_block env msg (s1\<lparr>sv_v := ?v\<rparr>) = Some blk" using assms(13) by simp
  then have blk: "block_at (t\<lparr>sv_st := st\<rparr>) msg = Some blk" for st
    using build_block_at [of env msg "s1\<lparr>sv_v := ?v\<rparr>" msg] block_at_cong [of "t\<lparr>sv_st := st\<rparr>" t]
    by (simp add: t_def)
  have "SignBlock (m_Height msg) (m_Round msg) (be_sha (ee_build env) (ee_blockjson env blk))
      \<in> set (res_eff (process_save env msg t ?m))"
    using assms(7,9,10) by (simp add: process_save_def Let_def case_prod_beta block_value_def blk) (simp add: t_def)
  then have "SignBlock (m_Height msg) (m_Round msg) (be_sha (ee_build env) (ee_blockjson env blk))
      \<in> set (res_eff (on_message env msg s1 m1))"
    unfolding on_message_verified(2) [OF assms(8)] using assms(11,12)
    by (simp add: on_verified_def log_vote_def t_def Let_def case_prod_beta)
  moreover have "MapEventToQBFT ev = msg" using assms(5,6) by (simp add: MapEventToQBFT_def)
  then have "snd (snd (on_event env ev s1 m1)) = res_eff (on_message env msg s1 m1)"
    using assms(5) by (simp add: on_event_def Let_def case_prod_beta)
  ultimately show ?thesis using rej by simp
qed

text \<open>
  the guard against stale votes drops a vote only after it was logged and broadcast. The
  state machine does not see such a vote, but the log then ends with it: the service
  restarted on these files guards with the older vote, so its guard has moved backwards.
\<close>

theorem stale_vote_moves_guard:
  assumes "sv_wal s = Some path" and "whole path m" and "sv_bc s" and "is_vote msg"
    and "wal_codec_ok (ee_json env) (entry_of msg)" and "ee_wal env = (\<lambda>_. Carried)"
    and "is_ok (verdict (sv_v s) msg)" and "\<not> wal_allows s msg"
    and "on_message env msg s m = ((r, s', m'), ms, eff)"
    and "w_wal w = Some path" and "Start e (ee_json env) w m' = (Some s2, ms2)"
  shows "sv_st s' = sv_st s \<and> eff = [Broadcast msg]
    \<and> m_Type (sv_lastWAL s2) = m_Type msg
    \<and> m_Height (sv_lastWAL s2) = m_Height msg \<and> m_Round (sv_lastWAL s2) = m_Round msg
    \<and> (m_Height (sv_lastWAL s2) < m_Height (sv_lastWAL s)
       \<or> m_Height (sv_lastWAL s2) = m_Height (sv_lastWAL s) \<and> m_Round (sv_lastWAL s2) < m_Round (sv_lastWAL s))"
proof -
  let ?J = "ee_json env"
  obtain m1 ev where app: "AppendIntent (\<lambda>_. Carried) ?J (Some path) msg m = ((Completed, m1), ev)"
    using assms(4) by (auto simp: AppendIntent_def wal_ops_def)
  then have log: "log_vote env msg s m = ((Completed, m1), ev)" using assms(1,4,6) by (simp add: log_vote_def)
  let ?s = "s\<lparr>sv_v := verify_next (sv_v s) msg\<rparr>"
  have "fst (on_message env msg s m) = (Completed, fst (build_block env msg ?s), m1)"
    "res_eff (on_message env msg s m) = [Broadcast msg]"
    unfolding on_message_verified [OF assms(7)] using assms(3,4,8) log
    by (simp_all add: on_verified_def Let_def case_prod_beta broadcast_vote_def)
  with assms(9) have res: "s' = fst (build_block env msg ?s)" "m' = m1" "eff = [Broadcast msg]" by simp_all
  have "fst (LastIntent ?J (Some path) m1) = Inr (entry_msg (entry_of msg))"
    by (rule append_completed(2) [OF assms(2,4,5) app])
  then have "sv_lastWAL s2 = entry_msg (entry_of msg)"
    using Start_parts(5) [OF assms(11)] assms(10) res(2) by simp
  then show ?thesis using res assms(8) by (auto simp: wal_allows_def entry_msg_def entry_of_def)
qed


text \<open>
  C14: with the id-level anti-replay the service broadcasts only votes and no id twice, along
  any run with failing calls and up to a crash: relaying votes between nodes ends.
\<close>

theorem votes_broadcast_once:
  assumes "v_replayWindow (sv_v s) = 0" and "v_replay (sv_v s) = Some ar"
    and "run_events es s m = (res, ms, eff)"
  shows "distinct (map m_ID (sent eff)) \<and> (\<forall>x \<in> set (sent eff). is_vote x \<and> m_ID x \<notin> ar_seen ar)"
proof -
  have "id_mode (sv_v s) (ar_seen ar)" using assms(1,2) by (simp add: id_mode_def)
  from sent_run [OF assms(3) this] show ?thesis by blast
qed


text \<open>
  the accounting of a block is the sum of its bids and of its fees modulo 2 to the 64, so it
  is exact as long as the sums fit; its item count is exact.
\<close>

theorem block_stats_sum:
  "unat (bs_TotalBids (summarizeStats items)) = sum_list (map bid_of items) mod 2 ^ 64
   \<and> unat (bs_TotalFees (summarizeStats items)) = sum_list (map fee_of items) mod 2 ^ 64
   \<and> bs_Items (summarizeStats items) = int (length items)"
  by (simp add: summarizeStats_def foldl_add_stats zero_BlockStats_def unat_of_nat)

section \<open>Examples\<close>

definition demo_ee :: event_env where
  "demo_ee = \<lparr>ee_json = demo_wal_json, ee_wal = (\<lambda>_. Carried), ee_bcast = True, ee_build = demo_build,
     ee_early = False, ee_blockjson = (\<lambda>_. []), ee_sign = True, ee_save = (\<lambda>_. Carried), ee_save_ms = 0, ee_ms = 0\<rparr>"

definition demo_se :: "bool \<Rightarrow> start_env" where
  "demo_se b = \<lparr>se_tssSync = False, se_builder = b, se_tssSign = b, se_beast = False\<rparr>"

definition demo_wiring :: wiring where
  "demo_wiring = SetPayloadContainer demo_container (SetBroadcaster True (SetTSSSigner True NewWithSub))"

definition demo_vote :: "Message \<Rightarrow> Event" where
  "demo_vote msg = \<lparr>ev_Kind = KindConsensus, ev_Height = m_Height msg, ev_Round = m_Round msg,
     ev_Body = BodyMessage msg, ev_TraceID = []\<rparr>"

definition demo_svc :: "bool \<Rightarrow> Service" where
  "demo_svc b = \<lparr>sv_v = NewBasicVerifierWithPolicy DefaultPolicy, sv_store = MemStore NewMemoryStore,
     sv_st = new_State [], sv_wal = None, sv_lastWAL = zero_Message, sv_tss = None,
     sv_enableTSSSync = False, sv_enableBuilder = b, sv_pool = Some demo_container,
     sv_policy = (if b then zero_BuilderPolicy\<lparr>bp_Order := [''auction_bid_v1'', ''plaintext_v1''], bp_MaxN := 1024\<rparr>
        else zero_BuilderPolicy),
     sv_lastBlock = Map.empty, sv_enableTSSSign = b, sv_signer = True, sv_bc = True, sv_sink = False\<rparr>"

lemma demo_Start: "\<exists>ms. Start (demo_se b) demo_wal_json demo_wiring m = (Some (demo_svc b), ms)"
  by (simp add: Start_def demo_wiring_def wiring_defs demo_se_def demo_svc_def
      start_policy_def default_order_def zero_BuilderPolicy_def Let_def split: prod.splits)

lemma demo_verdict:
  assumes "validType (m_Type msg)" and "m_ID msg \<noteq> []" and "m_From msg \<noteq> []" and "m_Sig msg = []"
    and "m_Type msg = MsgPreprepare \<longrightarrow> m_Round msg = 0" and "is_vote msg \<longrightarrow> m_Round msg \<noteq> 0"
  shows "is_ok (verdict (sv_v (demo_svc b)) msg)"
proof -
  have "admissible_pre (sv_v (demo_svc b)) msg" "admissible_post (sv_v (demo_svc b)) msg" "\<not> replayed (sv_v (demo_svc b)) msg"
    using assms by (simp_all add: demo_svc_def admissible_pre_def admissible_post_def replayed_def check_replay_def
        NewBasicVerifierWithPolicy_def DefaultPolicy_def NewBasicVerifier_def NewAntiReplay_def Seen_def Let_def u64_ge_1)
  then show ?thesis using Verify_pre(2) by blast
qed

lemma demo_alive:
  assumes "sv_wal s = None" and "sv_store s = MemStore x"
  shows "\<exists>s' ms eff. on_event env ev s m = ((Some s', m), ms, eff) \<and> sv_wal s' = None \<and> (\<exists>x'. sv_store s' = MemStore x')"
proof -
  obtain so m1 ms eff where ev: "on_event env ev s m = ((so, m1), ms, eff)" by (metis surj_pair)
  from ev show ?thesis
  proof (cases rule: on_event_cases)
    case tx
    with ev assms show ?thesis by auto
  next
    case (msg x)
    have "res_status x = Completed \<and> res_fs x = m \<and> sv_wal (res_svc x) = None \<and> (\<exists>x'. sv_store (res_svc x) = MemStore x')"
      using assms unfolding msg(1)
      by (cases "is_ok (verdict (sv_v s) (MapEventToQBFT ev))")
        (simp_all add: on_message_rejected on_message_verified on_verified_def log_vote_def process_save_def store_save_def
          mem_SaveLastState_def Let_def case_prod_beta)
    with msg ev show ?thesis by auto
  qed
qed

lemma demo_phase:
  assumes "on_event env (demo_event 1) (demo_svc False) m = ((Some s', m'), ms, eff)"
  shows "s_Phase (sv_st s') = PhPreprepared"
proof -
  let ?msg = "MapEventToQBFT (demo_event 1)"
  have "s' = res_svc (on_message env ?msg (demo_svc False) m)"
    using assms by (auto simp: demo_event_def elim!: on_event_cases split: if_splits)
  moreover have "handled env ?msg (demo_svc False) m"
    by (simp add: handled_def demo_verdict MapEventToQBFT_def demo_event_def is_vote_def wal_allows_def log_vote_def)
  ultimately show ?thesis
    by (simp add: on_message_st demo_svc_def new_State_def Process_next_dispatch dispatch_def on_preprepare_def set_coords_def
        MapEventToQBFT_def demo_event_def)
qed

theorem consensus_never_prepares_witness:
  "\<exists>s ms0 s' m' ms eff. Start (demo_se False) demo_wal_json demo_wiring Map.empty = (Some s, ms0)
     \<and> run_events [(demo_ee, demo_event 1)] s Map.empty = ((Some s', m'), ms, eff)
     \<and> s_Phase (sv_st s') = PhPreprepared
     \<and> (\<forall>msg. is_vote msg \<longrightarrow> is_ok (verdict (sv_v s') msg) \<longrightarrow> (\<exists>e. process_result (sv_st s') msg = Inl e))"
proof -
  from demo_Start [of False Map.empty] obtain ms0 where
    start: "Start (demo_se False) demo_wal_json demo_wiring Map.empty = (Some (demo_svc False), ms0)" by blast
  obtain s' ms eff where ev: "on_event demo_ee (demo_event 1) (demo_svc False) Map.empty = ((Some s', Map.empty), ms, eff)"
    using demo_alive [of "demo_svc False" NewMemoryStore demo_ee "demo_event 1" Map.empty] by (auto simp: demo_svc_def)
  then have run: "run_events [(demo_ee, demo_event 1)] (demo_svc False) Map.empty = ((Some s', Map.empty), ms, eff)" by simp
  have "w_v demo_wiring = None" "w_st demo_wiring = None"
    by (simp_all add: demo_wiring_def wiring_defs)
  from consensus_never_prepares [OF start this run] start run demo_phase [OF ev] show ?thesis by blast
qed

lemma demo_fresh:
  "\<exists>blk. fresh_block demo_ee msg (demo_svc True) = Some blk"
proof -
  let ?pol = "sv_policy (demo_svc True)"
  have order: "bp_Order ?pol = [''auction_bid_v1'', ''plaintext_v1'']" by (simp add: demo_svc_def zero_BuilderPolicy_def)
  have "reads_ok (ee_build demo_ee) demo_container 0 (bp_Order ?pol)"
    unfolding order by (simp add: demo_ee_def demo_reads)
  then have "is_ok (ProcessProposal (fst (PrepareProposal (ee_build demo_ee) demo_container hdr ?pol)) ?pol)" for hdr
    by (rule own_block_accepted [OF demo_wired]) (simp_all add: order demo_ee_def demo_build_def demo_h_def)
  then show ?thesis by (simp add: fresh_block_def) (simp add: demo_svc_def Let_def)
qed

lemma message_block:
  assumes "is_ok (verdict (sv_v s) msg)" and "sv_wal s = None"
  shows "block_at (res_svc (on_message env msg s m)) msg =
     (case fresh_block env msg s of None \<Rightarrow> block_at s msg | Some b \<Rightarrow> Some b)"
proof -
  let ?s = "s\<lparr>sv_v := verify_next (sv_v s) msg\<rparr>"
  have saved: "block_at (res_svc (process_save env msg t m1)) = block_at t" for t m1
    unfolding process_save_svc by (rule block_at_cong) simp
  have "block_at ?s msg = block_at s msg" by (simp add: block_at_def)
  then show ?thesis
    unfolding on_message_verified(1) [OF assms(1)] using assms(2)
    by (auto simp: on_verified_def log_vote_def Let_def case_prod_beta saved build_block_at)
qed

theorem commit_signed_without_certificate_witness:
  "\<exists>d. SignBlock 1 1 d \<in> set (snd (snd (on_event demo_ee (demo_vote (mk_msg MsgCommit ''A'' 1 1 ''blk'')) (demo_svc True) Map.empty)))"
proof -
  let ?msg = "mk_msg MsgCommit ''A'' 1 1 ''blk''"
  from demo_Start [of True Map.empty] obtain ms0 where
    start: "Start (demo_se True) demo_wal_json demo_wiring Map.empty = (Some (demo_svc True), ms0)" by blast
  have run: "run_events [] (demo_svc True) Map.empty = ((Some (demo_svc True), Map.empty), [], [])" by simp
  have w: "w_v demo_wiring = None" "w_st demo_wiring = None"
    by (simp_all add: demo_wiring_def wiring_defs)
  have ev: "ev_Kind (demo_vote ?msg) = KindConsensus" "ev_Body (demo_vote ?msg) = BodyMessage ?msg" "m_Type ?msg = MsgCommit"
    by (simp_all add: demo_vote_def)
  have ok: "is_ok (verdict (sv_v (demo_svc True)) ?msg)" by (intro demo_verdict) simp_all
  have fl: "sv_enableTSSSign (demo_svc True)" "sv_signer (demo_svc True)" "sv_wal (demo_svc True) = None"
    "wal_allows (demo_svc True) ?msg"
    by (simp_all add: demo_svc_def wal_allows_def zero_Message_def)
  obtain blk where blk: "fresh_block demo_ee ?msg (demo_svc True) = Some blk" using demo_fresh by blast
  from commit_signed_without_certificate [OF start w run ev ok fl blk] show ?thesis by auto
qed


theorem votes_broadcast_once_witness:
  "let es = [(demo_ee, demo_vote (mk_msg MsgPrepare ''A'' 1 1 ''blk'')), (demo_ee, demo_vote (mk_msg MsgCommit ''A'' 1 1 ''blk''))]
   in distinct (map m_ID (sent (snd (snd (run_events es (demo_svc False) Map.empty)))))"
proof -
  let ?es = "[(demo_ee, demo_vote (mk_msg MsgPrepare ''A'' 1 1 ''blk'')), (demo_ee, demo_vote (mk_msg MsgCommit ''A'' 1 1 ''blk''))]"
  obtain res ms eff where run: "run_events ?es (demo_svc False) Map.empty = (res, ms, eff)" by (metis surj_pair)
  have "v_replayWindow (sv_v (demo_svc False)) = 0" "v_replay (sv_v (demo_svc False)) = Some NewAntiReplay"
    by (simp_all add: demo_svc_def NewBasicVerifierWithPolicy_def DefaultPolicy_def NewBasicVerifier_def Let_def)
  from votes_broadcast_once [OF this run] run show ?thesis by (simp only: Let_def snd_conv)
qed

theorem stale_vote_moves_guard_witness:
  "\<exists>s2. fst (Start (demo_se False) demo_wal_json (demo_wiring\<lparr>w_wal := Some ''w''\<rparr>)
       (res_fs (on_message demo_ee (mk_msg MsgPrepare ''A'' 1 1 ''blk'')
          ((demo_svc False)\<lparr>sv_wal := Some ''w'', sv_lastWAL := mk_msg MsgCommit ''A'' 2 1 ''x''\<rparr>) Map.empty))) = Some s2
     \<and> m_Height (sv_lastWAL s2) = 1"
proof -
  let ?msg = "mk_msg MsgPrepare ''A'' 1 1 ''blk''"
  let ?s = "(demo_svc False)\<lparr>sv_wal := Some ''w'', sv_lastWAL := mk_msg MsgCommit ''A'' 2 1 ''x''\<rparr>"
  let ?w = "demo_wiring\<lparr>w_wal := Some ''w''\<rparr>"
  obtain r s' m' ms eff where on: "on_message demo_ee ?msg ?s Map.empty = ((r, s', m'), ms, eff)" by (metis surj_pair)
  obtain s2 ms2 where start: "Start (demo_se False) (ee_json demo_ee) ?w m' = (Some s2, ms2)"
    by (simp add: Start_def demo_wiring_def wiring_defs case_prod_beta Let_def)
  have "is_ok (verdict (sv_v (demo_svc False)) ?msg)" by (intro demo_verdict) simp_all
  then have pre: "is_ok (verdict (sv_v ?s) ?msg)" "\<not> wal_allows ?s ?msg" "sv_wal ?s = Some ''w''" "sv_bc ?s" "is_vote ?msg"
    by (simp_all add: wal_allows_def is_vote_def) (simp add: demo_svc_def)
  have "whole ''w'' Map.empty" by (auto simp: whole_def intro: exI [of _ "[]"])
  moreover have "wal_codec_ok (ee_json demo_ee) (entry_of ?msg)" "ee_wal demo_ee = (\<lambda>_. Carried)"
    by (simp_all add: demo_ee_def demo_wal_ok)
  ultimately have "m_Height (sv_lastWAL s2) = 1"
    using stale_vote_moves_guard [OF pre(3) _ pre(4,5) _ _ pre(1,2) on _ start] by simp
  then show ?thesis using on start by (simp add: demo_ee_def)
qed


end
