(* ===== verification/Consensus_Extras.thy ===== *)
theory Consensus_Extras
  imports Consensus
begin

text \<open>
  What stands beside the consensus service: \<^verbatim>\<open>internal/consensus/payload/manager.go\<close>, the JSON
  payload manager, \<^verbatim>\<open>sink_webhook.go\<close>, the exporter of block values, and
  \<^verbatim>\<open>e2e_server_e2e.go\<close>, the endpoint of test builds that injects messages. JSON, SHA-256 and
  the HTTP client are arguments; log records are left out.
\<close>

section \<open>Payload manager\<close>

datatype jm_error = JmTooLarge | JmInvalidJSON

definition jm_Validate :: "(bytes \<Rightarrow> 'v option) \<Rightarrow> int \<Rightarrow> bytes \<Rightarrow> jm_error + unit" where
  "jm_Validate unjson mx b =
     (if mx > 0 \<and> int (length b) > mx then Inl JmTooLarge
      else case unjson b of None \<Rightarrow> Inl JmInvalidJSON | Some v \<Rightarrow> Inr ())"

definition jm_Canonical :: "(bytes \<Rightarrow> 'v option) \<Rightarrow> ('v \<Rightarrow> bytes option) \<Rightarrow> int \<Rightarrow> bytes \<Rightarrow> jm_error + bytes" where
  "jm_Canonical unjson json mx b =
     (case jm_Validate unjson mx b of Inl e \<Rightarrow> Inl e
      | Inr _ \<Rightarrow> (case json (the (unjson b)) of None \<Rightarrow> Inl JmInvalidJSON | Some enc \<Rightarrow> Inr enc))"

definition jm_Hash :: "(bytes \<Rightarrow> bytes) \<Rightarrow> (bytes \<Rightarrow> 'v option) \<Rightarrow> ('v \<Rightarrow> bytes option) \<Rightarrow> int \<Rightarrow> bytes \<Rightarrow> jm_error + bytes" where
  "jm_Hash sha unjson json mx b = (case jm_Canonical unjson json mx b of Inl e \<Rightarrow> Inl e | Inr enc \<Rightarrow> Inr (sha enc))"

text \<open>
  The canonical form: inputs within the limit that decode to the same value have the same
  canonical bytes and the same hash; the canonical bytes are their own canonical form, unless
  they exceed the limit, which the encoding of a value within it may do.
\<close>

theorem canonical_form_stable:
  assumes "\<forall>v b. json v = Some b \<longrightarrow> unjson b = Some v" and "jm_Canonical unjson json mx b = Inr c"
  shows "jm_Canonical unjson json mx c = (if mx > 0 \<and> int (length c) > mx then Inl JmTooLarge else Inr c)
    \<and> (\<forall>b'. unjson b' = unjson b \<longrightarrow> \<not> (mx > 0 \<and> int (length b') > mx) \<longrightarrow>
          jm_Canonical unjson json mx b' = Inr c \<and> jm_Hash sha unjson json mx b' = jm_Hash sha unjson json mx b)"
proof -
  obtain v where v: "unjson b = Some v" "json v = Some c"
    using assms(2) by (auto simp: jm_Canonical_def jm_Validate_def split: if_splits option.splits)
  then have "unjson c = Some v" using assms(1) by blast
  with v assms(2) show ?thesis by (auto simp: jm_Canonical_def jm_Validate_def jm_Hash_def split: if_splits option.splits)
qed

theorem canonical_form_stable_witness:
  "jm_Canonical (\<lambda>b. if b = [32, 1] \<or> b = [1] then Some True else None) (\<lambda>v. if v then Some [1] else None) 9 [1] = Inr [1]"
  using canonical_form_stable [of "\<lambda>v. if v then Some [1] else None" "\<lambda>b. if b = [32, 1] \<or> b = [1] then Some True else None" 9 "[32, 1]" "[1]"]
  by (auto simp: jm_Canonical_def jm_Validate_def split: if_splits)

section \<open>Fee sink\<close>

text \<open>
  What a publication ends in; only the log records it. \<open>req\<close> is whether a request can be built
  for the URL, \<open>post\<close> the status of the answer, \<open>None\<close> when there is none in time.
\<close>

datatype sink_result = SinkOff | SinkMarshal | SinkRequest | SinkPost | SinkRemote nat | SinkOk nat

definition webhook_timeout :: "int \<Rightarrow> int" where
  "webhook_timeout t = (if t > 0 then t else 500)"

definition webhook_Publish :: "string \<Rightarrow> (ValueRecord \<Rightarrow> bytes option) \<Rightarrow> (string \<Rightarrow> bool) \<Rightarrow> (string \<Rightarrow> int \<Rightarrow> bytes \<Rightarrow> nat option) \<Rightarrow> int
    \<Rightarrow> ValueRecord \<Rightarrow> sink_result" where
  "webhook_Publish url json req post timeout v =
     (if url = [] then SinkOff
      else case json v of None \<Rightarrow> SinkMarshal
      | Some b \<Rightarrow>
          if \<not> req url then SinkRequest
          else case post url (webhook_timeout timeout) b of None \<Rightarrow> SinkPost
          | Some code \<Rightarrow> if code \<ge> 400 then SinkRemote code else SinkOk code)"

section \<open>Injected messages\<close>

text \<open>The handler of test builds: the status code, and the verifier and state machine after it.\<close>

definition e2e_qbft :: "(bytes \<Rightarrow> Message option) \<Rightarrow> bytes \<Rightarrow> Service \<Rightarrow> nat \<times> Service" where
  "e2e_qbft unjson b s =
     (case unjson b of None \<Rightarrow> (400, s)
      | Some msg \<Rightarrow>
     (case Verify (sv_v s) msg of
        (Inl _, v', _) \<Rightarrow> (202, s\<lparr>sv_v := v'\<rparr>)
      | (Inr _, v', _) \<Rightarrow> (200, s\<lparr>sv_v := v', sv_st := fst (snd (Process (sv_st s) msg))\<rparr>)))"

text \<open>
  An injected message moves the verifier and the state machine as the event loop does when it
  handles the message to the end and its guard lets it pass; it skips the log, the broadcast,
  the block and the store.
\<close>

lemma e2e_matches_loop:
  assumes "unjson b = Some msg" and "wal_allows s msg" and "res_status (on_message env msg s m) \<noteq> Crashed"
  shows "sv_v (snd (e2e_qbft unjson b s)) = sv_v (res_svc (on_message env msg s m))
    \<and> sv_st (snd (e2e_qbft unjson b s)) = sv_st (res_svc (on_message env msg s m))"
  using assms
  by (auto simp: e2e_qbft_def on_message_def on_verified_def process_save_def Let_def case_prod_beta split: sum.splits if_splits)

end
