(* ===== verification/Dkg_Engine.thy ===== *)
theory Dkg_Engine
  imports Tss_Stores "HOL-Library.List_Lexorder" "HOL-Library.Char_ord"
begin

text \<open>
  \<^verbatim>\<open>internal/tss/dkg/engine.go\<close> with the message types of \<^verbatim>\<open>feldman.go\<close>: the minimal DKG state
  machine (propose, commit, reveal, ack, complaint), its session snapshots and the resume
  from the session store. The engine's mutex makes each message one step.
\<close>

section \<open>Messages, shares, sessions\<close>

datatype MessageType = MsgPropose | MsgDkgCommit | MsgReveal | MsgAck | MsgComplaint
  | MsgUnknown string

fun dkg_type_string :: "MessageType \<Rightarrow> string" where
  "dkg_type_string MsgPropose = ''propose''"
| "dkg_type_string MsgDkgCommit = ''commit''"
| "dkg_type_string MsgReveal = ''reveal''"
| "dkg_type_string MsgAck = ''ack''"
| "dkg_type_string MsgComplaint = ''complaint''"
| "dkg_type_string (MsgUnknown s) = s"

record dkg_message =
  dm_Type :: MessageType
  dm_SessionID :: string
  dm_Epoch :: u64
  dm_From :: string
  dm_Payload :: bytes
  dm_Sig :: bytes
  dm_TraceID :: string

record KeyShare =
  sh_Index :: int
  sh_PublicKey :: bytes
  sh_PrivateKey :: bytes
  sh_Commitments :: "bytes list"

text \<open>The placeholder \<^verbatim>\<open>KeyShare{Index: 0}\<close> that the engine stores on completion.\<close>

definition placeholder_share :: KeyShare where
  "placeholder_share = \<lparr>sh_Index = 0, sh_PublicKey = [], sh_PrivateKey = [], sh_Commitments = []\<rparr>"

record session =
  sn_epoch :: u64
  sn_propose :: "string fset"
  sn_commit :: "string fset"
  sn_reveal :: "string fset"
  sn_ack :: "string fset"
  sn_done :: bool

record sessionState =
  st_Epoch :: u64
  st_Propose :: "string list"
  st_Commit :: "string list"
  st_Reveal :: "string list"
  st_Ack :: "string list"
  st_Done :: bool

text \<open>\<open>ord\<close> is the order in which the map iteration of \<^verbatim>\<open>toSlice\<close> delivers the keys.\<close>

definition snapshot :: "(string fset \<Rightarrow> string list) \<Rightarrow> session \<Rightarrow> sessionState" where
  "snapshot ord s = \<lparr>st_Epoch = sn_epoch s, st_Propose = ord (sn_propose s),
     st_Commit = ord (sn_commit s), st_Reveal = ord (sn_reveal s), st_Ack = ord (sn_ack s),
     st_Done = sn_done s\<rparr>"

definition restore :: "sessionState \<Rightarrow> session" where
  "restore st = \<lparr>sn_epoch = st_Epoch st, sn_propose = fset_of_list (st_Propose st),
     sn_commit = fset_of_list (st_Commit st), sn_reveal = fset_of_list (st_Reveal st),
     sn_ack = fset_of_list (st_Ack st), sn_done = st_Done st\<rparr>"

definition iteration :: "(string fset \<Rightarrow> string list) \<Rightarrow> bool" where
  "iteration ord \<longleftrightarrow> (\<forall>A. distinct (ord A) \<and> fset_of_list (ord A) = A)"

lemma restore_snapshot [simp]: "iteration ord \<Longrightarrow> restore (snapshot ord s) = s"
  by (simp add: restore_def snapshot_def iteration_def)

section \<open>The engine\<close>

record dkg_config =
  dc_N :: int
  dc_T :: int
  dc_Store :: "KeyShare ks_env option"
  dc_Sess :: "(string \<times> sessionState json) option"

record EngineImpl =
  en_cfg :: dkg_config
  en_sess :: "string \<rightharpoonup> session"

definition NewEngine :: "dkg_config \<Rightarrow> EngineImpl" where
  "NewEngine cfg = \<lparr>en_cfg = (if dc_T cfg \<le> 0 then cfg\<lparr>dc_T := 2\<rparr> else cfg), en_sess = Map.empty\<rparr>"

definition fresh_session :: "u64 \<Rightarrow> session" where
  "fresh_session e = \<lparr>sn_epoch = e, sn_propose = {||}, sn_commit = {||}, sn_reveal = {||},
     sn_ack = {||}, sn_done = False\<rparr>"

text \<open>
  The switch on the message type; the flag tells whether the session completes now
  (\<^verbatim>\<open>advanced\<close>).
\<close>

definition apply_message :: "int \<Rightarrow> dkg_message \<Rightarrow> session \<Rightarrow> bool \<times> session" where
  "apply_message T msg s =
     (case dm_Type msg of
        MsgPropose \<Rightarrow> (False, s\<lparr>sn_propose := finsert (dm_From msg) (sn_propose s)\<rparr>)
      | MsgDkgCommit \<Rightarrow> (False, s\<lparr>sn_commit := finsert (dm_From msg) (sn_commit s)\<rparr>)
      | MsgReveal \<Rightarrow> (False, s\<lparr>sn_reveal := finsert (dm_From msg) (sn_reveal s)\<rparr>)
      | MsgAck \<Rightarrow>
          (let s' = s\<lparr>sn_ack := finsert (dm_From msg) (sn_ack s)\<rparr> in
           if \<not> sn_done s \<and> T \<le> int (fcard (sn_ack s')) then (True, s'\<lparr>sn_done := True\<rparr>)
           else (False, s'))
      | MsgComplaint \<Rightarrow>
          (False, s\<lparr>sn_epoch := sn_epoch s + 1, sn_propose := {||}, sn_commit := {||},
             sn_reveal := {||}, sn_ack := {||}\<rparr>)
      | MsgUnknown _ \<Rightarrow> (False, s))"

text \<open>
  What one call sees of the outside: the outcomes of the file-system calls of the two
  saves, the latency and the iteration order. A call that is killed inside a save leaves
  only the file system.
\<close>

record dkg_env =
  ev_key :: "nat \<Rightarrow> call_outcome"
  ev_sess :: "nat \<Rightarrow> call_outcome"
  ev_ms :: nat
  ev_ord :: "string fset \<Rightarrow> string list"

datatype dkg_result = Returned bool EngineImpl fs "metric list" | Died fs

definition current_session :: "EngineImpl \<Rightarrow> dkg_message \<Rightarrow> session" where
  "current_session e msg =
     (case en_sess e (dm_SessionID msg) of None \<Rightarrow> fresh_session (dm_Epoch msg) | Some s \<Rightarrow> s)"

definition save_share :: "dkg_env \<Rightarrow> dkg_config \<Rightarrow> bool \<Rightarrow> fs \<Rightarrow> (status \<times> fs) \<times> metric list" where
  "save_share env cfg advanced m =
     (case dc_Store cfg of
        Some ks \<Rightarrow> if advanced then SaveKeyShare (ev_key env) (ev_ms env) ks placeholder_share m
                   else ((Completed, m), [])
      | None \<Rightarrow> ((Completed, m), []))"

definition save_session :: "dkg_env \<Rightarrow> dkg_config \<Rightarrow> string \<Rightarrow> session \<Rightarrow> fs \<Rightarrow> status \<times> fs" where
  "save_session env cfg i s m =
     (case dc_Sess cfg of
        Some (dir, J) \<Rightarrow> sess_Save (ev_sess env) J dir i (snapshot (ev_ord env) s) m
      | None \<Rightarrow> (Completed, m))"

definition OnMessage :: "dkg_env \<Rightarrow> dkg_message \<Rightarrow> EngineImpl \<Rightarrow> fs \<Rightarrow> dkg_result" where
  "OnMessage env msg e m =
     (let seen = [Inc ''tss_msgs_total'' [(''type'', dkg_type_string (dm_Type msg))]];
          s0 = current_session e msg;
          e0 = e\<lparr>en_sess := (en_sess e)(dm_SessionID msg \<mapsto> s0)\<rparr>
      in
      if dm_Epoch msg < sn_epoch s0 then Returned False e0 m seen
      else
        let s1 = (if sn_epoch s0 < dm_Epoch msg then s0\<lparr>sn_epoch := dm_Epoch msg\<rparr> else s0);
            (advanced, s2) = apply_message (dc_T (en_cfg e)) msg s1;
            ((r1, m1), ev1) = save_share env (en_cfg e) advanced m
        in
        if r1 = Crashed then Died m1
        else
          let okm = (if advanced then [Inc ''tss_sessions_total'' [(''result'', ''ok'')]] else []);
              (r2, m2) = save_session env (en_cfg e) (dm_SessionID msg) s2 m1
          in
          if r2 = Crashed then Died m2
          else Returned advanced (e\<lparr>en_sess := (en_sess e)(dm_SessionID msg \<mapsto> s2)\<rparr>) m2
                 (seen @ ev1 @ okm))"

text \<open>\<^verbatim>\<open>Resume\<close>: \<open>None\<close> is \<^verbatim>\<open>ErrSessNotFound\<close>.\<close>

definition Resume :: "string \<Rightarrow> EngineImpl \<Rightarrow> fs \<Rightarrow> EngineImpl option" where
  "Resume i e m =
     (case dc_Sess (en_cfg e) of
        None \<Rightarrow> None
      | Some (dir, J) \<Rightarrow>
          (case fst (sess_Load J dir i m) of
             None \<Rightarrow> None
           | Some st \<Rightarrow> Some (e\<lparr>en_sess := (en_sess e)(i \<mapsto> restore st)\<rparr>)))"

section \<open>One message on one session\<close>

definition step_session :: "int \<Rightarrow> dkg_message \<Rightarrow> session \<Rightarrow> bool \<times> session" where
  "step_session T msg s =
     (if dm_Epoch msg < sn_epoch s then (False, s)
      else apply_message T msg (if sn_epoch s < dm_Epoch msg then s\<lparr>sn_epoch := dm_Epoch msg\<rparr> else s))"

lemma OnMessage_returned:
  assumes "OnMessage env msg e m = Returned adv e' m' ev"
    and "step_session (dc_T (en_cfg e)) msg (current_session e msg) = (a, s')"
  shows "adv = a" and "e' = e\<lparr>en_sess := (en_sess e)(dm_SessionID msg \<mapsto> s')\<rparr>"
proof -
  have "adv = a \<and> e' = e\<lparr>en_sess := (en_sess e)(dm_SessionID msg \<mapsto> s')\<rparr>"
    using assms
    by (cases "dm_Epoch msg < sn_epoch (current_session e msg)")
       (simp_all add: OnMessage_def step_session_def Let_def split: prod.splits if_splits)
  then show "adv = a" and "e' = e\<lparr>en_sess := (en_sess e)(dm_SessionID msg \<mapsto> s')\<rparr>" by simp_all
qed

lemma apply_message_done: "apply_message T msg s = (a, s') \<Longrightarrow>
    sn_done s' = (sn_done s \<or> a) \<and> (a \<longrightarrow> \<not> sn_done s)"
  by (auto simp: apply_message_def Let_def split: MessageType.splits if_splits)

lemma apply_message_ack: "apply_message T msg s = (a, s') \<Longrightarrow>
    sn_ack s' |\<subseteq>| (if dm_Type msg = MsgAck then finsert (dm_From msg) (sn_ack s) else sn_ack s)
    \<and> (a \<longrightarrow> T \<le> int (fcard (sn_ack s')))"
  by (auto simp: apply_message_def Let_def split: MessageType.splits if_splits)

lemma step_session_done: "step_session T msg s = (a, s') \<Longrightarrow>
    sn_done s' = (sn_done s \<or> a) \<and> (a \<longrightarrow> \<not> sn_done s)"
  using apply_message_done by (fastforce simp: step_session_def split: if_splits)

lemma step_session_ack: "step_session T msg s = (a, s') \<Longrightarrow>
    sn_ack s' |\<subseteq>| (if dm_Type msg = MsgAck then finsert (dm_From msg) (sn_ack s) else sn_ack s)
    \<and> (a \<longrightarrow> T \<le> int (fcard (sn_ack s')))"
proof -
  assume st: "step_session T msg s = (a, s')"
  let ?t = "if sn_epoch s < dm_Epoch msg then s\<lparr>sn_epoch := dm_Epoch msg\<rparr> else s"
  have ack: "sn_ack ?t = sn_ack s" by simp
  show ?thesis
  proof (cases "dm_Epoch msg < sn_epoch s")
    case True
    with st show ?thesis by (auto simp: step_session_def)
  next
    case False
    with st have "apply_message T msg ?t = (a, s')" by (simp only: step_session_def if_False)
    from apply_message_ack [OF this] show ?thesis unfolding ack .
  qed
qed

section \<open>Runs\<close>

text \<open>A sequence of messages that all return; \<open>None\<close> when the process dies in one.\<close>

fun dkg_run :: "(dkg_env \<times> dkg_message) list \<Rightarrow> EngineImpl \<Rightarrow> fs \<Rightarrow> ((bool \<times> dkg_message) list \<times> EngineImpl \<times> fs) option" where
  "dkg_run [] e m = Some ([], e, m)"
| "dkg_run ((env, msg) # xs) e m =
     (case OnMessage env msg e m of
        Died _ \<Rightarrow> None
      | Returned adv e1 m1 _ \<Rightarrow>
          (case dkg_run xs e1 m1 of
             None \<Rightarrow> None
           | Some (h, r) \<Rightarrow> Some ((adv, msg) # h, r)))"

text \<open>The completions of one session in a run.\<close>

definition completions :: "string \<Rightarrow> (bool \<times> dkg_message) list \<Rightarrow> nat" where
  "completions i h = length (filter (\<lambda>(adv, msg). adv \<and> dm_SessionID msg = i) h)"

lemma completions_simps [simp]:
  "completions i [] = 0"
  "completions i ((adv, msg) # h) =
     (if adv \<and> dm_SessionID msg = i then Suc (completions i h) else completions i h)"
  by (simp_all add: completions_def)

definition is_done :: "string \<Rightarrow> EngineImpl \<Rightarrow> bool" where
  "is_done i e = (case en_sess e i of None \<Rightarrow> False | Some s \<Rightarrow> sn_done s)"

lemma OnMessage_done:
  assumes "OnMessage env msg e m = Returned adv e' m' ev"
  shows "is_done i e' = (is_done i e \<or> adv \<and> dm_SessionID msg = i)
    \<and> (adv \<and> dm_SessionID msg = i \<longrightarrow> \<not> is_done i e)"
proof -
  obtain a s' where st: "step_session (dc_T (en_cfg e)) msg (current_session e msg) = (a, s')"
    by fastforce
  from OnMessage_returned [OF assms st] step_session_done [OF st] show ?thesis
    by (auto simp: is_done_def current_session_def fresh_session_def split: option.splits)
qed

lemma dkg_run_completions:
  "dkg_run xs e m = Some (h, e', m') \<Longrightarrow>
     completions i h + (if is_done i e then 1 else 0) = (if is_done i e' then 1 else 0)"
proof (induction xs arbitrary: e m h)
  case (Cons x xs)
  obtain env msg where [simp]: "x = (env, msg)" by (cases x)
  from Cons.prems obtain adv e1 m1 ev h1 where
    one: "OnMessage env msg e m = Returned adv e1 m1 ev"
    and rest: "dkg_run xs e1 m1 = Some (h1, e', m')" and h: "h = (adv, msg) # h1"
    by (auto split: dkg_result.splits option.splits)
  from Cons.IH [OF rest] OnMessage_done [OF one, of i] h show ?case
    by (auto split: if_splits)
qed simp

text \<open>Who has acknowledged a session in a run.\<close>

definition ackers :: "string \<Rightarrow> dkg_message list \<Rightarrow> string set" where
  "ackers i ms = {dm_From msg | msg. msg \<in> set ms \<and> dm_Type msg = MsgAck \<and> dm_SessionID msg = i}"

lemma ackers_mono: "set ms \<subseteq> set ms' \<Longrightarrow> ackers i ms \<subseteq> ackers i ms'"
  by (auto simp: ackers_def)

definition acks_backed :: "dkg_message list \<Rightarrow> EngineImpl \<Rightarrow> bool" where
  "acks_backed ms e \<longleftrightarrow> (\<forall>i s. en_sess e i = Some s \<longrightarrow> fset (sn_ack s) \<subseteq> ackers i ms)"

lemma OnMessage_acks:
  assumes "OnMessage env msg e m = Returned adv e' m' ev" and "acks_backed ms e"
  shows "acks_backed (ms @ [msg]) e'" and "en_cfg e' = en_cfg e"
    and "adv \<Longrightarrow> dc_T (en_cfg e) \<le> int (card (ackers (dm_SessionID msg) (ms @ [msg])))"
proof -
  obtain a s' where st: "step_session (dc_T (en_cfg e)) msg (current_session e msg) = (a, s')"
    by fastforce
  note ret = OnMessage_returned [OF assms(1) st]
  have cur: "fset (sn_ack (current_session e msg)) \<subseteq> ackers (dm_SessionID msg) ms"
    using assms(2) by (auto simp: current_session_def fresh_session_def acks_backed_def split: option.splits)
  have "fset (sn_ack s') \<subseteq> ackers (dm_SessionID msg) (ms @ [msg])"
    using step_session_ack [OF st] cur
    by (auto simp: ackers_def less_eq_fset.rep_eq split: if_splits)
  note s' = this
  then show "acks_backed (ms @ [msg]) e'"
    using ret(2) assms(2) ackers_mono [of ms "ms @ [msg]"] by (fastforce simp: acks_backed_def)
  show "en_cfg e' = en_cfg e" using ret(2) by simp
  have "finite (ackers (dm_SessionID msg) (ms @ [msg]))" by (auto simp: ackers_def)
  then have "fcard (sn_ack s') \<le> card (ackers (dm_SessionID msg) (ms @ [msg]))"
    using s' by (simp add: fcard.rep_eq card_mono)
  then show "adv \<Longrightarrow> dc_T (en_cfg e) \<le> int (card (ackers (dm_SessionID msg) (ms @ [msg])))"
    using step_session_ack [OF st] ret(1) by auto
qed

lemma dkg_run_acks:
  "dkg_run xs e m = Some (h, e', m') \<Longrightarrow> acks_backed ms e \<Longrightarrow> (True, msg) \<in> set h \<Longrightarrow>
     dc_T (en_cfg e) \<le> int (card (ackers (dm_SessionID msg) (ms @ map snd h)))"
proof (induction xs arbitrary: e m h ms)
  case (Cons x xs)
  obtain env msg1 where [simp]: "x = (env, msg1)" by (cases x)
  from Cons.prems obtain adv e1 m1 ev h1 where
    one: "OnMessage env msg1 e m = Returned adv e1 m1 ev"
    and rest: "dkg_run xs e1 m1 = Some (h1, e', m')" and h: "h = (adv, msg1) # h1"
    by (auto split: dkg_result.splits option.splits)
  note step = OnMessage_acks [OF one Cons.prems(2)]
  let ?i = "dm_SessionID msg"
  have fin: "finite (ackers ?i (ms @ map snd h))" by (auto simp: ackers_def)
  show ?case
  proof (cases "(True, msg) \<in> set h1")
    case True
    from Cons.IH [OF rest step(1) True] h show ?thesis by (simp add: step(2))
  next
    case False
    with Cons.prems(3) h have "adv" "msg = msg1" by auto
    then have "dc_T (en_cfg e) \<le> int (card (ackers ?i (ms @ [msg1])))" using step(3) by simp
    also have "card (ackers ?i (ms @ [msg1])) \<le> card (ackers ?i (ms @ map snd h))"
      using fin h by (intro card_mono ackers_mono) auto
    finally show ?thesis by simp
  qed
qed simp

section \<open>Persistence and resume\<close>

text \<open>The session a fresh engine resumes from the file system.\<close>

definition persisted :: "sessionState json \<Rightarrow> string \<Rightarrow> string \<Rightarrow> fs \<Rightarrow> session option" where
  "persisted J dir i m = map_option restore (fst (sess_Load J dir i m))"

lemma Resume_persisted:
  "dc_Sess (en_cfg e) = Some (dir, J) \<Longrightarrow>
     Resume i e m = map_option (\<lambda>s. e\<lparr>en_sess := (en_sess e)(i \<mapsto> s)\<rparr>) (persisted J dir i m)"
  by (auto simp: Resume_def persisted_def split: option.splits)

lemma sess_Save_outcome:
  assumes "main_ok (readSess J) (sess_pathFor dir i) m" and "json_ok J (snapshot ord s)"
    and "iteration ord" and "sess_Save \<phi> J dir i (snapshot ord s) m = (r, m')"
  shows "persisted J dir i m' \<in> {persisted J dir i m, Some s}"
    and "r = Completed \<Longrightarrow> persisted J dir i m' = Some s"
proof -
  have "run_ops \<phi> (sess_prep J (sess_pathFor dir i) (snapshot ord s) @ replace_ops (sess_pathFor dir i) @ []) m
      = (r, m')"
    using assms(4) by (simp add: sess_Save_def writeSess_def)
  note out = sess.write_outcome [OF assms(1,2) this]
  show "r = Completed \<Longrightarrow> persisted J dir i m' = Some s"
    using out(2) assms(3) by (simp add: persisted_def fst_sess_Load)
  show "persisted J dir i m' \<in> {persisted J dir i m, Some s}"
    using out(4) assms(3) by (auto simp: persisted_def fst_sess_Load)
qed

lemma sess_Save_calm:
  assumes "marshal J st \<noteq> None"
  shows "fst (sess_Save (\<lambda>_. Carried) J dir i st m) = Completed"
  using assms
  by (cases "m (sess_pathFor dir i)")
     (simp_all add: sess_Save_def writeSess_def sess_prep_def session_prep_def replace_ops_def)

text \<open>The session files are not the files of the key store.\<close>

definition separate :: "dkg_config \<Rightarrow> string \<Rightarrow> bool" where
  "separate cfg p \<longleftrightarrow>
     (\<forall>ks. dc_Store cfg = Some ks \<longrightarrow>
        (let k = ks_path (ke_store ks) in {p, bak_of p} \<inter> {k, tmp_of k, bak_of k} = {}))"

lemma save_share_frame:
  assumes "save_share env cfg adv m = ((r, m'), ev)" and "separate cfg p"
  shows "m' p = m p" and "m' (bak_of p) = m (bak_of p)"
proof -
  have "m' q = m q" if "q \<in> {p, bak_of p}" for q
  proof (cases "dc_Store cfg")
    case (Some ks)
    let ?k = "ks_path (ke_store ks)"
    from Some that assms(2) have q: "q \<noteq> ?k" "q \<noteq> tmp_of ?k" "q \<noteq> bak_of ?k"
      by (auto simp: separate_def Let_def)
    show ?thesis
    proof (cases adv)
      case True
      with Some assms(1) have "run_ops (ev_key env) (ks_writeAtomic ks ?k placeholder_share) m = (r, m')"
        by (auto simp: save_share_def SaveKeyShare_def split: prod.splits)
      then show ?thesis
      proof (rule run_ops_frame)
        show "\<forall>op \<in> set (ks_writeAtomic ks ?k placeholder_share).
            \<forall>m m1. perform op m = Some m1 \<longrightarrow> m1 q = m q"
          using q by (auto simp: ks_writeAtomic_def ks_prep_def replace_ops_def split: option.splits if_splits)
        show "\<forall>op \<in> set (ks_writeAtomic ks ?k placeholder_share). \<forall>n m. interrupted n op m q = m q"
          using q by (auto simp: ks_writeAtomic_def ks_prep_def replace_ops_def split: option.splits)
      qed
    qed (use Some assms(1) in \<open>simp add: save_share_def\<close>)
  qed (use assms(1) in \<open>simp add: save_share_def\<close>)
  then show "m' p = m p" and "m' (bak_of p) = m (bak_of p)" by simp_all
qed

section \<open>Properties\<close>

text \<open>
  C21: a session of the DKG engine completes at most once in a run, whatever complaints,
  epoch changes and messages of other sessions come between, and it completes only when
  at least \<open>T\<close> different participants have sent an acknowledgement for it.
\<close>

theorem dkg_completion:
  assumes "dkg_run xs (NewEngine cfg) m = Some (h, e', m')"
  shows "completions i h \<le> 1
    \<and> (0 < completions i h \<longrightarrow>
         (if dc_T cfg \<le> 0 then 2 else dc_T cfg) \<le> int (card (ackers i (map snd h))))"
proof -
  have "completions i h \<le> 1"
    using dkg_run_completions [OF assms, of i] by (auto split: if_splits)
  moreover have "(if dc_T cfg \<le> 0 then 2 else dc_T cfg) \<le> int (card (ackers i (map snd h)))"
    if "0 < completions i h"
  proof -
    from that obtain msg where msg: "(True, msg) \<in> set h" "dm_SessionID msg = i"
      by (auto simp: completions_def filter_empty_conv)
    have "acks_backed [] (NewEngine cfg)" by (simp add: acks_backed_def NewEngine_def)
    from dkg_run_acks [OF assms this msg(1)] msg(2) show ?thesis
      by (simp add: NewEngine_def split: if_splits)
  qed
  ultimately show ?thesis by blast
qed


definition demo_msg :: "MessageType \<Rightarrow> string \<Rightarrow> dkg_message" where
  "demo_msg t from = \<lparr>dm_Type = t, dm_SessionID = ''s'', dm_Epoch = 1, dm_From = from,
     dm_Payload = [], dm_Sig = [], dm_TraceID = []\<rparr>"

definition demo_dkg_env :: dkg_env where
  "demo_dkg_env = \<lparr>ev_key = (\<lambda>_. Carried), ev_sess = (\<lambda>_. Carried), ev_ms = 0,
     ev_ord = sorted_list_of_fset\<rparr>"

theorem dkg_completion_witness:
  "\<exists>h e' m'. dkg_run (map (Pair demo_dkg_env)
        [demo_msg MsgAck ''P1'', demo_msg MsgAck ''P2'', demo_msg MsgComplaint ''P1'',
         demo_msg MsgAck ''P1''])
      (NewEngine \<lparr>dc_N = 3, dc_T = 2, dc_Store = None, dc_Sess = None\<rparr>) Map.empty = Some (h, e', m')
    \<and> map fst h = [False, True, False, False] \<and> 2 \<le> card (ackers ''s'' (map snd h))"
proof -
  let ?xs = "map (Pair demo_dkg_env) [demo_msg MsgAck ''P1'', demo_msg MsgAck ''P2'',
      demo_msg MsgComplaint ''P1'', demo_msg MsgAck ''P1'']"
  let ?cfg = "\<lparr>dc_N = 3, dc_T = 2, dc_Store = None, dc_Sess = None\<rparr>"
  note defs = NewEngine_def OnMessage_def current_session_def fresh_session_def apply_message_def
    save_share_def save_session_def demo_msg_def fcard_finsert_if Let_def
  obtain h e' m' where run: "dkg_run ?xs (NewEngine ?cfg) Map.empty = Some (h, e', m')"
    by (simp add: defs)
  then have "map fst h = [False, True, False, False]" "completions ''s'' h = 1"
    by (auto simp: defs)
  then show ?thesis using dkg_completion [OF run, of "''s''"] run by auto
qed

text \<open>A codec that knows the one snapshot of the example.\<close>

definition demo_state :: sessionState where
  "demo_state = \<lparr>st_Epoch = 1, st_Propose = [''P1''], st_Commit = [], st_Reveal = [], st_Ack = [],
     st_Done = False\<rparr>"

definition demo_sess_json :: "sessionState json" where
  "demo_sess_json = \<lparr>marshal = (\<lambda>st. if st = demo_state then Some [1] else None),
     unmarshal = (\<lambda>b. if b = [1] then Some demo_state else None)\<rparr>"


end
