(* ===== verification/Cas_Counter.thy ===== *)
theory Cas_Counter
  imports Aequa_Prelude
begin

text \<open>
  The compare-and-swap loops of \<^verbatim>\<open>internal/p2p\<close>: \<^verbatim>\<open>ResourceManager\<close> (\<^verbatim>\<open>resources.go\<close>), \<^verbatim>\<open>TSSLimiter\<close>
  (\<^verbatim>\<open>tss_limits.go\<close>) and \<^verbatim>\<open>RateLimitGate\<close> (\<^verbatim>\<open>gating.go\<close>) all load a counter, give up when a test on
  the loaded value fails, and otherwise try to swap in the next value, starting over when
  another goroutine was faster. Any number of calls interleave on one counter; the load with
  its test and the swap are the atomic steps.
\<close>

section \<open>Interleaved calls\<close>

datatype cas_pc = AtLoad | AtCas int | Returned bool

type_synonym 't cas_state = "int \<times> ('t \<Rightarrow> cas_pc)"

inductive cas_step :: "('t \<Rightarrow> int \<Rightarrow> bool) \<Rightarrow> ('t \<Rightarrow> int \<Rightarrow> int) \<Rightarrow> 't cas_state \<Rightarrow> 't cas_state \<Rightarrow> bool"
  for guard upd where
  load_pass: "pc t = AtLoad \<Longrightarrow> guard t n \<Longrightarrow> cas_step guard upd (n, pc) (n, pc(t := AtCas n))"
| load_fail: "pc t = AtLoad \<Longrightarrow> \<not> guard t n \<Longrightarrow> cas_step guard upd (n, pc) (n, pc(t := Returned False))"
| swap: "pc t = AtCas n \<Longrightarrow> cas_step guard upd (n, pc) (upd t n, pc(t := Returned True))"
| retry: "pc t = AtCas k \<Longrightarrow> k \<noteq> n \<Longrightarrow> cas_step guard upd (n, pc) (n, pc(t := AtLoad))"

inductive_cases cas_stepE: "cas_step guard upd (n, pc) (n', pc')"

abbreviation cas_steps :: "('t \<Rightarrow> int \<Rightarrow> bool) \<Rightarrow> ('t \<Rightarrow> int \<Rightarrow> int) \<Rightarrow> 't cas_state \<Rightarrow> 't cas_state \<Rightarrow> bool" where
  "cas_steps guard upd \<equiv> (cas_step guard upd)\<^sup>*\<^sup>*"

definition winners :: "('t \<Rightarrow> cas_pc) \<Rightarrow> 't set" where
  "winners pc = {t. pc t = Returned True}"

lemma winners_upd [simp]:
  "winners (pc(t := AtCas n)) = winners pc - {t}" "winners (pc(t := AtLoad)) = winners pc - {t}"
  "winners (pc(t := Returned False)) = winners pc - {t}" "winners (pc(t := Returned True)) = insert t (winners pc)"
  by (auto simp: winners_def)

text \<open>A call that runs alone.\<close>

lemma cas_alone:
  assumes "guard t n"
  shows "cas_steps guard upd (n, \<lambda>_. AtLoad) (upd t n, (\<lambda>_. AtLoad)(t := Returned True))"
proof -
  let ?pc = "(\<lambda>_. AtLoad)(t := AtCas n)"
  have "cas_step guard upd (n, \<lambda>_. AtLoad) (n, ?pc)" using assms by (intro cas_step.load_pass) simp_all
  moreover have "cas_step guard upd (n, ?pc) (upd t n, ?pc(t := Returned True))" by (rule cas_step.swap) simp
  ultimately show ?thesis by simp
qed

lemma winners_alone [simp]: "winners ((\<lambda>_. AtLoad)(t := Returned True)) = {t}"
  by (auto simp: winners_def)

text \<open>
  What the users of a counter rely on: each successful call adds its own constant, and keeps
  the bound \<open>inv\<close> whenever its test holds.
\<close>

locale cas_loop =
  fixes guard :: "'t \<Rightarrow> int \<Rightarrow> bool" and upd :: "'t \<Rightarrow> int \<Rightarrow> int" and delta :: "'t \<Rightarrow> int" and inv :: "int \<Rightarrow> bool"
  assumes upd_delta: "guard t n \<Longrightarrow> upd t n = n + delta t"
    and upd_inv: "inv n \<Longrightarrow> guard t n \<Longrightarrow> inv (upd t n)"
begin

text \<open>A call about to swap has seen a value that passed its test; the counter is the sum of the successful calls.\<close>

definition good :: "int \<Rightarrow> 't cas_state \<Rightarrow> bool" where
  "good n0 s \<longleftrightarrow> inv (fst s) \<and> (\<forall>t k. snd s t = AtCas k \<longrightarrow> guard t k)
     \<and> finite (winners (snd s)) \<and> n0 + sum delta (winners (snd s)) = fst s"

lemma good_step: "cas_step guard upd s s' \<Longrightarrow> good n0 s \<Longrightarrow> good n0 s'"
proof (induction rule: cas_step.induct)
  case (load_pass pc t n)
  then have "winners pc - {t} = winners pc" by (auto simp: winners_def)
  with load_pass show ?case by (simp add: good_def)
next
  case (load_fail pc t n)
  then have "winners pc - {t} = winners pc" by (auto simp: winners_def)
  with load_fail show ?case by (simp add: good_def)
next
  case (swap pc t n)
  then have "t \<notin> winners pc" by (simp add: winners_def)
  moreover have "guard t n" using swap by (simp add: good_def)
  ultimately show ?case using swap upd_inv [of n t] by (simp add: good_def upd_delta)
next
  case (retry pc t k n)
  then have "winners pc - {t} = winners pc" by (auto simp: winners_def)
  with retry show ?case by (simp add: good_def)
qed

lemma good_steps:
  assumes "cas_steps guard upd s s'" and "good n0 s"
  shows "good n0 s'"
  using assms by (induction rule: rtranclp_induct) (auto intro: good_step)

lemma reach:
  assumes "cas_steps guard upd (n0, \<lambda>_. AtLoad) (n, pc)" and "inv n0"
  shows "inv n" and "n = n0 + sum delta (winners pc)" and "finite (winners pc)"
proof -
  have "winners (\<lambda>_ :: 't. AtLoad) = {}" by (simp add: winners_def)
  then have "good n0 (n0, \<lambda>_. AtLoad)" using assms(2) by (simp add: good_def)
  from good_steps [OF assms(1) this] show "inv n" and "n = n0 + sum delta (winners pc)" and "finite (winners pc)"
    by (simp_all add: good_def)
qed

text \<open>
  Linearisation: a step that changes the counter is one successful call executed atomically
  on the value the counter has at that moment.
\<close>

lemma atomic_step:
  assumes "cas_steps guard upd (n0, \<lambda>_. AtLoad) (n, pc)" and "inv n0" and "cas_step guard upd (n, pc) (n', pc')"
  shows "n' = n \<or> (\<exists>t. guard t n \<and> n' = upd t n \<and> pc' t = Returned True)"
proof -
  have "winners (\<lambda>_ :: 't. AtLoad) = {}" by (simp add: winners_def)
  then have "good n0 (n0, \<lambda>_. AtLoad)" using assms(2) by (simp add: good_def)
  then have "good n0 (n, pc)" by (rule good_steps [OF assms(1)])
  then have pass: "pc t = AtCas n \<Longrightarrow> guard t n" for t by (simp add: good_def)
  from assms(3) show ?thesis by (rule cas_stepE) (use pass in \<open>fastforce\<close>)+
qed

end

end
