(* ===== verification/P2p_Service.thy ===== *)
theory P2p_Service
  imports Cas_Counter
begin

text \<open>
  \<^verbatim>\<open>internal/p2p\<close> without the transport: the configuration (\<^verbatim>\<open>config.go\<close>), the gates (\<^verbatim>\<open>gating.go\<close>),
  the connection and session limits (\<^verbatim>\<open>resources.go\<close>, \<^verbatim>\<open>tss_limits.go\<close>), the peer set (\<^verbatim>\<open>manager.go\<close>)
  and the service (\<^verbatim>\<open>service.go\<close>), with the cluster-lock verifiers of \<^verbatim>\<open>internal/dkg/lock.go\<close> and
  the slot holder of \<^verbatim>\<open>internal/tss/service.go\<close>. A 64-bit counter is an \<open>int\<close>: it moves by one
  within a configured bound and cannot wrap. Each operation is also the effect of the
  compare-and-swap loop on its own; the interleaving of many is in \<open>Cas_Counter\<close>.
\<close>

section \<open>Configuration\<close>

record p2p_config =
  pc_MaxConns :: int
  pc_AllowList :: "string list"
  pc_RateLimit :: int
  pc_ScoreThreshold :: int
  pc_DKGRequired :: bool
  pc_MaxTSSSessions :: int

definition DefaultConfig :: p2p_config where
  "DefaultConfig = \<lparr>pc_MaxConns = 128, pc_AllowList = [], pc_RateLimit = 0, pc_ScoreThreshold = 0,
     pc_DKGRequired = False, pc_MaxTSSSessions = 0\<rparr>"

datatype config_error = ErrMaxConns | ErrRateLimit | ErrScoreThreshold | ErrMaxTSSSessions | ErrDKGMissing

definition config_Validate :: "p2p_config \<Rightarrow> bool \<Rightarrow> config_error + unit" where
  "config_Validate c dkgPresent =
     (if pc_MaxConns c < 0 then Inl ErrMaxConns
      else if pc_RateLimit c < 0 then Inl ErrRateLimit
      else if pc_ScoreThreshold c < 0 then Inl ErrScoreThreshold
      else if pc_MaxTSSSessions c < 0 then Inl ErrMaxTSSSessions
      else if pc_DKGRequired c \<and> \<not> dkgPresent then Inl ErrDKGMissing
      else Inr ())"

section \<open>Gates\<close>

definition rate_AllowWithReason :: "int \<Rightarrow> (bool \<times> string) \<times> int" where
  "rate_AllowWithReason remain =
     (if remain \<le> 0 then ((False, ''rate_limited''), remain) else ((True, ''allowed''), remain - 1))"

record ScoreGate =
  sg_threshold :: int
  sg_scores :: "string \<rightharpoonup> int"

definition score_AllowWithReason :: "ScoreGate \<Rightarrow> string \<Rightarrow> bool \<times> string" where
  "score_AllowWithReason g i =
     (if sg_threshold g \<le> 0 then (True, ''allowed'')
      else case sg_scores g i of
        None \<Rightarrow> (False, ''scored_out'')
      | Some s \<Rightarrow> if s < sg_threshold g then (False, ''scored_out'') else (True, ''allowed''))"

record CombinedGate =
  cg_allow :: "string set option"
  cg_rate :: "int option"
  cg_score :: "ScoreGate option"

definition combined_AllowWithReason :: "CombinedGate \<Rightarrow> string \<Rightarrow> (bool \<times> string) \<times> CombinedGate" where
  "combined_AllowWithReason g i =
     (if (case cg_allow g of None \<Rightarrow> False | Some A \<Rightarrow> i \<notin> A) then ((False, ''denied''), g)
      else
        let (ok, g1) = (case cg_rate g of
              None \<Rightarrow> (True, g)
            | Some r \<Rightarrow> (let ((ok, _), r') = rate_AllowWithReason r in (ok, g\<lparr>cg_rate := Some r'\<rparr>)))
        in if \<not> ok then ((False, ''limited''), g1)
           else if (case cg_score g1 of None \<Rightarrow> False | Some sg \<Rightarrow> \<not> fst (score_AllowWithReason sg i))
           then ((False, ''denied''), g1)
           else ((True, ''allowed''), g1))"

datatype gate = AllowAllGate | StaticDenyGate | AllowListGate "string set" | RateLimitGate int
  | ScoreGate ScoreGate | CombinedGate CombinedGate

definition NewAllowListGate :: "string list \<Rightarrow> string set" where
  "NewAllowListGate ids = set ids"

definition allowlist_Add :: "string \<Rightarrow> string set \<Rightarrow> string set" where
  "allowlist_Add i A = insert i A"

definition allowlist_Remove :: "string \<Rightarrow> string set \<Rightarrow> string set" where
  "allowlist_Remove i A = A - {i}"

text \<open>
  The admission the service asks for: the reason of a gate that gives one, \<open>denied\<close> of the
  others.
\<close>

fun gate_Allow :: "gate \<Rightarrow> string \<Rightarrow> (bool \<times> string) \<times> gate" where
  "gate_Allow AllowAllGate i = ((True, ''denied''), AllowAllGate)"
| "gate_Allow StaticDenyGate i = ((False, ''denied''), StaticDenyGate)"
| "gate_Allow (AllowListGate A) i = ((i \<in> A, ''denied''), AllowListGate A)"
| "gate_Allow (RateLimitGate r) i = (let (x, r') = rate_AllowWithReason r in (x, RateLimitGate r'))"
| "gate_Allow (ScoreGate g) i = (score_AllowWithReason g i, ScoreGate g)"
| "gate_Allow (CombinedGate g) i = (let (x, g') = combined_AllowWithReason g i in (x, CombinedGate g'))"

section \<open>Limits\<close>

record ResourceManager =
  rm_MaxConns :: int
  rm_open :: int

definition NewResourceManager :: "int \<Rightarrow> ResourceManager" where
  "NewResourceManager l = \<lparr>rm_MaxConns = l, rm_open = 0\<rparr>"

definition rm_TryOpen :: "ResourceManager \<Rightarrow> bool \<times> ResourceManager \<times> metric list" where
  "rm_TryOpen r =
     (if rm_MaxConns r \<le> rm_open r then (False, r, [])
      else (True, r\<lparr>rm_open := rm_open r + 1\<rparr>,
            [Inc ''p2p_conn_open_total'' [], AddGauge ''p2p_conns_open'' [] 1]))"

definition rm_Close :: "ResourceManager \<Rightarrow> ResourceManager \<times> metric list" where
  "rm_Close r =
     (if rm_open r \<le> 0 then (r, [])
      else (r\<lparr>rm_open := rm_open r - 1\<rparr>,
            [Inc ''p2p_conn_close_total'' [], AddGauge ''p2p_conns_open'' [] (- 1)]))"

record TSSLimiter =
  tl_max :: int
  tl_open :: int

text \<open>\<open>None\<close> is the nil limiter.\<close>

definition tl_TryOpen :: "TSSLimiter option \<Rightarrow> bool \<times> TSSLimiter option \<times> metric list" where
  "tl_TryOpen lo = (case lo of
     None \<Rightarrow> (True, None, [])
   | Some l \<Rightarrow>
       if tl_max l \<le> 0 then (True, Some l, [])
       else if tl_max l \<le> tl_open l
       then (False, Some l, [Inc ''tss_rate_limited_total'' [(''kind'', ''tss_session'')]])
       else (True, Some (l\<lparr>tl_open := tl_open l + 1\<rparr>), [AddGauge ''tss_sessions_open'' [] 1]))"

definition tl_Close :: "TSSLimiter option \<Rightarrow> TSSLimiter option \<times> metric list" where
  "tl_Close lo = (case lo of
     None \<Rightarrow> (None, [])
   | Some l \<Rightarrow>
       if tl_max l \<le> 0 \<or> tl_open l \<le> 0 then (Some l, [])
       else (Some (l\<lparr>tl_open := tl_open l - 1\<rparr>), [AddGauge ''tss_sessions_open'' [] (- 1)]))"

section \<open>Peers, hooks, cluster lock\<close>

definition AddPeer :: "string \<Rightarrow> string set \<Rightarrow> string set \<times> metric list" where
  "AddPeer i ps = (insert i ps, [Inc ''p2p_peers_added_total'' []])"

definition RemovePeer :: "string \<Rightarrow> string set \<Rightarrow> string set \<times> metric list" where
  "RemovePeer i ps = (ps - {i}, [Inc ''p2p_peers_removed_total'' []])"

definition manager_Broadcast :: "nat \<Rightarrow> string set \<Rightarrow> nat \<times> metric list" where
  "manager_Broadcast ms ps =
     (card ps, [Inc ''p2p_messages_total'' [(''kind'', ''broadcast'')],
                ObserveSummary ''p2p_broadcast_ms'' [(''kind'', ''broadcast'')] ms])"

datatype hook = NopHook | LogHook

definition OnPeerJoin :: "hook \<Rightarrow> metric list" where
  "OnPeerJoin h = (case h of NopHook \<Rightarrow> [] | LogHook \<Rightarrow> [Inc ''p2p_peers_joined_total'' []])"

definition OnPeerLeave :: "hook \<Rightarrow> metric list" where
  "OnPeerLeave h = (case h of NopHook \<Rightarrow> [] | LogHook \<Rightarrow> [Inc ''p2p_peers_left_total'' []])"

text \<open>The interface \<^verbatim>\<open>dkg.Verifier\<close>: whether the cluster check succeeds and which peers may join.\<close>

record dkg_verifier =
  VerifyCluster :: bool
  AllowPeer :: "string \<Rightarrow> bool"

definition NoopVerifier :: dkg_verifier where
  "NoopVerifier = \<lparr>VerifyCluster = True, AllowPeer = (\<lambda>_. True)\<rparr>"

definition NewStaticVerifier :: "string list \<Rightarrow> dkg_verifier" where
  "NewStaticVerifier ids = \<lparr>VerifyCluster = True, AllowPeer = (\<lambda>i. i \<in> set ids)\<rparr>"

section \<open>The service\<close>

record p2p_service =
  ps_mgr :: "string set"
  ps_gate :: gate
  ps_rman :: ResourceManager
  ps_hook :: hook
  ps_dkgv :: "dkg_verifier option"
  ps_cfg :: p2p_config
  ps_tss :: "TSSLimiter option"

definition p2p_New :: p2p_service where
  "p2p_New = \<lparr>ps_mgr = {}, ps_gate = AllowAllGate, ps_rman = NewResourceManager 128, ps_hook = LogHook,
     ps_dkgv = Some NoopVerifier, ps_cfg = DefaultConfig, ps_tss = None\<rparr>"

text \<open>A nil argument is replaced by its default; the default hook is silent.\<close>

definition NewWithOpts :: "string set option \<Rightarrow> gate option \<Rightarrow> ResourceManager option \<Rightarrow> hook option \<Rightarrow> p2p_service" where
  "NewWithOpts mgr g rman hk =
     \<lparr>ps_mgr = (case mgr of None \<Rightarrow> {} | Some m \<Rightarrow> m), ps_gate = (case g of None \<Rightarrow> AllowAllGate | Some x \<Rightarrow> x),
      ps_rman = (case rman of None \<Rightarrow> NewResourceManager 128 | Some r \<Rightarrow> r), ps_hook = (case hk of None \<Rightarrow> NopHook | Some h \<Rightarrow> h),
      ps_dkgv = Some NoopVerifier, ps_cfg = DefaultConfig, ps_tss = None\<rparr>"

definition SetConfig :: "p2p_config \<Rightarrow> p2p_service \<Rightarrow> p2p_service" where
  "SetConfig c s = s\<lparr>ps_cfg := c\<rparr>"

definition SetDKG :: "dkg_verifier option \<Rightarrow> p2p_service \<Rightarrow> p2p_service" where
  "SetDKG v s = s\<lparr>ps_dkgv := v\<rparr>"

text \<open>The gate \<^verbatim>\<open>Start\<close> builds from the configuration, unless nothing is configured.\<close>

definition start_gate :: "p2p_config \<Rightarrow> gate \<Rightarrow> gate" where
  "start_gate c g =
     (let allow = (if pc_AllowList c \<noteq> [] then Some (NewAllowListGate (pc_AllowList c)) else None);
          rate = (if 0 < pc_RateLimit c then Some (pc_RateLimit c) else None);
          score = (if 0 < pc_ScoreThreshold c
                   then Some \<lparr>sg_threshold = pc_ScoreThreshold c, sg_scores = Map.empty\<rparr> else None)
      in if allow = None \<and> rate = None \<and> score = None then g
         else CombinedGate \<lparr>cg_allow = allow, cg_rate = rate, cg_score = score\<rparr>)"

datatype start_error = ErrConfig config_error | ErrCluster

definition op_ms :: "string \<Rightarrow> string \<Rightarrow> nat \<Rightarrow> metric" where
  "op_ms svc op ms = ObserveSummary ''service_op_ms'' [(''service'', svc), (''op'', op)] ms"

definition p2p_Start :: "nat \<Rightarrow> p2p_service \<Rightarrow> (start_error + unit) \<times> p2p_service \<times> metric list" where
  "p2p_Start ms s =
     (case config_Validate (ps_cfg s) (ps_dkgv s \<noteq> None) of
        Inl e \<Rightarrow> (Inl (ErrConfig e), s,
           [Inc ''p2p_config_checks_total'' [(''result'', ''error'')], op_ms ''p2p'' ''start'' ms])
      | Inr _ \<Rightarrow>
          (let c = ps_cfg s; ok = Inc ''p2p_config_checks_total'' [(''result'', ''ok'')];
               s1 = s\<lparr>ps_gate := start_gate c (ps_gate s)\<rparr>;
               s2 = (if rm_MaxConns (ps_rman s1) \<noteq> pc_MaxConns c
                     then s1\<lparr>ps_rman := NewResourceManager (pc_MaxConns c)\<rparr> else s1);
               s3 = s2\<lparr>ps_tss := if 0 < pc_MaxTSSSessions c
                          then Some \<lparr>tl_max = pc_MaxTSSSessions c, tl_open = 0\<rparr> else None\<rparr>
           in case ps_dkgv s of
                None \<Rightarrow> (Inr (), s3, [ok, op_ms ''p2p'' ''start'' ms])
              | Some v \<Rightarrow>
                  if \<not> VerifyCluster v
                  then (Inl ErrCluster, s3, [ok, Inc ''p2p_dkg_cluster_checks_total'' [(''result'', ''error'')],
                          op_ms ''p2p'' ''start'' ms])
                  else (Inr (), s3, [ok, Inc ''p2p_dkg_cluster_checks_total'' [(''result'', ''ok'')],
                          op_ms ''p2p'' ''start'' ms])))"

definition p2p_Stop :: "nat \<Rightarrow> p2p_service \<Rightarrow> p2p_service \<times> metric list" where
  "p2p_Stop ms s = (s, [op_ms ''p2p'' ''stop'' ms])"

datatype connect_error = ErrPeerDenied | ErrDkgDenied | ErrResourceLimit

definition attempts :: "string \<Rightarrow> metric" where
  "attempts r = Inc ''p2p_conn_attempts_total'' [(''result'', r)]"

definition Connect :: "string \<Rightarrow> p2p_service \<Rightarrow> (connect_error + unit) \<times> p2p_service \<times> metric list" where
  "Connect i s =
     (case gate_Allow (ps_gate s) i of
        ((False, reason), g) \<Rightarrow>
          (Inl ErrPeerDenied, s\<lparr>ps_gate := g\<rparr>, [attempts (if reason = [] then ''denied'' else reason)])
      | ((True, _), g) \<Rightarrow>
          (let s1 = s\<lparr>ps_gate := g\<rparr> in
           if (case ps_dkgv s1 of None \<Rightarrow> False | Some v \<Rightarrow> \<not> AllowPeer v i)
           then (Inl ErrDkgDenied, s1, [attempts ''dkg_denied''])
           else case rm_TryOpen (ps_rman s1) of
             (False, r, ms) \<Rightarrow> (Inl ErrResourceLimit, s1\<lparr>ps_rman := r\<rparr>, ms @ [attempts ''limited''])
           | (True, r, ms) \<Rightarrow>
               (let (ps, ms') = AddPeer i (ps_mgr s1)
                in (Inr (), s1\<lparr>ps_rman := r, ps_mgr := ps\<rparr>,
                    ms @ ms' @ [attempts ''allowed''] @ OnPeerJoin (ps_hook s1)))))"

definition Disconnect :: "string \<Rightarrow> p2p_service \<Rightarrow> p2p_service \<times> metric list" where
  "Disconnect i s =
     (let (ps, ms) = RemovePeer i (ps_mgr s); (r, ms') = rm_Close (ps_rman s)
      in (s\<lparr>ps_mgr := ps, ps_rman := r\<rparr>, ms @ ms' @ OnPeerLeave (ps_hook s)))"

definition TryOpenTSS :: "p2p_service \<Rightarrow> bool \<times> p2p_service \<times> metric list" where
  "TryOpenTSS s = (let (ok, l, ms) = tl_TryOpen (ps_tss s) in (ok, s\<lparr>ps_tss := l\<rparr>, ms))"

definition CloseTSS :: "p2p_service \<Rightarrow> p2p_service \<times> metric list" where
  "CloseTSS s = (let (l, ms) = tl_Close (ps_tss s) in (s\<lparr>ps_tss := l\<rparr>, ms))"

text \<open>\<^verbatim>\<open>internal/tss/service.go\<close>: the TSS service holds one session slot while it runs.\<close>

definition tss_Start :: "nat \<Rightarrow> bool \<times> p2p_service \<Rightarrow> (bool \<times> p2p_service) \<times> metric list" where
  "tss_Start ms = (\<lambda>(opened, s).
     let (ok, s', ev) = TryOpenTSS s in ((ok \<or> opened, s'), ev @ [op_ms ''tss'' ''start'' ms]))"

definition tss_Stop :: "nat \<Rightarrow> bool \<times> p2p_service \<Rightarrow> (bool \<times> p2p_service) \<times> metric list" where
  "tss_Stop ms = (\<lambda>(opened, s).
     let (s', ev) = (if opened then CloseTSS s else (s, [])) in ((opened, s'), ev @ [op_ms ''tss'' ''stop'' ms]))"

section \<open>Limits under interleaved calls\<close>

datatype slot_call = OpenCall nat | CloseCall nat

fun slot_delta :: "slot_call \<Rightarrow> int" where
  "slot_delta (OpenCall _) = 1" | "slot_delta (CloseCall _) = - 1"

text \<open>The test and the new value of one turn of the two loops, read off the operations.\<close>

fun rm_guard :: "int \<Rightarrow> slot_call \<Rightarrow> int \<Rightarrow> bool" where
  "rm_guard mx (OpenCall _) n = fst (rm_TryOpen \<lparr>rm_MaxConns = mx, rm_open = n\<rparr>)"
| "rm_guard mx (CloseCall _) n = (snd (rm_Close \<lparr>rm_MaxConns = mx, rm_open = n\<rparr>) \<noteq> [])"

fun rm_upd :: "int \<Rightarrow> slot_call \<Rightarrow> int \<Rightarrow> int" where
  "rm_upd mx (OpenCall _) n = rm_open (fst (snd (rm_TryOpen \<lparr>rm_MaxConns = mx, rm_open = n\<rparr>)))"
| "rm_upd mx (CloseCall _) n = rm_open (fst (rm_Close \<lparr>rm_MaxConns = mx, rm_open = n\<rparr>))"

interpretation conn_slots: cas_loop "rm_guard mx" "rm_upd mx" slot_delta "\<lambda>n. 0 \<le> n \<and> n \<le> mx" for mx
proof
  fix t n
  show "rm_guard mx t n \<Longrightarrow> rm_upd mx t n = n + slot_delta t"
    by (cases t) (auto simp: rm_TryOpen_def rm_Close_def split: if_splits)
  show "0 \<le> n \<and> n \<le> mx \<Longrightarrow> rm_guard mx t n \<Longrightarrow> 0 \<le> rm_upd mx t n \<and> rm_upd mx t n \<le> mx"
    by (cases t) (auto simp: rm_TryOpen_def rm_Close_def split: if_splits)
qed

fun tl_guard :: "int \<Rightarrow> slot_call \<Rightarrow> int \<Rightarrow> bool" where
  "tl_guard mx (OpenCall _) n = fst (tl_TryOpen (Some \<lparr>tl_max = mx, tl_open = n\<rparr>))"
| "tl_guard mx (CloseCall _) n = (snd (tl_Close (Some \<lparr>tl_max = mx, tl_open = n\<rparr>)) \<noteq> [])"

fun tl_upd :: "int \<Rightarrow> slot_call \<Rightarrow> int \<Rightarrow> int" where
  "tl_upd mx (OpenCall _) n = tl_open (the (fst (snd (tl_TryOpen (Some \<lparr>tl_max = mx, tl_open = n\<rparr>)))))"
| "tl_upd mx (CloseCall _) n = tl_open (the (fst (tl_Close (Some \<lparr>tl_max = mx, tl_open = n\<rparr>))))"

lemma tl_loop:
  assumes "0 < mx"
  shows "cas_loop (tl_guard mx) (tl_upd mx) slot_delta (\<lambda>n. 0 \<le> n \<and> n \<le> mx)"
proof
  fix t n
  show "tl_guard mx t n \<Longrightarrow> tl_upd mx t n = n + slot_delta t"
    using assms by (cases t) (auto simp: tl_TryOpen_def tl_Close_def split: if_splits)
  show "0 \<le> n \<and> n \<le> mx \<Longrightarrow> tl_guard mx t n \<Longrightarrow> 0 \<le> tl_upd mx t n \<and> tl_upd mx t n \<le> mx"
    using assms by (cases t) (auto simp: tl_TryOpen_def tl_Close_def split: if_splits)
qed

interpretation rate_tokens: cas_loop "\<lambda>(_ :: nat) n. fst (fst (rate_AllowWithReason n))"
  "\<lambda>_ n. snd (rate_AllowWithReason n)" "\<lambda>_. - 1" "\<lambda>n. 0 \<le> n"
  by unfold_locales (auto simp: rate_AllowWithReason_def split: if_splits)

definition opened_by :: "(slot_call \<Rightarrow> cas_pc) \<Rightarrow> nat set" where
  "opened_by pc = {i. pc (OpenCall i) = Returned True}"

definition closed_by :: "(slot_call \<Rightarrow> cas_pc) \<Rightarrow> nat set" where
  "closed_by pc = {i. pc (CloseCall i) = Returned True}"

lemma winners_split: "winners pc = OpenCall ` opened_by pc \<union> CloseCall ` closed_by pc"
proof (rule set_eqI)
  fix t show "t \<in> winners pc \<longleftrightarrow> t \<in> OpenCall ` opened_by pc \<union> CloseCall ` closed_by pc"
    by (cases t) (auto simp: winners_def opened_by_def closed_by_def)
qed

lemma sum_slot_delta:
  assumes "finite (winners pc)"
  shows "sum slot_delta (winners pc) = int (card (opened_by pc)) - int (card (closed_by pc))"
proof -
  have fin: "finite (OpenCall ` opened_by pc)" "finite (CloseCall ` closed_by pc)"
    using assms unfolding winners_split by simp_all
  have inj: "inj_on OpenCall (opened_by pc)" "inj_on CloseCall (closed_by pc)" by (simp_all add: inj_on_def)
  have "OpenCall ` opened_by pc \<inter> CloseCall ` closed_by pc = {}" by auto
  then have "sum slot_delta (winners pc) = sum slot_delta (OpenCall ` opened_by pc) + sum slot_delta (CloseCall ` closed_by pc)"
    unfolding winners_split using fin by (simp add: sum.union_disjoint)
  then show ?thesis using inj by (simp add: sum.reindex)
qed

section \<open>The peer set and the slots\<close>

datatype p2p_op = ConnectOp string | DisconnectOp string

fun p2p_step :: "p2p_op \<Rightarrow> p2p_service \<Rightarrow> p2p_service" where
  "p2p_step (ConnectOp i) s = fst (snd (Connect i s))"
| "p2p_step (DisconnectOp i) s = fst (Disconnect i s)"

definition p2p_run :: "p2p_op list \<Rightarrow> p2p_service \<Rightarrow> p2p_service" where
  "p2p_run ops s = fold p2p_step ops s"

text \<open>Callers that connect a peer only when it is absent and disconnect it only when it is present.\<close>

fun paired :: "p2p_op list \<Rightarrow> p2p_service \<Rightarrow> bool" where
  "paired [] s \<longleftrightarrow> True"
| "paired (op # ops) s \<longleftrightarrow>
     (case op of ConnectOp i \<Rightarrow> i \<notin> ps_mgr s | DisconnectOp i \<Rightarrow> i \<in> ps_mgr s) \<and> paired ops (p2p_step op s)"

lemma Connect_parts:
  "fst (Connect i s) = Inr () \<longleftrightarrow>
     fst (fst (gate_Allow (ps_gate s) i)) \<and> (\<forall>v. ps_dkgv s = Some v \<longrightarrow> AllowPeer v i)
     \<and> rm_open (ps_rman s) < rm_MaxConns (ps_rman s)"
  "fst (snd (Connect i s)) =
     s\<lparr>ps_gate := snd (gate_Allow (ps_gate s) i),
       ps_mgr := (if fst (Connect i s) = Inr () then insert i (ps_mgr s) else ps_mgr s),
       ps_rman := (ps_rman s)\<lparr>rm_open := rm_open (ps_rman s) + (if fst (Connect i s) = Inr () then 1 else 0)\<rparr>\<rparr>"
  by (auto simp: Connect_def rm_TryOpen_def AddPeer_def Let_def split: prod.splits bool.splits option.splits if_splits)

definition slots_match :: "p2p_service \<Rightarrow> bool" where
  "slots_match s \<longleftrightarrow> finite (ps_mgr s) \<and> int (card (ps_mgr s)) = rm_open (ps_rman s)
     \<and> rm_open (ps_rman s) \<le> rm_MaxConns (ps_rman s)"

lemma slots_match_step:
  assumes "slots_match s" and "paired (op # ops) s"
  shows "slots_match (p2p_step op s)" and "rm_MaxConns (ps_rman (p2p_step op s)) = rm_MaxConns (ps_rman s)"
proof -
  have "slots_match (p2p_step op s) \<and> rm_MaxConns (ps_rman (p2p_step op s)) = rm_MaxConns (ps_rman s)"
  proof (cases op)
    case (ConnectOp i)
    with assms show ?thesis
      by (cases "fst (Connect i s) = Inr ()") (auto simp: slots_match_def Connect_parts(2), simp add: Connect_parts(1))
  next
    case (DisconnectOp i)
    then have "i \<in> ps_mgr s" using assms(2) by simp
    moreover have "card (ps_mgr s) \<noteq> 0" using assms(1) calculation by (auto simp: slots_match_def)
    ultimately show ?thesis
      using assms(1) DisconnectOp
      by (auto simp: slots_match_def Disconnect_def RemovePeer_def rm_Close_def card_Diff_singleton Let_def)
  qed
  then show "slots_match (p2p_step op s)" and "rm_MaxConns (ps_rman (p2p_step op s)) = rm_MaxConns (ps_rman s)"
    by blast+
qed

lemma slots_match_run:
  "slots_match s \<Longrightarrow> paired ops s \<Longrightarrow>
     slots_match (p2p_run ops s) \<and> rm_MaxConns (ps_rman (p2p_run ops s)) = rm_MaxConns (ps_rman s)"
proof (induction ops arbitrary: s)
  case (Cons op ops)
  from slots_match_step [OF Cons.prems] Cons.IH [of "p2p_step op s"] Cons.prems(2) show ?case
    by (simp add: p2p_run_def)
qed (simp add: p2p_run_def)

text \<open>A gate that admits nobody: a combined gate with a positive threshold and no scores.\<close>

definition scoreless :: "gate \<Rightarrow> bool" where
  "scoreless g \<longleftrightarrow> (\<exists>a r t. 0 < t \<and> g = CombinedGate \<lparr>cg_allow = a, cg_rate = r,
     cg_score = Some \<lparr>sg_threshold = t, sg_scores = Map.empty\<rparr>\<rparr>)"

lemma scoreless_Allow:
  assumes "scoreless g"
  shows "\<not> fst (fst (gate_Allow g i))" and "scoreless (snd (gate_Allow g i))"
  using assms
  by (auto simp: scoreless_def combined_AllowWithReason_def rate_AllowWithReason_def score_AllowWithReason_def Let_def
      split: option.splits if_splits)

lemma scoreless_step:
  assumes "scoreless (ps_gate s)" and "ps_mgr s = {}"
  shows "scoreless (ps_gate (p2p_step op s)) \<and> ps_mgr (p2p_step op s) = {}"
proof (cases op)
  case (ConnectOp i)
  have "fst (Connect i s) \<noteq> Inr ()" using scoreless_Allow(1) [OF assms(1), of i] by (simp add: Connect_parts(1))
  with ConnectOp assms scoreless_Allow(2) [OF assms(1), of i] show ?thesis by (simp add: Connect_parts(2))
next
  case (DisconnectOp i)
  with assms show ?thesis by (simp add: Disconnect_def RemovePeer_def Let_def case_prod_beta)
qed

lemma scoreless_run:
  "scoreless (ps_gate s) \<Longrightarrow> ps_mgr s = {} \<Longrightarrow> scoreless (ps_gate (p2p_run ops s)) \<and> ps_mgr (p2p_run ops s) = {}"
proof (induction ops arbitrary: s)
  case (Cons op ops)
  from Cons.IH [of "p2p_step op s"] scoreless_step [OF Cons.prems, of op] show ?case by (simp add: p2p_run_def)
qed (simp add: p2p_run_def)

section \<open>Properties\<close>

text \<open>
  C30: any number of goroutines that open and close connection slots concurrently keep the
  counter between 0 and \<^verbatim>\<open>MaxConns\<close>, and it equals the successful opens minus the successful
  closes; a step that changes the counter is one whole \<^verbatim>\<open>TryOpen\<close> or \<^verbatim>\<open>Close\<close> on the current
  value.
\<close>

theorem conn_slots_interleaved:
  assumes "cas_steps (rm_guard mx) (rm_upd mx) (0, \<lambda>_. AtLoad) (n, pc)" and "0 \<le> mx"
  shows "0 \<le> n \<and> n \<le> mx \<and> n = int (card (opened_by pc)) - int (card (closed_by pc))
    \<and> (\<forall>n' pc'. cas_step (rm_guard mx) (rm_upd mx) (n, pc) (n', pc') \<longrightarrow>
         n' = n \<or> (\<exists>t. rm_guard mx t n \<and> n' = rm_upd mx t n \<and> pc' t = Returned True))"
proof -
  have start: "0 \<le> (0 :: int) \<and> 0 \<le> mx" using assms(2) by simp
  note reach = conn_slots.reach [OF assms(1) start]
  have "\<forall>n' pc'. cas_step (rm_guard mx) (rm_upd mx) (n, pc) (n', pc') \<longrightarrow>
         n' = n \<or> (\<exists>t. rm_guard mx t n \<and> n' = rm_upd mx t n \<and> pc' t = Returned True)"
    using conn_slots.atomic_step [OF assms(1) start] by blast
  with reach sum_slot_delta [OF reach(3)] show ?thesis by simp
qed

text \<open>
  the same for TSS session slots with a positive limit, and the rate limiter admits at most
  its initial allowance, however the calls interleave.
\<close>

theorem session_and_rate_limits:
  assumes "cas_steps (tl_guard mx) (tl_upd mx) (0, \<lambda>_. AtLoad) (n, pc)" and "0 < mx"
    and "cas_steps (\<lambda>(_ :: nat) n. fst (fst (rate_AllowWithReason n))) (\<lambda>_ n. snd (rate_AllowWithReason n))
           (limit, \<lambda>_. AtLoad) (remain, pc2)" and "0 \<le> limit"
  shows "0 \<le> n \<and> n \<le> mx \<and> n = int (card (opened_by pc)) - int (card (closed_by pc))
    \<and> int (card (winners pc2)) + remain = limit \<and> int (card (winners pc2)) \<le> limit"
proof -
  have start: "0 \<le> (0 :: int) \<and> 0 \<le> mx" using assms(2) by simp
  note tl = cas_loop.reach [OF tl_loop [OF assms(2)] assms(1) start]
  note rate = rate_tokens.reach [OF assms(3,4)]
  have "remain = limit - int (card (winners pc2))" using rate(2) by simp
  with rate(1) tl sum_slot_delta [OF tl(3)] show ?thesis by simp
qed

text \<open>
  \<^verbatim>\<open>Connect\<close> admits a peer exactly when the gate admits it, the cluster lock allows it and a
  slot is free; a refused attempt changes neither the peers nor the slots.
\<close>

theorem connect_admits_iff:
  "(fst (Connect i s) = Inr () \<longleftrightarrow>
      fst (fst (gate_Allow (ps_gate s) i)) \<and> (case ps_dkgv s of None \<Rightarrow> True | Some v \<Rightarrow> AllowPeer v i)
      \<and> rm_open (ps_rman s) < rm_MaxConns (ps_rman s))
   \<and> ps_mgr (fst (snd (Connect i s))) = (if fst (Connect i s) = Inr () then insert i (ps_mgr s) else ps_mgr s)
   \<and> rm_open (ps_rman (fst (snd (Connect i s)))) =
       rm_open (ps_rman s) + (if fst (Connect i s) = Inr () then 1 else 0)"
  using Connect_parts(1) [of i s] by (auto simp: Connect_parts(2) split: option.splits)

text \<open>
  as long as callers connect absent peers and disconnect present ones, the number of peers
  is the number of open slots and stays within the limit.
\<close>

theorem peers_within_limit:
  assumes "p2p_Start ms s0 = (Inr (), s, ev)" and "ps_mgr s0 = {}" and "rm_open (ps_rman s0) = 0" and "paired ops s"
  shows "int (card (ps_mgr (p2p_run ops s))) = rm_open (ps_rman (p2p_run ops s))
    \<and> rm_open (ps_rman (p2p_run ops s)) \<le> pc_MaxConns (ps_cfg s0)"
proof -
  have "slots_match s" "rm_MaxConns (ps_rman s) = pc_MaxConns (ps_cfg s0)"
    using assms(1-3)
    by (auto simp: p2p_Start_def slots_match_def NewResourceManager_def config_Validate_def Let_def
        split: sum.splits if_splits option.splits)
  with slots_match_run [of s ops] assms(4) show ?thesis by (simp add: slots_match_def)
qed

text \<open>
  with a positive score threshold in the configuration a started service admits no peer at
  all, whatever is connected and disconnected: the gate is built without a score table.
\<close>

theorem score_threshold_denies_all:
  assumes "p2p_Start ms s0 = (Inr (), s, ev)" and "ps_mgr s0 = {}" and "0 < pc_ScoreThreshold (ps_cfg s0)"
  shows "ps_mgr (p2p_run ops s) = {} \<and> fst (Connect i (p2p_run ops s)) = Inl ErrPeerDenied"
proof -
  have "scoreless (ps_gate s)" "ps_mgr s = {}"
    using assms
    by (auto simp: p2p_Start_def start_gate_def scoreless_def Let_def split: sum.splits if_splits option.splits)
  from scoreless_run [OF this, of ops] have run: "scoreless (ps_gate (p2p_run ops s))" "ps_mgr (p2p_run ops s) = {}" by simp_all
  from scoreless_Allow(1) [OF run(1), of i] obtain reason g where
    "gate_Allow (ps_gate (p2p_run ops s)) i = ((False, reason), g)" by (metis prod.collapse)
  with run(2) show ?thesis by (simp add: Connect_def)
qed

definition demo_p2p :: "int \<Rightarrow> p2p_service" where
  "demo_p2p mx = SetConfig (DefaultConfig\<lparr>pc_MaxConns := mx\<rparr>) p2p_New"

text \<open>
  disconnecting a peer that is not connected frees a slot all the same: with a limit of one
  connection, two peers are then connected at once.
\<close>

theorem unknown_disconnect_exceeds_limit:
  "let s = fst (snd (p2p_Start 0 (demo_p2p 1)));
       s' = p2p_run [ConnectOp ''a'', DisconnectOp ''b'', ConnectOp ''c''] s
   in pc_MaxConns (ps_cfg s') = 1 \<and> ps_mgr s' = {''a'', ''c''}"
  by (simp add: demo_p2p_def SetConfig_def DefaultConfig_def p2p_New_def p2p_Start_def config_Validate_def start_gate_def
      NoopVerifier_def NewResourceManager_def p2p_run_def Connect_def Disconnect_def rm_TryOpen_def rm_Close_def
      AddPeer_def RemovePeer_def Let_def) auto

theorem conn_slots_interleaved_witness:
  "\<exists>n pc. cas_steps (rm_guard 1) (rm_upd 1) (0, \<lambda>_. AtLoad) (n, pc) \<and> n = 1 \<and> opened_by pc = {0}
     \<and> int (card (opened_by pc)) - int (card (closed_by pc)) = n"
proof -
  let ?pc = "(\<lambda>_. AtLoad)(OpenCall 0 := Returned True)"
  have run: "cas_steps (rm_guard 1) (rm_upd 1) (0, \<lambda>_. AtLoad) (1, ?pc)"
    using cas_alone [of "rm_guard 1" "OpenCall 0" 0 "rm_upd 1"] by (simp add: rm_TryOpen_def)
  have "opened_by ?pc = {0}" by (auto simp: opened_by_def)
  moreover have "1 = int (card (opened_by ?pc)) - int (card (closed_by ?pc))"
    using conn_slots_interleaved [OF run] by simp
  ultimately show ?thesis using run by (intro exI [of _ 1] exI [of _ ?pc]) simp
qed

theorem session_and_rate_limits_witness:
  "\<exists>pc pc2. cas_steps (tl_guard 2) (tl_upd 2) (0, \<lambda>_. AtLoad) (1, pc)
     \<and> cas_steps (\<lambda>(_ :: nat) n. fst (fst (rate_AllowWithReason n))) (\<lambda>_ n. snd (rate_AllowWithReason n))
           (3, \<lambda>_. AtLoad) (2, pc2)
     \<and> int (card (opened_by pc)) - int (card (closed_by pc)) = 1 \<and> int (card (winners pc2)) + 2 = 3"
proof -
  let ?pc = "(\<lambda>_. AtLoad)(OpenCall 0 := Returned True)" and ?pc2 = "(\<lambda>_. AtLoad)((0 :: nat) := Returned True)"
  have tl: "cas_steps (tl_guard 2) (tl_upd 2) (0, \<lambda>_. AtLoad) (1, ?pc)"
    using cas_alone [of "tl_guard 2" "OpenCall 0" 0 "tl_upd 2"] by (simp add: tl_TryOpen_def)
  have rate: "cas_steps (\<lambda>(_ :: nat) n. fst (fst (rate_AllowWithReason n))) (\<lambda>_ n. snd (rate_AllowWithReason n))
       (3, \<lambda>_. AtLoad) (2, ?pc2)"
    using cas_alone [of "\<lambda>(_ :: nat) n. fst (fst (rate_AllowWithReason n))" 0 3 "\<lambda>_ n. snd (rate_AllowWithReason n)"]
    by (simp add: rate_AllowWithReason_def)
  have "(0 :: int) < 2" "(0 :: int) \<le> 3" by simp_all
  from session_and_rate_limits [OF tl this(1) rate this(2)] tl rate show ?thesis
    by (intro exI [of _ ?pc] exI [of _ ?pc2] conjI) simp_all
qed

lemma demo_p2p_Start:
  "p2p_Start 0 (demo_p2p 1) = (Inr (), demo_p2p 1 \<lparr>ps_rman := NewResourceManager 1\<rparr>,
     [Inc ''p2p_config_checks_total'' [(''result'', ''ok'')],
      Inc ''p2p_dkg_cluster_checks_total'' [(''result'', ''ok'')], op_ms ''p2p'' ''start'' 0])"
  by (simp add: demo_p2p_def SetConfig_def DefaultConfig_def p2p_New_def p2p_Start_def config_Validate_def start_gate_def
      NoopVerifier_def NewResourceManager_def Let_def)

theorem peers_within_limit_witness:
  "let s = fst (snd (p2p_Start 0 (demo_p2p 1)));
       ops = [ConnectOp ''a'', DisconnectOp ''a'', ConnectOp ''b'']
   in paired ops s \<and> rm_open (ps_rman (p2p_run ops s)) \<le> 1"
proof -
  let ?s = "fst (snd (p2p_Start 0 (demo_p2p 1)))" and ?ops = "[ConnectOp ''a'', DisconnectOp ''a'', ConnectOp ''b'']"
  have "paired ?ops ?s"
    by (simp add: demo_p2p_Start)
      (simp add: demo_p2p_def SetConfig_def p2p_New_def NoopVerifier_def NewResourceManager_def Connect_def Disconnect_def
        rm_TryOpen_def rm_Close_def AddPeer_def RemovePeer_def Let_def)
  moreover have "ps_mgr (demo_p2p 1) = {}" "rm_open (ps_rman (demo_p2p 1)) = 0" "pc_MaxConns (ps_cfg (demo_p2p 1)) = 1"
    by (simp_all add: demo_p2p_def SetConfig_def p2p_New_def NewResourceManager_def DefaultConfig_def)
  ultimately show ?thesis using peers_within_limit [OF demo_p2p_Start, of ?ops] by (simp add: demo_p2p_Start)
qed

theorem score_threshold_denies_all_witness:
  "let s0 = SetConfig (DefaultConfig\<lparr>pc_ScoreThreshold := 1\<rparr>) p2p_New; s = fst (snd (p2p_Start 0 s0))
   in fst (Connect ''a'' (p2p_run [] s)) = Inl ErrPeerDenied"
proof -
  let ?s0 = "SetConfig (DefaultConfig\<lparr>pc_ScoreThreshold := 1\<rparr>) p2p_New"
  have "\<exists>s ev. p2p_Start 0 ?s0 = (Inr (), s, ev)"
    by (simp add: SetConfig_def DefaultConfig_def p2p_New_def p2p_Start_def config_Validate_def NoopVerifier_def Let_def)
  then obtain s ev where start: "p2p_Start 0 ?s0 = (Inr (), s, ev)" by blast
  have "ps_mgr ?s0 = {}" "0 < pc_ScoreThreshold (ps_cfg ?s0)"
    by (simp_all add: SetConfig_def p2p_New_def DefaultConfig_def)
  from score_threshold_denies_all [OF start this] start show ?thesis by simp
qed

end
