(* ===== verification/Lifecycle.thy ===== *)
theory Lifecycle
  imports P2p_Service
begin

text \<open>
  \<^verbatim>\<open>pkg/lifecycle/manager.go\<close>: services are started in the order they were added; when one fails,
  the ones already started are stopped in reverse order and all errors are joined. A service
  acts on a shared world \<open>'w\<close>; \<^verbatim>\<open>errors.Join\<close> appends to a list of errors, of which \<open>[]\<close> is
  nil.
\<close>

section \<open>The manager\<close>

record ('e, 'w) lc_service =
  svc_Start :: "'w \<Rightarrow> 'e option \<times> 'w"
  svc_Stop :: "'w \<Rightarrow> 'e option \<times> 'w"

definition lc_Add :: "('e, 'w) lc_service \<Rightarrow> ('e, 'w) lc_service list \<Rightarrow> ('e, 'w) lc_service list" where
  "lc_Add s svcs = svcs @ [s]"

text \<open>Stop a list of services one after the other, collecting the errors.\<close>

fun stop_seq :: "('e, 'w) lc_service list \<Rightarrow> 'w \<Rightarrow> 'e list \<times> 'w" where
  "stop_seq [] w = ([], w)"
| "stop_seq (s # ss) w =
     (let (e, w1) = svc_Stop s w; (es, w2) = stop_seq ss w1
      in ((case e of None \<Rightarrow> es | Some x \<Rightarrow> x # es), w2))"

fun start_loop :: "('e, 'w) lc_service list \<Rightarrow> ('e, 'w) lc_service list \<Rightarrow> 'w \<Rightarrow> 'e list \<times> 'w" where
  "start_loop started [] w = ([], w)"
| "start_loop started (s # ss) w =
     (case svc_Start s w of
        (None, w1) \<Rightarrow> start_loop (started @ [s]) ss w1
      | (Some e, w1) \<Rightarrow> (let (es, w2) = stop_seq (rev started) w1 in (e # es, w2)))"

definition StartAll :: "('e, 'w) lc_service list \<Rightarrow> 'w \<Rightarrow> 'e list \<times> 'w" where
  "StartAll svcs w = start_loop [] svcs w"

definition StopAll :: "('e, 'w) lc_service list \<Rightarrow> 'w \<Rightarrow> 'e list \<times> 'w" where
  "StopAll svcs w = stop_seq (rev svcs) w"

section \<open>What a start does\<close>

text \<open>Services that start without an error, one after the other.\<close>

inductive started :: "('e, 'w) lc_service list \<Rightarrow> 'w \<Rightarrow> 'w \<Rightarrow> bool" where
  started_Nil: "started [] w w"
| started_Cons: "svc_Start s w = (None, w1) \<Longrightarrow> started ss w1 w2 \<Longrightarrow> started (s # ss) w w2"

inductive_cases started_NilE: "started [] w w'"
inductive_cases started_ConsE: "started (s # ss) w w'"

lemma started_snoc: "started ss w w1 \<Longrightarrow> svc_Start s w1 = (None, w2) \<Longrightarrow> started (ss @ [s]) w w2"
  by (induction rule: started.induct) (auto intro: started.intros)

lemma start_loop_cases:
  assumes "started pre w0 w" and "start_loop pre ss w = (es, w')"
  shows "es = [] \<and> started (pre @ ss) w0 w'
    \<or> (\<exists>up s rest e w1 w2 es'. pre @ ss = up @ s # rest \<and> started up w0 w1 \<and> svc_Start s w1 = (Some e, w2)
         \<and> stop_seq (rev up) w2 = (es', w') \<and> es = e # es')"
  using assms
proof (induction ss arbitrary: pre w)
  case (Cons s ss)
  obtain r w1 where start: "svc_Start s w = (r, w1)" by fastforce
  show ?case
  proof (cases r)
    case None
    then have "started (pre @ [s]) w0 w1" using started_snoc [OF Cons.prems(1)] start by simp
    from Cons.IH [OF this] Cons.prems(2) start None show ?thesis by simp
  next
    case (Some e)
    obtain es' w2 where "stop_seq (rev pre) w1 = (es', w2)" by fastforce
    with Cons.prems start Some show ?thesis
      by (intro disjI2 exI [of _ pre] exI [of _ s] exI [of _ ss] exI [of _ e] exI [of _ w] exI [of _ w1] exI [of _ es']) simp
  qed
qed auto

text \<open>
  The contract of the services towards the manager, for the list in its order: \<open>run i w\<close> says
  that \<open>w\<close> is a world in which the first \<open>i\<close> services run and the others do not. A start moves
  one stage up or, when it fails, stays; a stop moves one stage down, error or not.
\<close>

locale staged_services =
  fixes svcs :: "('e, 'w) lc_service list" and run :: "nat \<Rightarrow> 'w \<Rightarrow> bool"
  assumes start_ok: "i < length svcs \<Longrightarrow> run i w \<Longrightarrow> svc_Start (svcs ! i) w = (None, w') \<Longrightarrow> run (Suc i) w'"
    and start_err: "i < length svcs \<Longrightarrow> run i w \<Longrightarrow> svc_Start (svcs ! i) w = (Some e, w') \<Longrightarrow> run i w'"
    and stop_down: "i < length svcs \<Longrightarrow> run (Suc i) w \<Longrightarrow> svc_Stop (svcs ! i) w = (r, w') \<Longrightarrow> run i w'"
begin

lemma started_run:
  "started ss w w' \<Longrightarrow> svcs = pre @ ss @ post \<Longrightarrow> run (length pre) w \<Longrightarrow> run (length pre + length ss) w'"
proof (induction arbitrary: pre rule: started.induct)
  case (started_Cons s w w1 ss w2)
  have "svcs ! length pre = s" "length pre < length svcs" using started_Cons.prems(1) by (simp_all add: nth_append)
  with start_ok started_Cons.hyps(1) started_Cons.prems(2) have "run (Suc (length pre)) w1" by blast
  with started_Cons.IH [of "pre @ [s]"] started_Cons.prems(1) show ?case by simp
qed simp

lemma stop_seq_run:
  "stop_seq (rev ss) w = (es, w') \<Longrightarrow> svcs = ss @ post \<Longrightarrow> run (length ss) w \<Longrightarrow> run 0 w'"
proof (induction ss arbitrary: w es post rule: rev_induct)
  case (snoc s ss)
  obtain r w1 where one: "svc_Stop s w = (r, w1)" by fastforce
  obtain es1 w2 where rest: "stop_seq (rev ss) w1 = (es1, w2)" by fastforce
  have "w' = w2" using snoc.prems(1) one rest by (simp split: option.splits)
  moreover have "svcs ! length ss = s" "length ss < length svcs" using snoc.prems(2) by (simp_all add: nth_append)
  then have "run (length ss) w1" using stop_down one snoc.prems(3) by simp
  ultimately show ?case using snoc.IH [of w1 es1 "s # post"] rest snoc.prems(2) by simp
qed simp

lemma failed_start_rolls_back:
  assumes "run 0 w" and "StartAll svcs w = (es, w')" and "es \<noteq> []"
  shows "run 0 w'"
proof -
  from start_loop_cases [of "[]" w w svcs es w'] assms(2,3)
  obtain up s rest e w1 w2 es' where parts: "svcs = up @ s # rest" "started up w w1" "svc_Start s w1 = (Some e, w2)"
    "stop_seq (rev up) w2 = (es', w')"
    by (auto simp: StartAll_def started_Nil)
  have "run (length up) w1" using started_run [OF parts(2), of "[]" "s # rest"] parts(1) assms(1) by simp
  moreover have "svcs ! length up = s" "length up < length svcs" using parts(1) by (simp_all add: nth_append)
  ultimately have "run (length up) w2" using start_err parts(3) by blast
  with stop_seq_run [OF parts(4,1)] show ?thesis .
qed

lemma stop_all_returns:
  assumes "run 0 w" and "StartAll svcs w = ([], w1)" and "StopAll svcs w1 = (es, w')"
  shows "run (length svcs) w1" and "run 0 w'"
proof -
  have "started svcs w w1" using start_loop_cases [of "[]" w w svcs "[]" w1] assms(2) by (auto simp: StartAll_def started_Nil)
  from started_run [OF this, of "[]" "[]"] assms(1) show up: "run (length svcs) w1" by simp
  from stop_seq_run [OF assms(3) [unfolded StopAll_def], of "[]"] up show "run 0 w'" by simp
qed

end

section \<open>The services of the node\<close>

text \<open>
  The two services that share state, on the pair of the TSS service's \<^verbatim>\<open>opened\<close> flag and the P2P
  service, and any other service of the node, which touches neither and may fail.
\<close>

type_synonym node = "bool \<times> p2p_service"

datatype node_error = P2pError start_error | OtherError string

definition p2p_lc :: "(node_error, node) lc_service" where
  "p2p_lc = \<lparr>svc_Start = (\<lambda>(o', s). case p2p_Start 0 s of
        (Inl e, s', _) \<Rightarrow> (Some (P2pError e), (o', s')) | (Inr _, s', _) \<Rightarrow> (None, (o', s'))),
     svc_Stop = (\<lambda>(o', s). (None, (o', fst (p2p_Stop 0 s))))\<rparr>"

definition tss_lc :: "(node_error, node) lc_service" where
  "tss_lc = \<lparr>svc_Start = (\<lambda>w. (None, fst (tss_Start 0 w))), svc_Stop = (\<lambda>w. (None, fst (tss_Stop 0 w)))\<rparr>"

definition other_lc :: "string option \<times> string option \<Rightarrow> (node_error, node) lc_service" where
  "other_lc e = \<lparr>svc_Start = (\<lambda>w. (map_option OtherError (fst e), w)), svc_Stop = (\<lambda>w. (map_option OtherError (snd e), w))\<rparr>"

text \<open>The order in which \<^verbatim>\<open>main\<close> adds the services: API, monitoring, P2P, TSS, consensus, transport.\<close>

definition node_services :: "(nat \<Rightarrow> string option \<times> string option) \<Rightarrow> (node_error, node) lc_service list" where
  "node_services e = lc_Add (other_lc (e 5)) (lc_Add (other_lc (e 4)) (lc_Add tss_lc (lc_Add p2p_lc
     (lc_Add (other_lc (e 1)) (lc_Add (other_lc (e 0)) [])))))"

text \<open>With the first \<open>i\<close> services running, the session limiter counts the slot of the TSS service.\<close>

definition node_run :: "nat \<Rightarrow> node \<Rightarrow> bool" where
  "node_run i w \<longleftrightarrow> (4 \<le> i \<longrightarrow> fst w)
     \<and> (\<forall>l. ps_tss (snd w) = Some l \<longrightarrow> 0 < tl_max l \<and> tl_open l = (if 4 \<le> i then 1 else 0))"

lemma node_services_nth:
  "node_services e = [other_lc (e 0), other_lc (e 1), p2p_lc, tss_lc, other_lc (e 4), other_lc (e 5)]"
  by (simp add: node_services_def lc_Add_def)

lemma less_six: "i < (6 :: nat) \<longleftrightarrow> i \<in> {0, 1, 2, 3, 4, 5}"
  by auto

interpretation node_lc: staged_services "node_services e" node_run for e
proof
  fix i w w'
  assume "i < length (node_services e)"
  then have i: "i \<in> {0, 1, 2, 3, 4, 5}" by (simp only: node_services_nth less_six [symmetric]) simp
  note defs = node_services_nth other_lc_def p2p_lc_def tss_lc_def node_run_def p2p_Start_def p2p_Stop_def tss_Start_def tss_Stop_def
    TryOpenTSS_def CloseTSS_def tl_TryOpen_def tl_Close_def Let_def
  show "node_run i w \<Longrightarrow> svc_Start (node_services e ! i) w = (None, w') \<Longrightarrow> node_run (Suc i) w'"
    using i by (elim insertE emptyE) (auto simp: defs split: prod.splits sum.splits if_splits option.splits)
  show "node_run i w \<Longrightarrow> svc_Start (node_services e ! i) w = (Some x, w') \<Longrightarrow> node_run i w'" for x
    using i by (elim insertE emptyE) (auto simp: defs split: prod.splits sum.splits if_splits option.splits)
  show "node_run (Suc i) w \<Longrightarrow> svc_Stop (node_services e ! i) w = (r, w') \<Longrightarrow> node_run i w'" for r
    using i by (elim insertE emptyE) (auto simp: defs split: prod.splits sum.splits if_splits option.splits)
qed

section \<open>Properties\<close>


text \<open>
  The services of the node, in the order \<^verbatim>\<open>main\<close> adds them, give the TSS session slot back: after a
  failed start of any of them, and after a full start and stop, the session limiter is at 0.
\<close>

theorem node_start_releases_slot:
  assumes "ps_tss s0 = None"
    and "StartAll (node_services e) (False, s0) = (es, w1)"
    and "w' = (if es = [] then snd (StopAll (node_services e) w1) else w1)"
    and "ps_tss (snd w') = Some l"
  shows "tl_open l = 0"
proof -
  have idle: "node_run 0 (False, s0)" using assms(1) by (simp add: node_run_def)
  have "node_run 0 w'"
  proof (cases "es = []")
    case True
    with assms(2,3) node_lc.stop_all_returns(2) [OF idle] show ?thesis by (metis prod.collapse)
  next
    case False
    with node_lc.failed_start_rolls_back [OF idle assms(2)] assms(3) show ?thesis by simp
  qed
  with assms(4) show ?thesis by (simp add: node_run_def)
qed

theorem node_start_releases_slot_witness:
  "let s0 = SetConfig (DefaultConfig\<lparr>pc_MaxTSSSessions := 2\<rparr>) p2p_New;
       e = (\<lambda>i :: nat. (if i = 5 then Some ''listen'' else None, None));
       (es, w1) = StartAll (node_services e) (False, s0)
   in es = [OtherError ''listen''] \<and> map_option tl_open (ps_tss (snd w1)) = Some 0"
proof -
  let ?s0 = "SetConfig (DefaultConfig\<lparr>pc_MaxTSSSessions := 2\<rparr>) p2p_New"
  let ?e = "\<lambda>i :: nat. (if i = 5 then Some ''listen'' else None, None)"
  let ?r = "StartAll (node_services ?e) (False, ?s0)"
  have run: "fst ?r = [OtherError ''listen''] \<and> (\<exists>l. ps_tss (snd (snd ?r)) = Some l)"
    by (simp add: StartAll_def node_services_nth other_lc_def p2p_lc_def tss_lc_def SetConfig_def DefaultConfig_def p2p_New_def
        p2p_Start_def p2p_Stop_def config_Validate_def start_gate_def NoopVerifier_def NewResourceManager_def tss_Start_def TryOpenTSS_def
        tl_TryOpen_def tss_Stop_def CloseTSS_def tl_Close_def Let_def)
  then obtain l where l: "ps_tss (snd (snd ?r)) = Some l" by blast
  have "ps_tss ?s0 = None" by (simp add: SetConfig_def p2p_New_def)
  moreover have "?r = (fst ?r, snd ?r)" by simp
  moreover have "snd ?r = (if fst ?r = [] then snd (StopAll (node_services ?e) (snd ?r)) else snd ?r)" using run by simp
  ultimately have "tl_open l = 0" by (rule node_start_releases_slot) (rule l)
  with run l show ?thesis by (simp add: case_prod_beta Let_def)
qed

end
