(* ===== verification/Wire.thy ===== *)
theory Wire
  imports Qbft_Message Payloads
begin

text \<open>
  \<^verbatim>\<open>internal/p2p/wire\<close>: the structures that travel between nodes, with their conversions to and
  from the internal types (\<^verbatim>\<open>tx.go\<close>, \<^verbatim>\<open>message.go\<close>, \<^verbatim>\<open>beast_share.go\<close>, \<^verbatim>\<open>tss_dkg.go\<close>).
  \<^verbatim>\<open>encoding/json\<close> is an argument where a function calls it; a nil and an empty byte slice are
  one value.
\<close>

section \<open>Transactions\<close>

record TxEnvelope =
  te_Type :: string
  te_From :: string
  te_Nonce :: u64
  te_Gas :: u64
  te_Fee :: u64
  te_Bid :: u64
  te_FeeRecipient :: string
  te_Ciphertext :: bytes
  te_EphemeralKey :: bytes
  te_TargetHeight :: u64
  te_BatchIndex :: u64
  te_PuncturedKey :: bytes
  te_Sig :: bytes

definition zero_TxEnvelope :: TxEnvelope where
  "zero_TxEnvelope = \<lparr>te_Type = [], te_From = [], te_Nonce = 0, te_Gas = 0, te_Fee = 0, te_Bid = 0,
     te_FeeRecipient = [], te_Ciphertext = [], te_EphemeralKey = [], te_TargetHeight = 0,
     te_BatchIndex = 0, te_PuncturedKey = [], te_Sig = []\<rparr>"

text \<open>The three payload types are the only ones, so the default branch is not reached.\<close>

fun TxFromInternal :: "payload \<Rightarrow> TxEnvelope option" where
  "TxFromInternal (Plaintext tx) =
     Some (zero_TxEnvelope\<lparr>te_Type := ''plaintext_v1'', te_From := pt_From tx, te_Nonce := pt_Nonce tx,
       te_Gas := pt_Gas tx, te_Fee := pt_Fee tx, te_Sig := pt_Sig tx\<rparr>)"
| "TxFromInternal (Auction tx) =
     Some (zero_TxEnvelope\<lparr>te_Type := ''auction_bid_v1'', te_From := at_From tx, te_Nonce := at_Nonce tx,
       te_Gas := at_Gas tx, te_Bid := at_Bid tx, te_FeeRecipient := at_FeeRecipient tx, te_Sig := at_Sig tx\<rparr>)"
| "TxFromInternal (Private tx) =
     Some (zero_TxEnvelope\<lparr>te_Type := ''private_v1'', te_From := pv_From tx, te_Nonce := pv_Nonce tx,
       te_Ciphertext := pv_Ciphertext tx, te_EphemeralKey := pv_EphemeralKey tx,
       te_TargetHeight := pv_TargetHeight tx, te_BatchIndex := pv_BatchIndex tx,
       te_PuncturedKey := pv_PuncturedKey tx\<rparr>)"

text \<open>\<open>None\<close> is the nil payload of an unknown type.\<close>

definition tx_ToInternal :: "TxEnvelope \<Rightarrow> payload option" where
  "tx_ToInternal w =
     (let t = (if te_Type w = [] then ''plaintext_v1'' else te_Type w) in
      if t = ''plaintext_v1''
      then Some (Plaintext \<lparr>pt_From = te_From w, pt_Nonce = te_Nonce w, pt_Gas = te_Gas w, pt_Fee = te_Fee w,
                    pt_Sig = te_Sig w\<rparr>)
      else if t = ''auction_bid_v1''
      then Some (Auction \<lparr>at_From = te_From w, at_Nonce = te_Nonce w, at_Gas = te_Gas w, at_Bid = te_Bid w,
                    at_FeeRecipient = te_FeeRecipient w, at_Sig = te_Sig w\<rparr>)
      else if t = ''private_v1''
      then Some (Private \<lparr>pv_From = te_From w, pv_Nonce = te_Nonce w, pv_Ciphertext = te_Ciphertext w,
                    pv_EphemeralKey = te_EphemeralKey w, pv_TargetHeight = te_TargetHeight w,
                    pv_BatchIndex = te_BatchIndex w, pv_PuncturedKey = te_PuncturedKey w\<rparr>)
      else None)"

text \<open>\<open>None\<close> is the decoding error; \<open>Some None\<close> the nil payload returned without one.\<close>

definition ParseTx :: "(bytes \<Rightarrow> TxEnvelope option) \<Rightarrow> bytes \<Rightarrow> payload option option" where
  "ParseTx unjson b = (case unjson b of None \<Rightarrow> None | Some env \<Rightarrow> Some (tx_ToInternal env))"

section \<open>Consensus messages\<close>

record QBFT =
  q_ID :: string
  q_From :: string
  q_Height :: u64
  q_Round :: u64
  q_Type :: string
  q_Payload :: bytes
  q_TraceID :: string
  q_Sig :: bytes

definition FromInternal :: "Message \<Rightarrow> QBFT" where
  "FromInternal msg = \<lparr>q_ID = m_ID msg, q_From = m_From msg, q_Height = m_Height msg, q_Round = m_Round msg,
     q_Type = type_string (m_Type msg), q_Payload = m_Payload msg, q_TraceID = m_TraceID msg, q_Sig = m_Sig msg\<rparr>"

definition qbft_ToInternal :: "QBFT \<Rightarrow> Message" where
  "qbft_ToInternal w = \<lparr>m_From = q_From w, m_Height = q_Height w, m_Round = q_Round w,
     m_Type = type_of_string (q_Type w), m_Payload = q_Payload w, m_ID = q_ID w, m_TraceID = q_TraceID w,
     m_Sig = q_Sig w\<rparr>"

section \<open>BEAST and DKG messages\<close>

record BeastShare =
  wb_Height :: u64
  wb_Index :: int
  wb_Share :: bytes

record TSSDKG =
  wd_SessionID :: string
  wd_Epoch :: u64
  wd_Type :: string
  wd_FromIndex :: int
  wd_ToIndex :: int
  wd_Commitments :: "bytes list"
  wd_Nonce :: bytes
  wd_Ciphertext :: bytes
  wd_Share :: bytes
  wd_Sig :: bytes

section \<open>Round trips\<close>

lemma tx_roundtrip: "TxFromInternal p = Some w \<Longrightarrow> tx_ToInternal w = Some p"
  by (cases p) (auto simp: tx_ToInternal_def zero_TxEnvelope_def Let_def)

lemma TxFromInternal_total: "\<exists>w. TxFromInternal p = Some w"
  by (cases p) simp_all

lemma qbft_roundtrip: "canonical_type (m_Type msg) \<Longrightarrow> qbft_ToInternal (FromInternal msg) = msg"
  by (simp add: qbft_ToInternal_def FromInternal_def canonical_type_def)

lemma qbft_wire_roundtrip: "FromInternal (qbft_ToInternal w) = w"
  by (simp add: qbft_ToInternal_def FromInternal_def)

text \<open>
  A transaction or a consensus message that a node sends arrives unchanged: every payload has
  a wire form that converts back to it, the conversion of a message is a bijection with the
  wire structure, and decoding the bytes of a transaction gives it back whenever the JSON
  codec returns the structure it encoded.
\<close>

theorem wire_roundtrip:
  assumes "TxFromInternal p = Some w" and "unjson (json w) = Some w" and "canonical_type (m_Type msg)"
  shows "ParseTx unjson (json w) = Some (Some p)
    \<and> qbft_ToInternal (FromInternal msg) = msg \<and> FromInternal (qbft_ToInternal q) = q"
  using assms tx_roundtrip [OF assms(1)] by (simp add: ParseTx_def qbft_roundtrip qbft_wire_roundtrip)

theorem wire_roundtrip_witness:
  "let p = Plaintext \<lparr>pt_From = ''A'', pt_Nonce = 0, pt_Gas = 1, pt_Fee = 2, pt_Sig = []\<rparr>; w = the (TxFromInternal p)
   in ParseTx (\<lambda>_. Some w) [] = Some (Some p)
     \<and> qbft_ToInternal (FromInternal (mk_msg MsgCommit ''A'' 1 1 ''b'')) = mk_msg MsgCommit ''A'' 1 1 ''b''"
  using wire_roundtrip [where json = "\<lambda>_. []" and msg = "mk_msg MsgCommit ''A'' 1 1 ''b''"
      and p = "Plaintext \<lparr>pt_From = ''A'', pt_Nonce = 0, pt_Gas = 1, pt_Fee = 2, pt_Sig = []\<rparr>"]
  by (simp add: Let_def)

end
