(* ===== verification/Tss_Session.thy ===== *)
theory Tss_Session
  imports Aequa_Prelude
begin

text \<open>
  \<^verbatim>\<open>internal/tss/session/manager.go\<close>: the state machine of one threshold-signature session. Times
  are nanoseconds and arguments of the operations that read the clock. The mutex makes every
  operation one step; a tick of the watchdog is a step that does nothing before \<^verbatim>\<open>Start\<close> and
  after \<^verbatim>\<open>Stop\<close>. Log records are not modelled.
\<close>

section \<open>State\<close>

datatype sphase = PhaseInit | PhaseGather | PhaseCombine | PhaseDone

fun sphase_string :: "sphase \<Rightarrow> string" where
  "sphase_string PhaseInit = ''init''"
| "sphase_string PhaseGather = ''gather''"
| "sphase_string PhaseCombine = ''combine''"
| "sphase_string PhaseDone = ''done''"

record sess_config =
  sc_Threshold :: int
  sc_GatherTimeout :: int
  sc_CombineTimeout :: int

definition second :: int where "second = 1000000000"

definition defaultConfig :: "sess_config \<Rightarrow> sess_config" where
  "defaultConfig c =
     (let c = (if sc_Threshold c < 2 then c\<lparr>sc_Threshold := 2\<rparr> else c);
          c = (if sc_GatherTimeout c \<le> 0 then c\<lparr>sc_GatherTimeout := 2 * second\<rparr> else c);
          c = (if sc_CombineTimeout c \<le> 0 then c\<lparr>sc_CombineTimeout := 2 * second\<rparr> else c)
      in c)"

datatype watch = NotStarted | Watching | Cancelled

record sess_manager =
  sm_cfg :: sess_config
  sm_phase :: sphase
  sm_startedAt :: int
  sm_shares :: "string fset"
  sm_timedOut :: bool
  sm_ctx :: watch

definition sess_NewManager :: "sess_config \<Rightarrow> sess_manager" where
  "sess_NewManager c = \<lparr>sm_cfg = defaultConfig c, sm_phase = PhaseInit, sm_startedAt = 0, sm_shares = {||},
     sm_timedOut = False, sm_ctx = NotStarted\<rparr>"

section \<open>Operations\<close>

definition since_ms :: "int \<Rightarrow> sess_manager \<Rightarrow> nat" where
  "since_ms now m = nat ((now - sm_startedAt m) div 1000000)"

definition round_ms :: "sphase \<Rightarrow> nat \<Rightarrow> metric" where
  "round_ms p ms = ObserveSummary ''tss_round_ms'' [(''round'', sphase_string p)] ms"

definition sessions_total :: "string \<Rightarrow> metric" where
  "sessions_total r = Inc ''tss_sessions_total'' [(''result'', r)]"

definition sess_Start :: "int \<Rightarrow> sess_manager \<Rightarrow> sess_manager" where
  "sess_Start now m = (if sm_ctx m \<noteq> NotStarted then m else m\<lparr>sm_ctx := Watching, sm_startedAt := now\<rparr>)"

definition sess_Stop :: "sess_manager \<Rightarrow> sess_manager" where
  "sess_Stop m = (if sm_ctx m \<noteq> NotStarted then m\<lparr>sm_ctx := Cancelled\<rparr> else m)"

text \<open>One tick of the watchdog goroutine.\<close>

definition watchdog :: "int \<Rightarrow> sess_manager \<Rightarrow> sess_manager \<times> metric list" where
  "watchdog now m =
     (if sm_ctx m = Watching \<and> sm_phase m = PhaseGather \<and> sc_GatherTimeout (sm_cfg m) \<le> now - sm_startedAt m
      then (m\<lparr>sm_timedOut := True, sm_phase := PhaseDone\<rparr>,
            [sessions_total ''timeout'', round_ms PhaseGather (since_ms now m)])
      else (m, []))"

definition OnShare :: "int \<Rightarrow> string \<Rightarrow> string \<Rightarrow> sess_manager \<Rightarrow> bool \<times> sess_manager \<times> metric list" where
  "OnShare now from nonce m =
     (let key = from @ ''|'' @ nonce in
      if sm_phase m = PhaseDone then (False, m, [])
      else
        let (m1, ms) = (if sm_phase m = PhaseInit
              then (m\<lparr>sm_phase := PhaseGather, sm_startedAt := now\<rparr>, [round_ms PhaseInit 0]) else (m, []))
        in if key |\<in>| sm_shares m1 then (False, m1, ms)
           else
             let m2 = m1\<lparr>sm_shares := finsert key (sm_shares m1)\<rparr>
             in if sc_Threshold (sm_cfg m2) \<le> int (fcard (sm_shares m2)) \<and> sm_phase m2 = PhaseGather
                then (True, m2\<lparr>sm_phase := PhaseCombine\<rparr>, ms @ [round_ms PhaseGather (since_ms now m2)])
                else (False, m2, ms))"

definition Finalize :: "int \<Rightarrow> sess_manager \<Rightarrow> sess_manager \<times> metric list" where
  "Finalize now m =
     (if sm_phase m = PhaseCombine
      then (m\<lparr>sm_phase := PhaseDone\<rparr>, [round_ms PhaseCombine (since_ms now m), sessions_total ''ok''])
      else (m, []))"

definition Status :: "sess_manager \<Rightarrow> sphase \<times> bool" where
  "Status m = (sm_phase m, sm_timedOut m)"

section \<open>Runs\<close>

datatype sess_op = OpStart int | OpStop | OpTick int | OpShare int string string | OpFinalize int

fun sess_step :: "sess_op \<Rightarrow> sess_manager \<Rightarrow> bool \<times> sess_manager \<times> metric list" where
  "sess_step (OpStart t) m = (False, sess_Start t m, [])"
| "sess_step OpStop m = (False, sess_Stop m, [])"
| "sess_step (OpTick t) m = (False, watchdog t m)"
| "sess_step (OpShare t f n) m = OnShare t f n m"
| "sess_step (OpFinalize t) m = (False, Finalize t m)"

text \<open>The combine signals (a share call returning true) and the metrics of a run.\<close>

fun sess_run :: "sess_op list \<Rightarrow> sess_manager \<Rightarrow> nat \<times> sess_manager \<times> metric list" where
  "sess_run [] m = (0, m, [])"
| "sess_run (op # ops) m =
     (let (b, m1, ms) = sess_step op m; (k, m2, ms') = sess_run ops m1
      in ((if b then Suc k else k), m2, ms @ ms'))"

lemmas sess_defs = sess_Start_def sess_Stop_def watchdog_def OnShare_def Finalize_def Let_def

fun rank :: "sphase \<Rightarrow> nat" where
  "rank PhaseInit = 0" | "rank PhaseGather = 1" | "rank PhaseCombine = 2" | "rank PhaseDone = 3"

definition sess_inv :: "sess_manager \<Rightarrow> bool" where
  "sess_inv m \<longleftrightarrow> 2 \<le> sc_Threshold (sm_cfg m)
     \<and> (sm_phase m \<in> {PhaseInit, PhaseGather} \<longrightarrow> int (fcard (sm_shares m)) < sc_Threshold (sm_cfg m))
     \<and> (sm_phase m = PhaseCombine \<longrightarrow> sc_Threshold (sm_cfg m) \<le> int (fcard (sm_shares m)))
     \<and> (sm_phase m = PhaseDone \<longrightarrow> sm_timedOut m \<or> sc_Threshold (sm_cfg m) \<le> int (fcard (sm_shares m)))
     \<and> (sm_timedOut m \<longrightarrow> sm_phase m = PhaseDone)"

lemma sess_inv_New: "sess_inv (sess_NewManager c)"
  by (simp add: sess_inv_def sess_NewManager_def defaultConfig_def Let_def)

lemma fcard_finsert_ge: "fcard V \<le> fcard (finsert x V)"
  by (simp add: fcard_finsert_if)

lemma fcard_finsert_new: "x |\<notin>| V \<Longrightarrow> fcard (finsert x V) = Suc (fcard V)"
  by (simp add: fcard_finsert_if)

text \<open>What one step may do: phases only go forward, and the signal is the step into combine.\<close>

lemma sess_step_parts:
  assumes "sess_step op m = (b, m', ms)" and "sess_inv m"
  shows "sess_inv m'" and "rank (sm_phase m) \<le> rank (sm_phase m')" and "sm_cfg m' = sm_cfg m"
    and "b \<longleftrightarrow> rank (sm_phase m) < 2 \<and> sm_phase m' = PhaseCombine"
    and "b \<Longrightarrow> int (fcard (sm_shares m')) = sc_Threshold (sm_cfg m)"
proof -
  have main: "sess_inv m' \<and> rank (sm_phase m) \<le> rank (sm_phase m') \<and> sm_cfg m' = sm_cfg m
    \<and> (b \<longleftrightarrow> rank (sm_phase m) < 2 \<and> sm_phase m' = PhaseCombine)
    \<and> (b \<longrightarrow> int (fcard (sm_shares m')) = sc_Threshold (sm_cfg m))"
  proof (cases op)
    case (OpShare t f n)
    with assms show ?thesis
      by (cases "sm_phase m"; cases "f @ ''|'' @ n |\<in>| sm_shares m")
        (auto simp: OnShare_def Let_def sess_inv_def fcard_finsert_new split: if_splits)
  next
    case (OpStart t)
    with assms have "m' = sess_Start t m" "\<not> b" by simp_all
    with assms(2) show ?thesis by (cases "sm_phase m") (simp_all add: sess_Start_def sess_inv_def)
  next
    case OpStop
    with assms have "m' = sess_Stop m" "\<not> b" by simp_all
    with assms(2) show ?thesis by (cases "sm_phase m") (simp_all add: sess_Stop_def sess_inv_def)
  next
    case (OpTick t)
    with assms have "m' = fst (watchdog t m)" "\<not> b" by auto
    with assms(2) show ?thesis by (cases "sm_phase m") (simp_all add: watchdog_def sess_inv_def)
  next
    case (OpFinalize t)
    with assms have "m' = fst (Finalize t m)" "\<not> b" by auto
    with assms(2) show ?thesis by (cases "sm_phase m") (simp_all add: Finalize_def sess_inv_def)
  qed
  then show "sess_inv m'" and "rank (sm_phase m) \<le> rank (sm_phase m')" and "sm_cfg m' = sm_cfg m"
    and "b \<longleftrightarrow> rank (sm_phase m) < 2 \<and> sm_phase m' = PhaseCombine"
    and "b \<Longrightarrow> int (fcard (sm_shares m')) = sc_Threshold (sm_cfg m)"
    by blast+
qed

lemma sess_step_timeout:
  assumes "sess_step op m = (b, m', ms)" and "sess_inv m"
  shows "2 \<le> rank (sm_phase m) \<Longrightarrow> sm_timedOut m' = sm_timedOut m"
    and "rank (sm_phase m) < 2 \<Longrightarrow> sm_timedOut m' \<longleftrightarrow> sm_phase m' = PhaseDone"
  using assms
  by (cases op; cases "sm_phase m"; auto simp: sess_Start_def sess_Stop_def watchdog_def OnShare_def Finalize_def sess_inv_def Let_def
      split: if_splits)+

definition results :: "metric list \<Rightarrow> nat" where
  "results ms = count_inc ''tss_sessions_total'' [(''result'', ''ok'')] ms
     + count_inc ''tss_sessions_total'' [(''result'', ''timeout'')] ms"

lemma results_append [simp]: "results (xs @ ys) = results xs + results ys" "results [] = 0"
  by (simp_all add: results_def)

lemma sess_step_results:
  assumes "sess_step op m = (b, m', ms)"
  shows "results ms = (if sm_phase m \<noteq> PhaseDone \<and> sm_phase m' = PhaseDone then 1 else 0)"
  using assms
  by (cases op; cases "sm_phase m"; auto simp: sess_Start_def sess_Stop_def watchdog_def OnShare_def Finalize_def Let_def results_def
      round_ms_def sessions_total_def split: if_splits)

lemma rank_done: "rank p = 3 \<longleftrightarrow> p = PhaseDone" "rank p \<le> 3" "2 \<le> rank p \<longleftrightarrow> p \<in> {PhaseCombine, PhaseDone}"
  by (cases p; simp)+

lemma sess_run_parts:
  assumes "sess_run ops m = (k, m', ms)" and "sess_inv m"
  shows "sess_inv m' \<and> sm_cfg m' = sm_cfg m \<and> rank (sm_phase m) \<le> rank (sm_phase m')
    \<and> (2 \<le> rank (sm_phase m) \<longrightarrow> sm_timedOut m' = sm_timedOut m)
    \<and> k = (if rank (sm_phase m) < 2 \<and> 2 \<le> rank (sm_phase m') \<and> \<not> sm_timedOut m' then 1 else 0)
    \<and> results ms = (if sm_phase m \<noteq> PhaseDone \<and> sm_phase m' = PhaseDone then 1 else 0)"
  using assms
proof (induction ops arbitrary: m k m' ms)
  case Nil
  then show ?case by simp
next
  case (Cons op ops)
  obtain b m1 ms1 where one: "sess_step op m = (b, m1, ms1)" by (metis surj_pair)
  obtain k2 m2 ms2 where rest: "sess_run ops m1 = (k2, m2, ms2)" by (metis surj_pair)
  have eqs: "k = (if b then Suc k2 else k2)" "m' = m2" "ms = ms1 @ ms2" using Cons.prems(1) one rest by simp_all
  note step = sess_step_parts [OF one Cons.prems(2)] and tmo = sess_step_timeout [OF one Cons.prems(2)]
    and res = sess_step_results [OF one]
  note IH = Cons.IH [OF rest step(1)]
  show ?case
    using IH step(1-4) tmo res eqs by (cases "sm_phase m"; cases "sm_phase m1"; cases "sm_phase m2"; simp)
qed

section \<open>Properties\<close>

text \<open>
  C33: Whatever shares, ticks, starts, stops and finalisations arrive in whatever order, a session
  signals the combination at most once. It has signalled exactly when it is past gathering and
  did not time out, and then it holds at least the threshold of different share keys; it
  records one result, ok or timeout, when it ends and none before.
\<close>

theorem session_combines_once:
  assumes "sess_run ops (sess_NewManager c) = (k, m, ms)"
  shows "k = (if sm_phase m \<in> {PhaseCombine, PhaseDone} \<and> \<not> sm_timedOut m then 1 else 0)
    \<and> (k = 1 \<longrightarrow> max 2 (sc_Threshold c) \<le> int (fcard (sm_shares m)))
    \<and> results ms = (if sm_phase m = PhaseDone then 1 else 0)"
proof -
  note run = sess_run_parts [OF assms sess_inv_New]
  have new: "sm_phase (sess_NewManager c) = PhaseInit" "sc_Threshold (sm_cfg (sess_NewManager c)) = max 2 (sc_Threshold c)"
    by (simp_all add: sess_NewManager_def defaultConfig_def Let_def)
  have "k = 1 \<longrightarrow> max 2 (sc_Threshold c) \<le> int (fcard (sm_shares m))"
    using run new by (auto simp: sess_inv_def rank_done split: if_splits)
  with run new show ?thesis by (simp add: rank_done)
qed


definition demo_sess :: sess_config where
  "demo_sess = \<lparr>sc_Threshold = 2, sc_GatherTimeout = 100, sc_CombineTimeout = 0\<rparr>"

text \<open>
  The share key joins sender and nonce, so one sender with two nonces reaches the threshold
  alone, and a separator inside a sender's name makes shares of two senders look like one.
\<close>

theorem share_key_confusion:
  "fst (sess_run [OpShare 0 ''a'' ''1'', OpShare 1 ''a'' ''2''] (sess_NewManager demo_sess)) = 1
   \<and> fst (sess_run [OpShare 0 ''a|b'' ''c'', OpShare 1 ''a'' ''b|c''] (sess_NewManager demo_sess)) = 0"
  by (simp add: sess_NewManager_def defaultConfig_def demo_sess_def OnShare_def fcard_finsert_if Let_def)

theorem session_combines_once_witness:
  "\<exists>m ms. sess_run [OpStart 0, OpShare 0 ''a'' ''1'', OpShare 1 ''b'' ''1'', OpFinalize 5] (sess_NewManager demo_sess) = (1, m, ms)
     \<and> results ms = 1"
proof -
  let ?ops = "[OpStart 0, OpShare 0 ''a'' ''1'', OpShare 1 ''b'' ''1'', OpFinalize 5]"
  obtain k m ms where run: "sess_run ?ops (sess_NewManager demo_sess) = (k, m, ms)" by (metis surj_pair)
  then have "k = 1" "sm_phase m = PhaseDone"
    by (auto simp: sess_NewManager_def defaultConfig_def demo_sess_def sess_Start_def OnShare_def Finalize_def fcard_finsert_if Let_def)
  with session_combines_once [OF run] run show ?thesis by simp
qed


end
