(* ===== verification/Shamir.thy ===== *)
theory Shamir
  imports Main
begin

text \<open>
  Polynomial secret sharing over any field, as the threshold schemes of the node use it: a
  polynomial is the list of its coefficients, constant term first, and a value is recovered
  from enough points by Lagrange interpolation.
\<close>

section \<open>Polynomials as coefficient lists\<close>

fun horner :: "'f :: comm_ring_1 list \<Rightarrow> 'f \<Rightarrow> 'f" where
  "horner [] x = 0"
| "horner (c # cs) x = c + x * horner cs x"

lemma horner_zero [simp]: "horner cs 0 = (case cs of [] \<Rightarrow> 0 | c # _ \<Rightarrow> c)"
  by (cases cs) simp_all

text \<open>Division by \<open>x - y\<close>: the quotient has one coefficient less.\<close>

fun quotient :: "'f :: comm_ring_1 \<Rightarrow> 'f list \<Rightarrow> 'f list" where
  "quotient y [] = []"
| "quotient y (c # cs) = (if cs = [] then [] else horner cs y # quotient y cs)"

lemma length_quotient: "length (quotient y cs) = length cs - 1"
  by (induction cs) (auto simp: Suc_diff_le neq_Nil_conv)

lemma horner_quotient: "horner cs x = horner cs y + (x - y) * horner (quotient y cs) x"
proof (induction cs)
  case (Cons c cs)
  show ?case
  proof (cases "cs = []")
    case False
    have "horner (c # cs) x = c + x * (horner cs y + (x - y) * horner (quotient y cs) x)"
      using Cons.IH by simp
    also have "\<dots> = horner (c # cs) y + (x - y) * horner (quotient y (c # cs)) x"
      using False by (simp add: algebra_simps)
    finally show ?thesis .
  qed simp
qed simp

text \<open>Sums of polynomials, coefficient by coefficient.\<close>

fun poly_add :: "'f :: comm_ring_1 list \<Rightarrow> 'f list \<Rightarrow> 'f list" where
  "poly_add (c # cs) (d # ds) = (c + d) # poly_add cs ds"
| "poly_add [] ds = ds"
| "poly_add cs [] = cs"

lemma horner_poly_add [simp]: "horner (poly_add cs ds) x = horner cs x + horner ds x"
  by (induction cs ds rule: poly_add.induct) (simp_all add: algebra_simps)

lemma length_poly_add [simp]: "length (poly_add cs ds) = max (length cs) (length ds)"
  by (induction cs ds rule: poly_add.induct) simp_all

section \<open>Lagrange interpolation\<close>

definition lag :: "'f :: field set \<Rightarrow> 'f \<Rightarrow> 'f \<Rightarrow> 'f" where
  "lag S a z = (\<Prod>b \<in> S - {a}. (z - b) / (a - b))"

lemma lag_insert:
  assumes "finite S" and "y \<notin> S" and "a \<noteq> y"
  shows "lag (insert y S) a z = (z - y) / (a - y) * lag S a z"
proof -
  have "insert y S - {a} = insert y (S - {a})" using assms(3) by blast
  with assms show ?thesis by (simp add: lag_def)
qed

text \<open>The recursion over two points, for one basis function and for their sum.\<close>

lemma lag_neville:
  assumes "finite R" and "y \<notin> R" and "w \<notin> R" and "y \<noteq> w" and "a \<in> R"
  shows "(w - y) * lag (insert y (insert w R)) a z = (z - y) * lag (insert w R) a z - (z - w) * lag (insert y R) a z"
proof -
  have ne: "a \<noteq> y" "a \<noteq> w" using assms by auto
  let ?L = "lag R a z"
  have 1: "lag (insert w R) a z = (z - w) / (a - w) * ?L" "lag (insert y R) a z = (z - y) / (a - y) * ?L"
    using assms ne by (simp_all add: lag_insert)
  have "lag (insert y (insert w R)) a z = (z - y) / (a - y) * lag (insert w R) a z"
    by (rule lag_insert) (use assms ne in auto)
  then have 2: "lag (insert y (insert w R)) a z = (z - y) / (a - y) * ((z - w) / (a - w) * ?L)" by (simp add: 1)
  define u v where "u = 1 / (a - y)" and "v = 1 / (a - w)"
  have uv: "(w - y) * (u * v) = v - u" using ne by (simp add: u_def v_def field_simps)
  have "(w - y) * ((z - y) * u * ((z - w) * v * ?L)) = (z - y) * (z - w) * ?L * ((w - y) * (u * v))"
    by (simp only: ac_simps)
  also have "\<dots> = (z - y) * ((z - w) * v * ?L) - (z - w) * ((z - y) * u * ?L)"
    unfolding uv by (simp add: algebra_simps)
  finally show ?thesis unfolding 1 2 by (simp only: u_def v_def times_divide_eq_right mult_1_right)
qed

lemma lag_two:
  assumes "finite R" and "y \<notin> R" and "w \<notin> R" and "y \<noteq> w"
  shows "(w - y) * lag (insert y (insert w R)) w z = (z - y) * lag (insert w R) w z"
    and "(w - y) * lag (insert y (insert w R)) y z = - (z - w) * lag (insert y R) y z"
proof -
  have "lag (insert y (insert w R)) w z = (z - y) / (w - y) * lag (insert w R) w z"
    by (rule lag_insert) (use assms in auto)
  then show "(w - y) * lag (insert y (insert w R)) w z = (z - y) * lag (insert w R) w z"
    using assms(4) by simp
  have "lag (insert w (insert y R)) y z = (z - w) / (y - w) * lag (insert y R) y z"
    by (rule lag_insert) (use assms in auto)
  then have "(w - y) * lag (insert y (insert w R)) y z = (w - y) * ((z - w) / (y - w)) * lag (insert y R) y z"
    by (simp only: insert_commute [of y w R] mult.assoc)
  moreover have "(w - y) * ((z - w) / (y - w)) = - (z - w)" using assms(4) by (simp add: field_simps)
  ultimately show "(w - y) * lag (insert y (insert w R)) y z = - (z - w) * lag (insert y R) y z" by (simp only:)
qed

lemma lag_unity_step:
  assumes "finite R" and "y \<notin> R" and "w \<notin> R" and "y \<noteq> w"
    and "(\<Sum>a \<in> insert w R. lag (insert w R) a z) = 1" and "(\<Sum>a \<in> insert y R. lag (insert y R) a z) = 1"
  shows "(\<Sum>a \<in> insert y (insert w R). lag (insert y (insert w R)) a z) = 1"
proof -
  let ?S = "insert y (insert w R)"
  have "(w - y) * (\<Sum>a \<in> ?S. lag ?S a z) =
      (w - y) * lag ?S y z + ((w - y) * lag ?S w z + (\<Sum>a \<in> R. (w - y) * lag ?S a z))"
    using assms(1-4) by (simp add: sum_distrib_left distrib_left)
  also have "(\<Sum>a \<in> R. (w - y) * lag ?S a z) = (\<Sum>a \<in> R. (z - y) * lag (insert w R) a z - (z - w) * lag (insert y R) a z)"
    by (rule sum.cong) (use assms lag_neville in auto)
  also have "\<dots> = (z - y) * (\<Sum>a \<in> R. lag (insert w R) a z) - (z - w) * (\<Sum>a \<in> R. lag (insert y R) a z)"
    by (simp add: sum_subtractf sum_distrib_left)
  also have "(w - y) * lag ?S y z + ((w - y) * lag ?S w z + \<dots>)
      = (z - y) * (\<Sum>a \<in> insert w R. lag (insert w R) a z) - (z - w) * (\<Sum>a \<in> insert y R. lag (insert y R) a z)"
    unfolding lag_two [OF assms(1-4), of z] using assms(1-3) by (simp add: algebra_simps)
  also have "\<dots> = w - y" using assms(5,6) by simp
  finally show ?thesis using assms(4) by simp
qed

lemma lag_unity:
  assumes "finite S" and "S \<noteq> {}"
  shows "(\<Sum>a \<in> S. lag S a z) = 1"
  using assms
proof (induction "card S" arbitrary: S rule: less_induct)
  case less
  obtain y T where y: "S = insert y T" "y \<notin> T" using less.prems(2) by (meson Set.set_insert all_not_in_conv)
  show ?case
  proof (cases "T = {}")
    case True
    with y show ?thesis by (simp add: lag_def)
  next
    case False
    then obtain w R where w: "T = insert w R" "w \<notin> R" by (meson Set.set_insert all_not_in_conv)
    have fin: "finite R" using less.prems(1) y w by simp
    have S: "S = insert y (insert w R)" "y \<notin> R" "y \<noteq> w" using y w by auto
    have "card (insert w R) < card S" "card (insert y R) < card S" using S w fin by simp_all
    then have "(\<Sum>a \<in> insert w R. lag (insert w R) a z) = 1" "(\<Sum>a \<in> insert y R. lag (insert y R) a z) = 1"
      using less.hyps fin by auto
    from lag_unity_step [OF fin S(2) w(2) S(3) this] S(1) show ?thesis by simp
  qed
qed

lemma lagrange_interpolation:
  assumes "finite S" and "S \<noteq> {}" and "length cs \<le> card S"
  shows "(\<Sum>a \<in> S. horner cs a * lag S a z) = horner cs z"
  using assms
proof (induction S arbitrary: cs rule: finite_induct)
  case (insert y T)
  let ?S = "insert y T" and ?g = "quotient y cs"
  have unity: "(\<Sum>a \<in> ?S. lag ?S a z) = 1" using insert.hyps(1) by (intro lag_unity) simp_all
  have basis: "horner cs a * lag ?S a z = horner cs y * lag ?S a z + (z - y) * (horner ?g a * lag T a z)" if "a \<in> T" for a
  proof -
    have "a \<noteq> y" using that insert.hyps(2) by blast
    then have "(a - y) * lag ?S a z = (z - y) * lag T a z"
      using insert.hyps by (simp add: lag_insert)
    then have "(a - y) * horner ?g a * lag ?S a z = (z - y) * (horner ?g a * lag T a z)"
      by (simp add: mult.assoc mult.left_commute)
    then show ?thesis using horner_quotient [of cs a y] by (simp add: distrib_right)
  qed
  have rest: "(\<Sum>a \<in> T. horner ?g a * lag T a z) = horner ?g z"
  proof (cases "T = {}")
    case True
    with insert.prems(2) insert.hyps have "length ?g = 0" by (simp add: length_quotient)
    with True show ?thesis by simp
  next
    case False
    with insert show ?thesis by (intro insert.IH) (simp_all add: length_quotient)
  qed
  have "(\<Sum>a \<in> ?S. horner cs a * lag ?S a z) =
      horner cs y * lag ?S y z + (\<Sum>a \<in> T. horner cs y * lag ?S a z + (z - y) * (horner ?g a * lag T a z))"
    using insert.hyps basis by simp
  also have "\<dots> = horner cs y * (\<Sum>a \<in> ?S. lag ?S a z) + (z - y) * (\<Sum>a \<in> T. horner ?g a * lag T a z)"
    using insert.hyps by (simp add: sum.distrib sum_distrib_left distrib_left)
  also have "\<dots> = horner cs z" using unity rest horner_quotient [of cs z y] by simp
  finally show ?case .
qed simp

end
