(* ===== verification/Blst.thy ===== *)
theory Blst
  imports Shamir Byte_Codec
begin

text \<open>
  The operations of \<^verbatim>\<open>github.com/supranational/blst\<close> that the threshold schemes call, as a
  record that every definition using them takes as its argument, and what the schemes rely
  on of them. The record stands for third-party code; \<open>scalar_ok\<close>, \<open>g1_ok\<close>, \<open>g2_ok\<close> and
  \<open>pairing_ok\<close> state its documented behaviour: arithmetic of the scalar field, prime-order
  groups written additively, compression that can be undone, a bilinear pairing. The
  functions of the packages \<^verbatim>\<open>ibe\<close>, \<^verbatim>\<open>bte\<close> and \<^verbatim>\<open>dkg\<close> that only handle scalars and Lagrange
  coefficients are translated here.
\<close>

section \<open>The operations\<close>

text \<open>
  \<^verbatim>\<open>Add\<close>, \<^verbatim>\<open>Sub\<close> and \<^verbatim>\<open>Mul\<close> of scalars return a flag beside the result; \<open>None\<close> is the
  flag being false. \<^verbatim>\<open>FromBEndian\<close> writes its receiver in every case, and its callers drop the
  result. \<open>Miller\<close> is \<^verbatim>\<open>Fp12MillerLoop\<close> followed by \<^verbatim>\<open>FinalExp\<close>, and \<open>MillerN\<close> the same for
  \<^verbatim>\<open>Fp12MillerLoopN\<close>.
\<close>

record ('f, 'p1, 'p2, 'gt) blst =
  sc_Add :: "'f \<Rightarrow> 'f \<Rightarrow> 'f option"
  sc_Sub :: "'f \<Rightarrow> 'f \<Rightarrow> 'f option"
  sc_Mul :: "'f \<Rightarrow> 'f \<Rightarrow> 'f option"
  sc_Inverse :: "'f \<Rightarrow> 'f"
  sc_FromBEndian :: "bytes \<Rightarrow> 'f"
  sc_Deserialize :: "bytes \<Rightarrow> 'f option"
  sc_Serialize :: "'f \<Rightarrow> bytes"
  sk_KeyGen :: "bytes \<Rightarrow> 'f option"
  p1_Generator :: 'p1
  p1_Mult :: "'p1 \<Rightarrow> 'f \<Rightarrow> 'p1"
  p1_Compress :: "'p1 \<Rightarrow> bytes"
  p1_Uncompress :: "bytes \<Rightarrow> 'p1 option"
  p2_Generator :: 'p2
  p2_Mult :: "'p2 \<Rightarrow> 'f \<Rightarrow> 'p2"
  p2_Compress :: "'p2 \<Rightarrow> bytes"
  p2_Uncompress :: "bytes \<Rightarrow> 'p2 option"
  HashToG2 :: "bytes \<Rightarrow> bytes \<Rightarrow> 'p2"
  Miller :: "'p2 \<Rightarrow> 'p1 \<Rightarrow> 'gt"
  MillerN :: "'p2 list \<Rightarrow> 'p1 list \<Rightarrow> 'gt"
  ToBendian :: "'gt \<Rightarrow> bytes"

abbreviation g1 :: "('f, 'p1, 'p2, 'gt) blst \<Rightarrow> 'f \<Rightarrow> 'p1" where
  "g1 B \<equiv> p1_Mult B (p1_Generator B)"

abbreviation g2 :: "('f, 'p1, 'p2, 'gt) blst \<Rightarrow> 'f \<Rightarrow> 'p2" where
  "g2 B \<equiv> p2_Mult B (p2_Generator B)"

section \<open>What is relied on\<close>

text \<open>A checked scalar operation may refuse a zero result, and no other.\<close>

definition checked :: "'f :: zero option \<Rightarrow> 'f \<Rightarrow> bool" where
  "checked r c \<longleftrightarrow> r = Some c \<or> c = 0 \<and> r = None"

text \<open>\<open>N\<close> bounds the integers that are read as distinct scalars: it is below the group order.\<close>

definition scalar_ok :: "nat \<Rightarrow> ('f :: field, 'p1, 'p2, 'gt) blst \<Rightarrow> bool" where
  "scalar_ok N B \<longleftrightarrow>
     (\<forall>a b. checked (sc_Add B a b) (a + b)) \<and>
     (\<forall>a b. checked (sc_Sub B a b) (a - b)) \<and>
     (\<forall>a b. checked (sc_Mul B a b) (a * b)) \<and>
     (\<forall>a. a \<noteq> 0 \<longrightarrow> sc_Inverse B a = inverse a) \<and>
     (\<forall>bs. length bs = 32 \<longrightarrow> be_val bs \<le> N \<longrightarrow> sc_FromBEndian B bs = of_nat (be_val bs)) \<and>
     (\<forall>n. 0 < n \<longrightarrow> n \<le> N \<longrightarrow> of_nat n \<noteq> (0 :: 'f)) \<and>
     (\<forall>a. checked (sc_Deserialize B (sc_Serialize B a)) a) \<and>
     (\<forall>a. length (sc_Serialize B a) = 32) \<and>
     (\<forall>ikm s. sk_KeyGen B ikm = Some s \<longrightarrow> s \<noteq> 0)"

text \<open>The subgroup generated by a point: exponents add, and equal points have equal exponents.\<close>

definition pgroup_ok :: "nat \<Rightarrow> ('f :: field \<Rightarrow> 'p :: ab_group_add) \<Rightarrow> ('p \<Rightarrow> 'f \<Rightarrow> 'p) \<Rightarrow> ('p \<Rightarrow> bytes)
    \<Rightarrow> (bytes \<Rightarrow> 'p option) \<Rightarrow> bool" where
  "pgroup_ok l g mul compress uncompress \<longleftrightarrow>
     (\<forall>a b. mul (g a) b = g (a * b)) \<and> (\<forall>a b. g a + g b = g (a + b)) \<and> inj g \<and>
     (\<forall>a. uncompress (compress (g a)) = Some (g a)) \<and> (\<forall>a. length (compress (g a)) = l)"

definition g1_ok :: "('f :: field, 'p1 :: ab_group_add, 'p2, 'gt) blst \<Rightarrow> bool" where
  "g1_ok B \<longleftrightarrow> pgroup_ok 48 (g1 B) (p1_Mult B) (p1_Compress B) (p1_Uncompress B) \<and> g1 B 1 = p1_Generator B"

definition g2_ok :: "('f :: field, 'p1, 'p2 :: ab_group_add, 'gt) blst \<Rightarrow> bool" where
  "g2_ok B \<longleftrightarrow> pgroup_ok 96 (g2 B) (p2_Mult B) (p2_Compress B) (p2_Uncompress B) \<and>
     g2 B 1 = p2_Generator B \<and> (\<forall>m d. \<exists>h. HashToG2 B m d = g2 B h)"

definition pairing_ok :: "('f :: field, 'p1, 'p2, 'gt) blst \<Rightarrow> bool" where
  "pairing_ok B \<longleftrightarrow>
     (\<forall>a b. Miller B (g2 B a) (g1 B b) = Miller B (g2 B 1) (g1 B (a * b))) \<and>
     (\<forall>as bs. length as = length bs \<longrightarrow>
        MillerN B (map (g2 B) as) (map (g1 B) bs) = Miller B (g2 B 1) (g1 B (sum_list (map2 (*) as bs))))"

lemma checked_nonzero: "checked r c \<Longrightarrow> c \<noteq> 0 \<Longrightarrow> r = Some c"
  by (simp add: checked_def)

lemma checked_Some: "checked r c \<Longrightarrow> r = Some d \<Longrightarrow> d = c"
  by (auto simp: checked_def)

lemma scalar_okD:
  assumes "scalar_ok N B"
  shows "checked (sc_Add B a b) (a + b)" and "checked (sc_Sub B a b) (a - b)"
    and "checked (sc_Mul B a b) (a * b)" and "c \<noteq> 0 \<Longrightarrow> sc_Inverse B c = inverse c"
    and "checked (sc_Deserialize B (sc_Serialize B a)) a"
    and "length (sc_Serialize B a) = 32" and "sk_KeyGen B ikm = Some c \<Longrightarrow> c \<noteq> 0"
  using assms unfolding scalar_ok_def by blast+

lemma pgroupD:
  assumes "pgroup_ok l g mul compress uncompress"
  shows "mul (g a) b = g (a * b)" and "g a + g b = g (a + b)" and "g a = g b \<longleftrightarrow> a = b"
    and "uncompress (compress (g a)) = Some (g a)" and "length (compress (g a)) = l"
  using assms unfolding pgroup_ok_def inj_def by blast+

lemma pgroup_zero:
  assumes "pgroup_ok l g mul compress uncompress"
  shows "g 0 = 0"
proof -
  have "g 0 + g 0 = g 0" using pgroupD(2) [OF assms, of 0 0] by simp
  then show ?thesis by simp
qed

lemma pgroup_minus:
  assumes "pgroup_ok l g mul compress uncompress"
  shows "g a - g b = g (a - b)" and "- g b = g (- b)"
proof -
  have "g (a - b) + g b = g a" using pgroupD(2) [OF assms, of "a - b" b] by simp
  then show "g a - g b = g (a - b)" by (simp add: algebra_simps)
  have "g (- b) + g b = 0" using pgroupD(2) [OF assms, of "- b" b] pgroup_zero [OF assms] by simp
  then show "- g b = g (- b)" by (simp add: eq_neg_iff_add_eq_0 [symmetric])
qed

lemmas g1_group = g1_ok_def [THEN iffD1, THEN conjunct1]
lemmas g1_okD = pgroupD [OF g1_group]
lemmas g2_group = g2_ok_def [THEN iffD1, THEN conjunct1]
lemmas g2_okD = pgroupD [OF g2_group]

lemma g2_hash: "g2_ok B \<Longrightarrow> \<exists>h. HashToG2 B m d = g2 B h"
  by (simp add: g2_ok_def)

lemma pairing_okD: "pairing_ok B \<Longrightarrow> Miller B (g2 B a) (g1 B b) = Miller B (g2 B 1) (g1 B (a * b))"
  by (simp add: pairing_ok_def)

lemma pairing_okN:
  "pairing_ok B \<Longrightarrow> length as = length bs \<Longrightarrow>
     MillerN B (map (g2 B) as) (map (g1 B) bs) = Miller B (g2 B 1) (g1 B (sum_list (map2 (*) as bs)))"
  by (simp add: pairing_ok_def)

lemma compress_inj:
  assumes "pgroup_ok l g mul compress uncompress" and "compress (g a) = compress (g b)"
  shows "a = b"
proof -
  have "Some (g a) = Some (g b)" using pgroupD(4) [OF assms(1)] assms(2) by metis
  then show ?thesis using pgroupD(3) [OF assms(1)] by simp
qed

section \<open>Scalars from integers\<close>

definition scalarFromInt :: "('f, 'p1, 'p2, 'gt) blst \<Rightarrow> int \<Rightarrow> 'f" where
  "scalarFromInt B v = sc_FromBEndian B (replicate 24 0 @ put_be 8 (word_of_int v :: u64))"

lemma be_val_zeros [simp]: "be_val (replicate n 0 @ bs) = be_val bs"
  by (induction n) (simp_all add: be_val_simps)

lemma scalarFromInt_ok:
  assumes "scalar_ok N B" and "0 \<le> v" and "v \<le> int N" and "v < 2 ^ 64"
  shows "scalarFromInt B v = of_int v"
proof -
  have "be_val (put_be 8 (word_of_int v :: u64)) = nat v"
    using assms(2,4) by (simp add: be_val_put_be unat_eq_nat_uint uint_word_of_int nat_less_iff)
  moreover have "\<forall>bs. length bs = 32 \<longrightarrow> be_val bs \<le> N \<longrightarrow> sc_FromBEndian B bs = of_nat (be_val bs)"
    using assms(1) by (simp add: scalar_ok_def)
  ultimately show ?thesis using assms(2,3) by (simp add: scalarFromInt_def nat_le_iff)
qed

definition idx_ok :: "nat \<Rightarrow> int \<Rightarrow> bool" where
  "idx_ok N v \<longleftrightarrow> 0 < v \<and> v \<le> int N \<and> v < 2 ^ 63"

lemma of_int_nonzero:
  assumes "scalar_ok N (B :: ('f :: field, 'p1, 'p2, 'gt) blst)" and "0 < v" and "v \<le> int N"
  shows "of_int v \<noteq> (0 :: 'f)"
proof -
  have "\<forall>n. 0 < n \<longrightarrow> n \<le> N \<longrightarrow> of_nat n \<noteq> (0 :: 'f)" using assms(1) by (simp add: scalar_ok_def)
  moreover have "0 < nat v" "nat v \<le> N" using assms(2,3) by (simp_all add: nat_le_iff)
  ultimately have "of_nat (nat v) \<noteq> (0 :: 'f)" by blast
  then show ?thesis using assms(2) by simp
qed

lemma of_int_distinct:
  assumes "scalar_ok N (B :: ('f :: field, 'p1, 'p2, 'gt) blst)" and "idx_ok N i" and "idx_ok N j"
    and "i \<noteq> j"
  shows "of_int i \<noteq> (of_int j :: 'f)"
proof -
  have "of_int (max i j - min i j) \<noteq> (0 :: 'f)"
    using assms by (intro of_int_nonzero [OF assms(1)]) (auto simp: idx_ok_def)
  then show ?thesis by (auto simp: max_def min_def split: if_splits)
qed

lemma of_int_inj_on:
  assumes "scalar_ok N (B :: ('f :: field, 'p1, 'p2, 'gt) blst)" and "\<forall>i \<in> I. idx_ok N i"
  shows "inj_on (of_int :: int \<Rightarrow> 'f) I"
  using of_int_distinct [OF assms(1)] assms(2) by (meson inj_onI)

section \<open>Lagrange coefficients at zero\<close>

text \<open>
  The loop of \<^verbatim>\<open>lagrangeAtZero\<close>. The copy in the package \<^verbatim>\<open>dkg\<close> also refuses an index that is
  not positive; \<open>bad\<close> is that test, and \<open>e0\<close> and \<open>e\<close> are the errors of the package.
\<close>

fun lagrange_loop :: "(int \<Rightarrow> bool) \<Rightarrow> 'e \<Rightarrow> 'e \<Rightarrow> ('f, 'p1, 'p2, 'gt) blst \<Rightarrow> int \<Rightarrow> int list \<Rightarrow> 'f \<Rightarrow> 'f
    \<Rightarrow> 'e + 'f \<times> 'f" where
  "lagrange_loop bad e0 e B i [] num den = Inr (num, den)"
| "lagrange_loop bad e0 e B i (j # js) num den =
     (if j = i then lagrange_loop bad e0 e B i js num den
      else if bad j then Inl e0
      else let xj = scalarFromInt B j in
        case sc_Sub B (scalarFromInt B 0) xj of None \<Rightarrow> Inl e
        | Some neg \<Rightarrow>
            (case sc_Mul B num neg of None \<Rightarrow> Inl e
             | Some num' \<Rightarrow>
                 (case sc_Sub B (scalarFromInt B i) xj of None \<Rightarrow> Inl e
                  | Some diff \<Rightarrow>
                      (case sc_Mul B den diff of None \<Rightarrow> Inl e
                       | Some den' \<Rightarrow> lagrange_loop bad e0 e B i js num' den'))))"

definition lagrange_from :: "(int \<Rightarrow> bool) \<Rightarrow> 'e \<Rightarrow> 'e \<Rightarrow> ('f, 'p1, 'p2, 'gt) blst \<Rightarrow> int \<Rightarrow> int list \<Rightarrow> 'e + 'f" where
  "lagrange_from bad e0 e B i js =
     (case lagrange_loop bad e0 e B i js (scalarFromInt B 1) (scalarFromInt B 1) of
        Inl x \<Rightarrow> Inl x
      | Inr (num, den) \<Rightarrow>
          (case sc_Mul B num (sc_Inverse B den) of None \<Rightarrow> Inl e | Some out \<Rightarrow> Inr out))"

lemma lagrange_loop_ok:
  assumes "scalar_ok N (B :: ('f :: field, 'p1, 'p2, 'gt) blst)" and "idx_ok N i"
    and "\<forall>j \<in> set js. idx_ok N j \<and> \<not> bad j" and "num \<noteq> 0" and "den \<noteq> 0"
  shows "lagrange_loop bad e0 e B i js num den =
      Inr (num * (\<Prod>j \<leftarrow> filter (\<lambda>j. j \<noteq> i) js. 0 - of_int j),
           den * (\<Prod>j \<leftarrow> filter (\<lambda>j. j \<noteq> i) js. of_int i - of_int j))"
  using assms(3-5)
proof (induction js arbitrary: num den)
  case (Cons j js)
  show ?case
  proof (cases "j = i")
    case True
    with Cons show ?thesis by simp
  next
    case False
    have j: "idx_ok N j" "\<not> bad j" using Cons.prems(1) by simp_all
    have sc: "scalarFromInt B j = of_int j" "scalarFromInt B i = of_int i" "scalarFromInt B 0 = 0"
      using scalarFromInt_ok [OF assms(1)] j assms(2) by (auto simp: idx_ok_def)
    have ne: "(0 :: 'f) - of_int j \<noteq> 0" "of_int i - of_int j \<noteq> (0 :: 'f)"
      using of_int_nonzero [OF assms(1)] of_int_distinct [OF assms(1,2) j(1)] j False
      by (auto simp: idx_ok_def)
    have subs: "sc_Sub B 0 (of_int j) = Some (0 - of_int j)" "sc_Sub B (of_int i) (of_int j) = Some (of_int i - of_int j)"
      by (rule checked_nonzero [OF scalar_okD(2) [OF assms(1)]], fact)+
    have muls: "sc_Mul B num (0 - of_int j) = Some (num * (0 - of_int j))"
        "sc_Mul B den (of_int i - of_int j) = Some (den * (of_int i - of_int j))"
      by (rule checked_nonzero [OF scalar_okD(3) [OF assms(1)]], use ne Cons.prems(2,3) in \<open>simp only: mult_eq_0_iff not_False_eq_True simp_thms\<close>)+
    have "lagrange_loop bad e0 e B i (j # js) num den =
        lagrange_loop bad e0 e B i js (num * (0 - of_int j)) (den * (of_int i - of_int j))"
      unfolding lagrange_loop.simps Let_def sc subs option.case muls using False j(2) by (simp only: if_False)
    also have "\<dots> = Inr (num * (0 - of_int j) * (\<Prod>j \<leftarrow> filter (\<lambda>j. j \<noteq> i) js. 0 - of_int j),
        den * (of_int i - of_int j) * (\<Prod>j \<leftarrow> filter (\<lambda>j. j \<noteq> i) js. of_int i - of_int j))"
    proof (rule Cons.IH)
      show "\<forall>j \<in> set js. idx_ok N j \<and> \<not> bad j" using Cons.prems(1) by (meson list.set_intros(2))
    qed (use Cons.prems(2,3) ne in \<open>simp_all only: mult_eq_0_iff simp_thms\<close>)
    finally show ?thesis using False by (simp add: mult.assoc)
  qed
qed simp

lemma prod_list_distinct: "distinct xs \<Longrightarrow> (\<Prod>x \<leftarrow> xs. f x) = (\<Prod>x \<in> set xs. f x)"
  by (induction xs) simp_all

lemma lagrange_from_ok:
  assumes "scalar_ok N (B :: ('f :: field, 'p1, 'p2, 'gt) blst)" and "1 \<le> N" and "idx_ok N i"
    and "\<forall>j \<in> set js. idx_ok N j \<and> \<not> bad j" and "distinct js"
  shows "lagrange_from bad e0 e B i js = Inr (lag (of_int ` set js) (of_int i) 0)"
proof -
  let ?num = "\<Prod>j \<leftarrow> filter (\<lambda>j. j \<noteq> i) js. 0 - of_int j :: 'f"
  let ?den = "\<Prod>j \<leftarrow> filter (\<lambda>j. j \<noteq> i) js. of_int i - of_int j :: 'f"
  let ?I = "set js - {i}"
  have inj: "inj_on (of_int :: int \<Rightarrow> 'f) (insert i (set js))"
    using assms(3,4) by (intro of_int_inj_on [OF assms(1)]) simp
  have num: "?num = (\<Prod>j \<in> ?I. 0 - of_int j)" and den: "?den = (\<Prod>j \<in> ?I. of_int i - of_int j)"
    using assms(5) by (simp_all add: prod_list_distinct set_diff_eq)
  have "0 - of_int j \<noteq> (0 :: 'f) \<and> of_int i - of_int j \<noteq> (0 :: 'f)" if "j \<in> ?I" for j
  proof -
    have "idx_ok N j" using that assms(4) by blast
    then show ?thesis
      using of_int_nonzero [OF assms(1), of j] of_int_distinct [OF assms(1,3), of j] that
      by (simp add: idx_ok_def)
  qed
  then have ne: "?num \<noteq> 0" "?den \<noteq> 0" unfolding num den by simp_all
  have one: "scalarFromInt B 1 = 1" using scalarFromInt_ok [OF assms(1), of 1] assms(2) by simp
  have img: "of_int ` set js - {of_int i} = (of_int :: int \<Rightarrow> 'f) ` ?I"
    using inj by (auto simp: inj_on_def)
  have inj': "inj_on (of_int :: int \<Rightarrow> 'f) ?I" by (rule inj_on_subset [OF inj]) blast
  have "lag (of_int ` set js) (of_int i) 0 = (\<Prod>j \<in> ?I. (0 - of_int j) / (of_int i - of_int j) :: 'f)"
    unfolding lag_def img by (simp only: prod.reindex [OF inj'] comp_def)
  also have "\<dots> = ?num * inverse ?den" unfolding num den by (simp only: prod_dividef divide_inverse [of "prod _ _"])
  finally have lag: "lag (of_int ` set js) (of_int i) 0 = ?num * inverse ?den" .
  have "sc_Mul B ?num (inverse ?den) = Some (?num * inverse ?den)"
    by (rule checked_nonzero [OF scalar_okD(3) [OF assms(1)]]) (use ne in simp)
  then show ?thesis
    unfolding lagrange_from_def one
    using lagrange_loop_ok [OF assms(1,3,4), of 1 1 e0 e] scalar_okD(4) [OF assms(1) ne(2)] lag by simp
qed

section \<open>Combining shares\<close>

text \<open>
  The loop that checks the selected shares and collects their indices: \<open>bad\<close> is the test on
  the value of a share, \<open>None\<close> the error return.
\<close>

fun share_indices :: "('s \<Rightarrow> int) \<Rightarrow> ('s \<Rightarrow> bool) \<Rightarrow> 's list \<Rightarrow> int list \<Rightarrow> int list option" where
  "share_indices idx bad [] indices = Some indices"
| "share_indices idx bad (s # ss) indices =
     (if idx s \<le> 0 \<or> bad s then None
      else if idx s \<in> set indices then None
      else share_indices idx bad ss (indices @ [idx s]))"

lemma share_indices_ok:
  assumes "\<forall>s \<in> set ss. 0 < idx s \<and> \<not> bad s" and "distinct (js @ map idx ss)"
  shows "share_indices idx bad ss js = Some (js @ map idx ss)"
  using assms by (induction ss arbitrary: js) auto

lemma share_indices_distinct:
  "share_indices idx bad ss js = Some ks \<Longrightarrow> distinct js \<Longrightarrow>
     distinct ks \<and> ks = js @ map idx ss \<and> (\<forall>s \<in> set ss. 0 < idx s \<and> \<not> bad s)"
  by (induction ss arbitrary: js) (fastforce split: if_splits)+

text \<open>The shares taken: the \<open>k\<close> smallest indices.\<close>

definition smallest :: "('s \<Rightarrow> int) \<Rightarrow> nat \<Rightarrow> 's list \<Rightarrow> 's list" where
  "smallest idx k ss = take k (slice_stable (\<lambda>a b. idx a < idx b) ss)"

lemma set_smallest: "set (smallest idx k ss) \<subseteq> set ss"
  by (metis set_slice_stable set_take_subset smallest_def)

lemma length_smallest: "k \<le> length ss \<Longrightarrow> length (smallest idx k ss) = k"
  by (simp add: smallest_def)

lemma distinct_smallest:
  assumes "distinct (map idx ss)"
  shows "distinct (map idx (smallest idx k ss))"
proof -
  have "mset (map idx (slice_stable (\<lambda>a b. idx a < idx b) ss)) = mset (map idx ss)" by simp
  then have "distinct (map idx (slice_stable (\<lambda>a b. idx a < idx b) ss))"
    using assms by (metis mset_eq_imp_distinct_iff)
  then show ?thesis by (simp add: smallest_def take_map [symmetric])
qed

text \<open>The weighted sum of the points of the shares.\<close>

fun combine_loop :: "(int \<Rightarrow> 'e + 'f) \<Rightarrow> 'e \<Rightarrow> ('p :: ab_group_add \<Rightarrow> 'f \<Rightarrow> 'p) \<Rightarrow> (bytes \<Rightarrow> 'p option)
    \<Rightarrow> ('s \<Rightarrow> int) \<Rightarrow> ('s \<Rightarrow> bytes) \<Rightarrow> 's list \<Rightarrow> 'p \<Rightarrow> 'e + 'p" where
  "combine_loop lambda e mul uncompress idx vl [] acc = Inr acc"
| "combine_loop lambda e mul uncompress idx vl (s # ss) acc =
     (case lambda (idx s) of Inl x \<Rightarrow> Inl x
      | Inr coeff \<Rightarrow>
          (case uncompress (vl s) of None \<Rightarrow> Inl e
           | Some p \<Rightarrow> combine_loop lambda e mul uncompress idx vl ss (acc + mul p coeff)))"

lemma combine_loop_ok:
  assumes "pgroup_ok l g mul compress uncompress"
    and "\<forall>s \<in> set ss. lambda (idx s) = Inr (c s) \<and> vl s = compress (g (v s))"
  shows "combine_loop lambda e mul uncompress idx vl ss (g a) = Inr (g (a + (\<Sum>s \<leftarrow> ss. v s * c s)))"
  using assms(2)
  by (induction ss arbitrary: a) (simp_all add: pgroupD [OF assms(1)] add.assoc)

lemma lagrange_shares:
  assumes "scalar_ok N (B :: ('f :: field, 'p1, 'p2, 'gt) blst)" and "\<forall>s \<in> set ss. idx_ok N (idx s)"
    and "distinct (map idx ss)" and "ss \<noteq> []" and "length cs \<le> length ss"
  shows "(\<Sum>s \<leftarrow> ss. horner cs (of_int (idx s)) * lag (of_int ` set (map idx ss)) (of_int (idx s)) 0)
      = horner cs (0 :: 'f)"
proof -
  let ?I = "set (map idx ss)"
  have inj: "inj_on (of_int :: int \<Rightarrow> 'f) ?I"
    using assms(2) by (intro of_int_inj_on [OF assms(1)]) simp
  have "(\<Sum>s \<leftarrow> ss. horner cs (of_int (idx s)) * lag (of_int ` ?I) (of_int (idx s)) 0)
      = (\<Sum>i \<leftarrow> map idx ss. horner cs (of_int i) * lag (of_int ` ?I) (of_int i) (0 :: 'f))"
    by (simp add: comp_def)
  also have "\<dots> = (\<Sum>i \<in> ?I. horner cs (of_int i) * lag (of_int ` ?I) (of_int i) 0)"
    using sum_list_distinct_conv_sum_set [OF assms(3)] by blast
  also have "\<dots> = (\<Sum>a \<in> of_int ` ?I. horner cs a * lag (of_int ` ?I) a 0)"
    by (simp only: sum.reindex [OF inj] comp_def)
  also have "\<dots> = horner cs 0"
  proof (rule lagrange_interpolation)
    show "length cs \<le> card ((of_int :: int \<Rightarrow> 'f) ` ?I)"
      using assms(3,5) by (simp only: card_image [OF inj] distinct_card length_map)
  qed (use assms(4) in simp_all)
  finally show ?thesis .
qed

text \<open>
  The selected shares of a polynomial's values in the exponent combine to its constant term
  in the exponent.
\<close>

lemma combine_smallest:
  fixes B :: "('f :: field, 'p1, 'p2, 'gt) blst" and k :: int and idx :: "'s \<Rightarrow> int"
  defines "sel \<equiv> smallest idx (nat k)"
  assumes "scalar_ok N B" and "pgroup_ok l g mul compress uncompress" and "1 \<le> N"
    and "0 < k" and "k \<le> int (length ss)" and "int (length cs) \<le> k"
    and "distinct (map idx ss)" and "\<forall>s \<in> set ss. idx_ok N (idx s)"
    and "\<forall>s \<in> set ss. vl s = compress (g (r * horner cs (of_int (idx s)))) \<and> \<not> bad s"
  shows "share_indices idx bad (sel ss) [] = Some (map idx (sel ss))"
    and "combine_loop (\<lambda>i. lagrange_from (\<lambda>_. False) e0 e B i (map idx (sel ss))) e' mul uncompress idx vl (sel ss) 0
      = Inr (g (r * horner cs 0))"
proof -
  have sub: "set (sel ss) \<subseteq> set ss" unfolding sel_def by (rule set_smallest)
  have len: "length (sel ss) = nat k" unfolding sel_def using assms(6) by (intro length_smallest) simp
  have dist: "distinct (map idx (sel ss))" unfolding sel_def by (rule distinct_smallest) fact
  have idx: "\<forall>s \<in> set (sel ss). idx_ok N (idx s)" using sub assms(9) by blast
  have "\<forall>s \<in> set (sel ss). 0 < idx s \<and> \<not> bad s" using idx sub assms(10) by (auto simp: idx_ok_def)
  then show "share_indices idx bad (sel ss) [] = Some (map idx (sel ss))"
    using share_indices_ok [of "sel ss" idx bad "[]"] dist by simp
  let ?l = "\<lambda>s. lag (of_int ` set (map idx (sel ss))) (of_int (idx s)) 0"
  have lam: "lagrange_from (\<lambda>_. False) e0 e B (idx s) (map idx (sel ss)) = Inr (?l s)" if "s \<in> set (sel ss)" for s
    by (rule lagrange_from_ok [OF assms(2,4)]) (use idx that dist in simp_all)
  have val: "vl s = compress (g (r * horner cs (of_int (idx s))))" if "s \<in> set (sel ss)" for s
    using sub assms(10) that by blast
  have "combine_loop (\<lambda>i. lagrange_from (\<lambda>_. False) e0 e B i (map idx (sel ss))) e' mul uncompress idx vl (sel ss) (g 0)
      = Inr (g (0 + (\<Sum>s \<leftarrow> sel ss. r * horner cs (of_int (idx s)) * ?l s)))"
    by (rule combine_loop_ok [OF assms(3)]) (use lam val in blast)
  moreover have "(\<Sum>s \<leftarrow> sel ss. r * horner cs (of_int (idx s)) * ?l s) = r * horner cs 0"
    using lagrange_shares [OF assms(2) idx dist, of cs] len assms(5,7)
    by (simp add: mult.assoc sum_list_const_mult nat_le_iff flip: length_0_conv)
  ultimately show "combine_loop (\<lambda>i. lagrange_from (\<lambda>_. False) e0 e B i (map idx (sel ss))) e' mul uncompress idx vl (sel ss) 0
      = Inr (g (r * horner cs 0))"
    by (simp add: pgroup_zero [OF assms(3)])
qed

section \<open>A small instance\<close>

text \<open>
  The laws hold together: the field of five elements, which is also the group and the
  target of the pairing. The witnesses of the schemes run on it.
\<close>

datatype f5 = F0 | F1 | F2 | F3 | F4

fun f5_nat :: "f5 \<Rightarrow> nat" where
  "f5_nat F0 = 0" | "f5_nat F1 = 1" | "f5_nat F2 = 2" | "f5_nat F3 = 3" | "f5_nat F4 = 4"

definition nat_f5 :: "nat \<Rightarrow> f5" where
  "nat_f5 n = (let m = n mod 5 in if m = 0 then F0 else if m = 1 then F1 else if m = 2 then F2 else if m = 3 then F3 else F4)"

instantiation f5 :: field
begin

definition zero_f5 :: f5 where "zero_f5 = F0"
definition one_f5 :: f5 where "one_f5 = F1"
definition plus_f5 :: "f5 \<Rightarrow> f5 \<Rightarrow> f5" where "plus_f5 a b = nat_f5 (f5_nat a + f5_nat b)"
definition uminus_f5 :: "f5 \<Rightarrow> f5" where "uminus_f5 a = nat_f5 (5 - f5_nat a)"
definition minus_f5 :: "f5 \<Rightarrow> f5 \<Rightarrow> f5" where "minus_f5 a b = nat_f5 (f5_nat a + (5 - f5_nat b))"
definition times_f5 :: "f5 \<Rightarrow> f5 \<Rightarrow> f5" where "times_f5 a b = nat_f5 (f5_nat a * f5_nat b)"
definition inverse_f5 :: "f5 \<Rightarrow> f5" where "inverse_f5 a = nat_f5 (f5_nat a ^ 3)"
definition divide_f5 :: "f5 \<Rightarrow> f5 \<Rightarrow> f5" where "divide_f5 a b = nat_f5 (f5_nat a * f5_nat b ^ 3)"

lemmas f5_ops = zero_f5_def one_f5_def plus_f5_def uminus_f5_def minus_f5_def times_f5_def
  inverse_f5_def divide_f5_def nat_f5_def Let_def

instance
proof
  fix a b c :: f5
  show "a + b + c = a + (b + c)" by (cases a; cases b; cases c) (simp_all add: f5_ops)
  show "a + b = b + a" by (cases a; cases b) (simp_all add: f5_ops)
  show "0 + a = a" by (cases a) (simp_all add: f5_ops)
  show "- a + a = 0" by (cases a) (simp_all add: f5_ops)
  show "a - b = a + - b" by (cases a; cases b) (simp_all add: f5_ops)
  show "a * b * c = a * (b * c)" by (cases a; cases b; cases c) (simp_all add: f5_ops)
  show "a * b = b * a" by (cases a; cases b) (simp_all add: f5_ops)
  show "1 * a = a" by (cases a) (simp_all add: f5_ops)
  show "(a + b) * c = a * c + b * c" by (cases a; cases b; cases c) (simp_all add: f5_ops)
  show "(0 :: f5) \<noteq> 1" by (simp add: f5_ops)
  show "a \<noteq> 0 \<Longrightarrow> inverse a * a = 1" by (cases a) (simp_all add: f5_ops)
  show "a div b = a * inverse b" by (cases a; cases b) (simp_all add: f5_ops)
  show "inverse (0 :: f5) = 0" by (simp add: f5_ops)
qed

end

definition f5_bytes :: "nat \<Rightarrow> f5 \<Rightarrow> bytes" where
  "f5_bytes l a = replicate (l - 1) 0 @ [of_nat (f5_nat a)]"

definition bytes_f5 :: "bytes \<Rightarrow> f5" where
  "bytes_f5 bs = nat_f5 (be_val bs)"

definition small_blst :: "(f5, f5, f5, f5) blst" where
  "small_blst = \<lparr>
     sc_Add = (\<lambda>a b. if a + b = 0 then None else Some (a + b)),
     sc_Sub = (\<lambda>a b. if a - b = 0 then None else Some (a - b)),
     sc_Mul = (\<lambda>a b. if a * b = 0 then None else Some (a * b)),
     sc_Inverse = inverse, sc_FromBEndian = bytes_f5,
     sc_Deserialize = (\<lambda>bs. if length bs = 32 \<and> bytes_f5 bs \<noteq> 0 then Some (bytes_f5 bs) else None),
     sc_Serialize = f5_bytes 32,
     sk_KeyGen = (\<lambda>ikm. if bytes_f5 ikm = 0 then None else Some (bytes_f5 ikm)),
     p1_Generator = F1, p1_Mult = (*), p1_Compress = f5_bytes 48, p1_Uncompress = (\<lambda>bs. Some (bytes_f5 bs)),
     p2_Generator = F1, p2_Mult = (*), p2_Compress = f5_bytes 96, p2_Uncompress = (\<lambda>bs. Some (bytes_f5 bs)),
     HashToG2 = (\<lambda>m d. bytes_f5 (m @ [1])),
     Miller = (*), MillerN = (\<lambda>qs ps. sum_list (map2 (*) qs ps)),
     ToBendian = f5_bytes 576\<rparr>"

lemma bytes_f5_bytes [simp]: "bytes_f5 (f5_bytes l a) = a"
  by (cases a) (simp_all add: bytes_f5_def f5_bytes_def be_val_simps nat_f5_def)

lemma length_f5_bytes [simp]: "0 < l \<Longrightarrow> length (f5_bytes l a) = l"
  by (simp add: f5_bytes_def)

lemma f5_one [simp]: "F1 * a = a" "a * F1 = (a :: f5)"
  by (simp_all flip: one_f5_def)

lemma f5_numerals: "(2 :: f5) = F2" "(3 :: f5) = F3" "(4 :: f5) = F4"
  by (simp_all only: numeral.simps f5_ops f5_nat.simps) simp_all

lemma of_nat_f5:
  assumes "n \<le> 4"
  shows "of_nat n = nat_f5 n"
proof -
  have "n = 0 \<or> n = 1 \<or> n = 2 \<or> n = 3 \<or> n = 4" using assms by linarith
  then show ?thesis by (elim disjE) (simp_all add: f5_numerals nat_f5_def one_f5_def zero_f5_def)
qed

lemma F1_id: "(*) F1 = (id :: f5 \<Rightarrow> f5)"
  by (rule ext) simp

lemma small_scalar_ok: "scalar_ok 4 small_blst"
proof -
  have "of_nat n \<noteq> (0 :: f5)" if "0 < n" "n \<le> 4" for n
    using that unfolding of_nat_f5 [OF that(2)] nat_f5_def Let_def zero_f5_def by simp
  moreover have "of_nat (be_val bs) = bytes_f5 bs" if "be_val bs \<le> 4" for bs
    unfolding of_nat_f5 [OF that] bytes_f5_def ..
  ultimately show ?thesis by (simp add: scalar_ok_def small_blst_def checked_def)
qed

lemma small_g1_ok: "g1_ok small_blst"
  by (simp add: g1_ok_def pgroup_ok_def small_blst_def inj_def distrib_left)

lemma small_g2_ok: "g2_ok small_blst"
  by (simp add: g2_ok_def pgroup_ok_def small_blst_def inj_def distrib_left)

lemma small_pairing_ok: "pairing_ok small_blst"
  by (simp add: pairing_ok_def small_blst_def F1_id)

lemma of_int_f5: "0 \<le> v \<Longrightarrow> v \<le> 4 \<Longrightarrow> of_int v = nat_f5 (nat v)"
  using of_nat_f5 [of "nat v"] by (simp add: nat_le_iff)

lemma small_ops:
  "sc_Add small_blst a b = (if a + b = 0 then None else Some (a + b))"
  "sc_Sub small_blst a b = (if a - b = 0 then None else Some (a - b))"
  "sc_Mul small_blst a b = (if a * b = 0 then None else Some (a * b))"
  "sc_Inverse small_blst a = inverse a"
  by (simp_all add: small_blst_def)

lemmas small_ok = small_scalar_ok small_g1_ok small_g2_ok small_pairing_ok

end
