(* ===== verification/Pprf.thy ===== *)
theory Pprf
  imports Blst
begin

text \<open>
  The puncturable pseudo-random function of \<^verbatim>\<open>internal/beast/pprf/pprf_blst.go\<close>: the powers
  of a secret exponent in both groups with one power left out, evaluation from the scalar
  key, from the key in the exponent, and from a punctured key. A Go \<^verbatim>\<open>int\<close> is an \<open>int\<close>; the
  number of powers is bounded by what can be allocated, so sums of indices do not wrap.
\<close>

section \<open>Operations\<close>

datatype pprf_error = PprfInvalidParams | PprfInvalidKey | PprfPunctured | PprfRandom

record LinearParams =
  pp_N :: int
  G1Pows :: "bytes list"
  G2Pows :: "bytes list"

definition pow_indices :: "int \<Rightarrow> nat list" where
  "pow_indices n = [1 ..< nat (2 * n + 2)]"

definition pp_validate :: "LinearParams \<Rightarrow> pprf_error option" where
  "pp_validate p =
     (if pp_N p \<le> 0 then Some PprfInvalidParams
      else if int (length (G1Pows p)) \<noteq> 2 * pp_N p + 2 \<or> int (length (G2Pows p)) \<noteq> 2 * pp_N p + 2
      then Some PprfInvalidParams
      else if \<exists>i \<in> set (pow_indices (pp_N p)). int i \<noteq> pp_N p + 1 \<and>
                (length (G1Pows p ! i) \<noteq> 48 \<or> length (G2Pows p ! i) \<noteq> 96)
      then Some PprfInvalidParams else None)"

fun build_loop :: "('f, 'p1, 'p2, 'gt) blst \<Rightarrow> 'f \<Rightarrow> int \<Rightarrow> nat list \<Rightarrow> 'f \<Rightarrow> bytes list \<Rightarrow> bytes list
    \<Rightarrow> pprf_error + bytes list \<times> bytes list" where
  "build_loop B x n [] pow g1Pows g2Pows = Inr (g1Pows, g2Pows)"
| "build_loop B x n (i # is) pow g1Pows g2Pows =
     (case if i > 1 then sc_Mul B pow x else Some pow of
        None \<Rightarrow> Inl PprfInvalidParams
      | Some pow \<Rightarrow>
          if int i = n + 1 then build_loop B x n is pow g1Pows g2Pows
          else build_loop B x n is pow
                 (g1Pows[i := p1_Compress B (p1_Mult B (p1_Generator B) pow)])
                 (g2Pows[i := p2_Compress B (p2_Mult B (p2_Generator B) pow)]))"

definition buildLinearParams :: "('f, 'p1, 'p2, 'gt) blst \<Rightarrow> int \<Rightarrow> 'f \<Rightarrow> pprf_error + LinearParams" where
  "buildLinearParams B n x =
     (if n \<le> 0 then Inl PprfInvalidParams
      else let blank = replicate (nat (2 * n + 2)) [] in
        case build_loop B x n (pow_indices n) x blank blank of
          Inl e \<Rightarrow> Inl e
        | Inr (g1Pows, g2Pows) \<Rightarrow>
            let pp = \<lparr>pp_N = n, G1Pows = g1Pows, G2Pows = g2Pows\<rparr> in
            case pp_validate pp of Some e \<Rightarrow> Inl e | None \<Rightarrow> Inr pp)"

definition pprf_randScalar :: "('f, 'p1, 'p2, 'gt) blst \<Rightarrow> bytes option \<Rightarrow> pprf_error + 'f" where
  "pprf_randScalar B ikm =
     (case ikm of None \<Rightarrow> Inl PprfRandom
      | Some b \<Rightarrow> (case sk_KeyGen B b of None \<Rightarrow> Inl PprfInvalidKey | Some s \<Rightarrow> Inr s))"

definition SetupLinear :: "('f, 'p1, 'p2, 'gt) blst \<Rightarrow> bytes option \<Rightarrow> int \<Rightarrow> pprf_error + LinearParams" where
  "SetupLinear B ikm n =
     (if n \<le> 0 then Inl PprfInvalidParams
      else case pprf_randScalar B ikm of Inl e \<Rightarrow> Inl e | Inr x \<Rightarrow> buildLinearParams B n x)"

definition SetupLinearDeterministic :: "('f, 'p1, 'p2, 'gt) blst \<Rightarrow> (bytes \<Rightarrow> bytes) \<Rightarrow> int \<Rightarrow> bytes \<Rightarrow> pprf_error + LinearParams" where
  "SetupLinearDeterministic B sha n seed =
     (if n \<le> 0 then Inl PprfInvalidParams
      else if seed = [] then Inl PprfInvalidParams
      else case sk_KeyGen B (sha seed) of None \<Rightarrow> Inl PprfInvalidKey | Some s \<Rightarrow> buildLinearParams B n s)"

definition pprf_KeyGen :: "('f, 'p1, 'p2, 'gt) blst \<Rightarrow> bytes option \<Rightarrow> pprf_error + bytes" where
  "pprf_KeyGen B ikm = (case pprf_randScalar B ikm of Inl e \<Rightarrow> Inl e | Inr k \<Rightarrow> Inr (sc_Serialize B k))"

text \<open>The first key replaces the zero accumulator, every further one is added to it.\<close>

fun add_keys_loop :: "('f, 'p1, 'p2, 'gt) blst \<Rightarrow> bytes list \<Rightarrow> 'f option \<Rightarrow> pprf_error + 'f option" where
  "add_keys_loop B [] acc = Inr acc"
| "add_keys_loop B (b # bs) acc =
     (if length b \<noteq> 32 then Inl PprfInvalidKey
      else case sc_Deserialize B b of None \<Rightarrow> Inl PprfInvalidKey
      | Some s \<Rightarrow>
          (case acc of None \<Rightarrow> add_keys_loop B bs (Some s)
           | Some a \<Rightarrow>
               (case sc_Add B a s of None \<Rightarrow> Inl PprfInvalidKey
                | Some a' \<Rightarrow> add_keys_loop B bs (Some a'))))"

definition AddKeys :: "('f, 'p1, 'p2, 'gt) blst \<Rightarrow> bytes list \<Rightarrow> pprf_error + bytes" where
  "AddKeys B keys =
     (case add_keys_loop B keys None of
        Inl e \<Rightarrow> Inl e
      | Inr None \<Rightarrow> Inl PprfInvalidKey
      | Inr (Some acc) \<Rightarrow> Inr (sc_Serialize B acc))"

definition Eval :: "('f, 'p1, 'p2, 'gt) blst \<Rightarrow> LinearParams \<Rightarrow> bytes \<Rightarrow> int \<Rightarrow> pprf_error + bytes" where
  "Eval B pp key i =
     (case pp_validate pp of Some e \<Rightarrow> Inl e
      | None \<Rightarrow>
      if i \<le> 0 \<or> i > pp_N pp then Inl PprfInvalidParams
      else if length key \<noteq> 32 then Inl PprfInvalidKey
      else case sc_Deserialize B key of None \<Rightarrow> Inl PprfInvalidKey
      | Some k \<Rightarrow>
          (case p1_Uncompress B (G1Pows pp ! nat (pp_N pp + 1 + i)) of None \<Rightarrow> Inl PprfInvalidParams
           | Some base \<Rightarrow> Inr (ToBendian B (Miller B (p2_Generator B) (p1_Mult B base k)))))"

definition EvalFromGK :: "('f, 'p1, 'p2, 'gt) blst \<Rightarrow> LinearParams \<Rightarrow> bytes \<Rightarrow> int \<Rightarrow> pprf_error + bytes" where
  "EvalFromGK B pp gk i =
     (case pp_validate pp of Some e \<Rightarrow> Inl e
      | None \<Rightarrow>
      if i \<le> 0 \<or> i > pp_N pp then Inl PprfInvalidParams
      else if length gk \<noteq> 48 then Inl PprfInvalidKey
      else case p1_Uncompress B gk of None \<Rightarrow> Inl PprfInvalidKey
      | Some g \<Rightarrow>
          (case p2_Uncompress B (G2Pows pp ! nat (pp_N pp + 1 + i)) of None \<Rightarrow> Inl PprfInvalidParams
           | Some q \<Rightarrow> Inr (ToBendian B (Miller B q g))))"

definition Puncture :: "('f, 'p1, 'p2, 'gt) blst \<Rightarrow> LinearParams \<Rightarrow> bytes \<Rightarrow> int \<Rightarrow> pprf_error + bytes" where
  "Puncture B pp key iStar =
     (case pp_validate pp of Some e \<Rightarrow> Inl e
      | None \<Rightarrow>
      if iStar \<le> 0 \<or> iStar > pp_N pp then Inl PprfInvalidParams
      else if length key \<noteq> 32 then Inl PprfInvalidKey
      else case sc_Deserialize B key of None \<Rightarrow> Inl PprfInvalidKey
      | Some k \<Rightarrow>
          (case p1_Uncompress B (G1Pows pp ! nat iStar) of None \<Rightarrow> Inl PprfInvalidParams
           | Some base \<Rightarrow> Inr (p1_Compress B (p1_Mult B base k))))"

definition PuncturedEval :: "('f, 'p1, 'p2, 'gt) blst \<Rightarrow> LinearParams \<Rightarrow> bytes \<Rightarrow> int \<Rightarrow> int \<Rightarrow> pprf_error + bytes" where
  "PuncturedEval B pp puncturedKey iStar i =
     (case pp_validate pp of Some e \<Rightarrow> Inl e
      | None \<Rightarrow>
      if iStar \<le> 0 \<or> iStar > pp_N pp \<or> i \<le> 0 \<or> i > pp_N pp then Inl PprfInvalidParams
      else if i = iStar then Inl PprfPunctured
      else if length puncturedKey \<noteq> 48 then Inl PprfInvalidKey
      else case p1_Uncompress B puncturedKey of None \<Rightarrow> Inl PprfInvalidKey
      | Some k \<Rightarrow>
          let ex = pp_N pp + 1 + i - iStar in
          if ex \<le> 0 \<or> ex \<ge> int (length (G2Pows pp)) then Inl PprfInvalidParams
          else (case p2_Uncompress B (G2Pows pp ! nat ex) of None \<Rightarrow> Inl PprfInvalidParams
                | Some q \<Rightarrow> Inr (ToBendian B (Miller B q k))))"

section \<open>The setup\<close>

text \<open>What the powers are meant to be: the reference description of the parameters for \<open>x\<close>.\<close>

definition powers_of :: "('f :: field, 'p1, 'p2, 'gt) blst \<Rightarrow> 'f \<Rightarrow> LinearParams \<Rightarrow> bool" where
  "powers_of B x pp \<longleftrightarrow> 0 < pp_N pp \<and> int (length (G1Pows pp)) = 2 * pp_N pp + 2 \<and> int (length (G2Pows pp)) = 2 * pp_N pp + 2 \<and>
     (\<forall>e. 0 < e \<longrightarrow> e < length (G1Pows pp) \<longrightarrow> int e \<noteq> pp_N pp + 1 \<longrightarrow>
        G1Pows pp ! e = p1_Compress B (g1 B (x ^ e)) \<and> G2Pows pp ! e = p2_Compress B (g2 B (x ^ e)))"

definition pow_table :: "(nat \<Rightarrow> bytes) \<Rightarrow> int \<Rightarrow> nat \<Rightarrow> bytes list \<Rightarrow> bool" where
  "pow_table c n m xs \<longleftrightarrow> (\<forall>e. 0 < e \<longrightarrow> e < m \<longrightarrow> int e \<noteq> n + 1 \<longrightarrow> xs ! e = c e)"

lemma pow_table_skip: "pow_table c n m xs \<Longrightarrow> int m = n + 1 \<Longrightarrow> pow_table c n (Suc m) xs"
  by (auto simp: pow_table_def less_Suc_eq)

lemma pow_table_update: "pow_table c n m xs \<Longrightarrow> m < length xs \<Longrightarrow> pow_table c n (Suc m) (xs[m := c m])"
  by (auto simp: pow_table_def less_Suc_eq nth_list_update)

lemma next_power:
  assumes "scalar_ok N B" and "x \<noteq> 0" and "0 < i"
  shows "(if i > 1 then sc_Mul B (x ^ (if i > 1 then i - 1 else 1)) x else Some (x ^ (if i > 1 then i - 1 else 1))) = Some (x ^ i)"
proof (cases "i > 1")
  case True
  have "sc_Mul B (x ^ (i - 1)) x = Some (x ^ (i - 1) * x)"
    by (rule checked_nonzero [OF scalar_okD(3) [OF assms(1)]]) (use assms(2) in simp)
  with True show ?thesis by (simp add: power_Suc2 [symmetric])
next
  case False
  with assms(3) have "i = 1" by linarith
  then show ?thesis by simp
qed

lemma build_loop_ok:
  assumes "scalar_ok N B" and "x \<noteq> 0" and "0 < i" and "i \<le> m" and "m = length a1" and "m = length a2"
    and "pow_table (\<lambda>e. p1_Compress B (g1 B (x ^ e))) n i a1" and "pow_table (\<lambda>e. p2_Compress B (g2 B (x ^ e))) n i a2"
  shows "\<exists>b1 b2. build_loop B x n [i ..< m] (x ^ (if i > 1 then i - 1 else 1)) a1 a2 = Inr (b1, b2)
     \<and> length b1 = m \<and> length b2 = m \<and> pow_table (\<lambda>e. p1_Compress B (g1 B (x ^ e))) n m b1
     \<and> pow_table (\<lambda>e. p2_Compress B (g2 B (x ^ e))) n m b2"
  using assms(3-8)
proof (induction "m - i" arbitrary: i a1 a2)
  case 0
  then show ?case by auto
next
  case (Suc d)
  then have lt: "i < m" by linarith
  note pow = next_power [OF assms(1,2) Suc.prems(1)]
  have d: "d = m - Suc i" and lt': "Suc i \<le> m" using Suc.hyps(2) lt by simp_all
  have step: "(if Suc i > 1 then Suc i - 1 else 1) = i" using Suc.prems(1) by simp
  show ?case
  proof (cases "int i = n + 1")
    case True
    have "build_loop B x n [i ..< m] (x ^ (if i > 1 then i - 1 else 1)) a1 a2
        = build_loop B x n [Suc i ..< m] (x ^ i) a1 a2"
      by (simp only: upt_conv_Cons [OF lt] build_loop.simps pow option.case if_P [OF True])
    then show ?thesis
      using Suc.hyps(1) [OF d _ lt' Suc.prems(3,4) pow_table_skip [OF Suc.prems(5) True] pow_table_skip [OF Suc.prems(6) True]]
      unfolding step by simp
  next
    case False
    let ?a1 = "a1[i := p1_Compress B (g1 B (x ^ i))]" and ?a2 = "a2[i := p2_Compress B (g2 B (x ^ i))]"
    have "build_loop B x n [i ..< m] (x ^ (if i > 1 then i - 1 else 1)) a1 a2
        = build_loop B x n [Suc i ..< m] (x ^ i) ?a1 ?a2"
      using False by (simp only: upt_conv_Cons [OF lt] build_loop.simps pow option.case if_False)
    moreover have "i < length a1" "i < length a2" "m = length ?a1" "m = length ?a2"
      using lt Suc.prems(3,4) by simp_all
    ultimately show ?thesis
      using Suc.hyps(1) [OF d _ lt' _ _ pow_table_update [OF Suc.prems(5)] pow_table_update [OF Suc.prems(6)]]
      unfolding step by simp
  qed
qed

lemma powers_valid:
  assumes "g1_ok B" and "g2_ok B" and "powers_of B x pp"
  shows "pp_validate pp = None"
  using assms(3) g1_okD(5) [OF assms(1)] g2_okD(5) [OF assms(2)]
  by (auto simp: pp_validate_def powers_of_def pow_indices_def)

lemma buildLinearParams_ok:
  assumes "scalar_ok N B" and "g1_ok B" and "g2_ok B" and "x \<noteq> 0" and "0 < n"
  shows "\<exists>pp. buildLinearParams B n x = Inr pp \<and> powers_of B x pp \<and> pp_N pp = n"
proof -
  let ?m = "nat (2 * n + 2)" and ?bl = "replicate (nat (2 * n + 2)) []"
  have tbl: "pow_table c n 1 ?bl" for c by (simp add: pow_table_def)
  have "1 \<le> ?m" using assms(5) by linarith
  then obtain b1 b2 where b: "build_loop B x n [1 ..< ?m] x ?bl ?bl = Inr (b1, b2)" "length b1 = ?m" "length b2 = ?m"
      "pow_table (\<lambda>e. p1_Compress B (g1 B (x ^ e))) n ?m b1" "pow_table (\<lambda>e. p2_Compress B (g2 B (x ^ e))) n ?m b2"
    using build_loop_ok [OF assms(1,4) _ _ _ _ tbl tbl, of ?m] by auto
  let ?pp = "\<lparr>pp_N = n, G1Pows = b1, G2Pows = b2\<rparr>"
  have "powers_of B x ?pp" using b assms(5) by (simp add: powers_of_def pow_table_def)
  moreover have "buildLinearParams B n x = Inr ?pp"
    using b(1) assms(5) powers_valid [OF assms(2,3) \<open>powers_of B x ?pp\<close>]
    by (simp add: buildLinearParams_def pow_indices_def)
  ultimately show ?thesis by simp
qed

section \<open>Evaluation\<close>

text \<open>The value of the function, as its definition on the exponents.\<close>

definition prf_value :: "('f :: field, 'p1, 'p2, 'gt) blst \<Rightarrow> 'f \<Rightarrow> int \<Rightarrow> 'f \<Rightarrow> int \<Rightarrow> bytes" where
  "prf_value B x n k i = ToBendian B (Miller B (g2 B 1) (g1 B (k * x ^ nat (n + 1 + i))))"

lemma powers_entry:
  assumes "g1_ok B" and "g2_ok B" and "powers_of B x pp" and "0 < e" and "e < 2 * pp_N pp + 2" and "e \<noteq> pp_N pp + 1"
  shows "p1_Uncompress B (G1Pows pp ! nat e) = Some (g1 B (x ^ nat e))"
    and "p2_Uncompress B (G2Pows pp ! nat e) = Some (g2 B (x ^ nat e))"
proof -
  have "nat e < length (G1Pows pp)" using assms(3-5) by (simp add: powers_of_def nat_less_iff)
  then have "G1Pows pp ! nat e = p1_Compress B (g1 B (x ^ nat e)) \<and> G2Pows pp ! nat e = p2_Compress B (g2 B (x ^ nat e))"
    using assms(3,4,6) by (simp add: powers_of_def)
  then show "p1_Uncompress B (G1Pows pp ! nat e) = Some (g1 B (x ^ nat e))"
    and "p2_Uncompress B (G2Pows pp ! nat e) = Some (g2 B (x ^ nat e))"
    by (simp_all add: g1_okD(4) [OF assms(1)] g2_okD(4) [OF assms(2)])
qed

lemma prf_bilinear:
  assumes "g1_ok B" and "pairing_ok B" and "e + d = nat (n + 1 + i)"
  shows "Miller B (g2 B (x ^ e)) (g1 B (x ^ d * k)) = Miller B (g2 B 1) (g1 B (k * x ^ nat (n + 1 + i)))"
proof -
  have "x ^ e * (x ^ d * k) = k * x ^ nat (n + 1 + i)"
    unfolding assms(3) [symmetric] power_add by (simp only: ac_simps)
  then show ?thesis using pairing_okD [OF assms(2), of "x ^ e" "x ^ d * k"] by (simp only:)
qed

lemma scalar_key:
  assumes "scalar_ok N B" and "k \<noteq> 0"
  shows "length (sc_Serialize B k) = 32" and "sc_Deserialize B (sc_Serialize B k) = Some k"
  using scalar_okD(6) [OF assms(1)] checked_nonzero [OF scalar_okD(5) [OF assms(1)] assms(2)] by auto

lemma Eval_prf:
  assumes "scalar_ok N B" and "g1_ok B" and "g2_ok B" and "powers_of B x pp" and "k \<noteq> 0"
    and "0 < i" and "i \<le> pp_N pp"
  shows "Eval B pp (sc_Serialize B k) i = Inr (prf_value B x (pp_N pp) k i)"
proof -
  have "g2 B 1 = p2_Generator B" using assms(3) by (simp add: g2_ok_def)
  then show ?thesis
    using assms(6,7) scalar_key [OF assms(1,5)]
    by (simp add: Eval_def prf_value_def powers_valid [OF assms(2-4)] powers_entry [OF assms(2-4)]
        g1_okD(1) [OF assms(2)] mult.commute)
qed

lemma EvalFromGK_prf:
  assumes "g1_ok B" and "g2_ok B" and "pairing_ok B" and "powers_of B x pp" and "0 < i" and "i \<le> pp_N pp"
  shows "EvalFromGK B pp (p1_Compress B (g1 B k)) i = Inr (prf_value B x (pp_N pp) k i)"
  using assms(5,6) prf_bilinear [OF assms(1,3), where d = 0 and n = "pp_N pp" and i = i and k = k]
  by (simp add: EvalFromGK_def prf_value_def powers_valid [OF assms(1,2,4)] powers_entry [OF assms(1,2,4)]
      g1_okD(4,5) [OF assms(1)])

lemma Puncture_point:
  assumes "scalar_ok N B" and "g1_ok B" and "g2_ok B" and "powers_of B x pp" and "k \<noteq> 0"
    and "0 < j" and "j \<le> pp_N pp"
  shows "Puncture B pp (sc_Serialize B k) j = Inr (p1_Compress B (g1 B (x ^ nat j * k)))"
  using assms(6,7) scalar_key [OF assms(1,5)]
  by (simp add: Puncture_def powers_valid [OF assms(2-4)] powers_entry [OF assms(2-4)] g1_okD(1) [OF assms(2)])

lemma PuncturedEval_prf:
  assumes "g1_ok B" and "g2_ok B" and "pairing_ok B" and "powers_of B x pp"
    and "0 < i" and "i \<le> pp_N pp" and "0 < j" and "j \<le> pp_N pp" and "i \<noteq> j"
  shows "PuncturedEval B pp (p1_Compress B (g1 B (x ^ nat j * k))) j i = Inr (prf_value B x (pp_N pp) k i)"
proof -
  let ?e = "pp_N pp + 1 + i - j"
  have e: "0 < ?e" "?e < 2 * pp_N pp + 2" "?e \<noteq> pp_N pp + 1" using assms(5-9) by linarith+
  have "nat ?e + nat j = nat (pp_N pp + 1 + i)" using e(1) assms(7) by linarith
  from prf_bilinear [OF assms(1,3) this, of x k] show ?thesis
    using assms(4-9) e powers_entry(2) [OF assms(1,2,4) e]
    by (simp add: PuncturedEval_def Let_def prf_value_def powers_valid [OF assms(1,2,4)] g1_okD(4,5) [OF assms(1)] powers_of_def)
qed

text \<open>
  C19: The setup succeeds for every non-zero exponent, and on its parameters the four ways to
  evaluate agree: with the scalar key, with the key in the exponent, and with a key
  punctured at any other index. At its own index a punctured key is refused.
\<close>

theorem pprf_evaluations_agree:
  assumes "scalar_ok N B" and "g1_ok B" and "g2_ok B" and "pairing_ok B"
    and "x \<noteq> 0" and "k \<noteq> 0" and "0 < i" and "i \<le> n" and "0 < j" and "j \<le> n" and "i \<noteq> j"
  shows "\<exists>pp v kStar. buildLinearParams B n x = Inr pp \<and> Eval B pp (sc_Serialize B k) i = Inr v
     \<and> EvalFromGK B pp (p1_Compress B (g1 B k)) i = Inr v
     \<and> Puncture B pp (sc_Serialize B k) j = Inr kStar \<and> PuncturedEval B pp kStar j i = Inr v
     \<and> PuncturedEval B pp kStar j j = Inl PprfPunctured"
proof -
  obtain pp where pp: "buildLinearParams B n x = Inr pp" "powers_of B x pp" "pp_N pp = n"
    using buildLinearParams_ok [OF assms(1-3,5)] assms(7,8) by (meson less_le_trans)
  have ij: "i \<le> pp_N pp" "j \<le> pp_N pp" using assms(8,10) pp(3) by simp_all
  have "PuncturedEval B pp ks j j = Inl PprfPunctured" for ks
    using assms(9) ij by (simp add: PuncturedEval_def powers_valid [OF assms(2,3) pp(2)])
  then show ?thesis
    using pp(1) Eval_prf [OF assms(1-3) pp(2) assms(6,7) ij(1)] EvalFromGK_prf [OF assms(2-4) pp(2) assms(7) ij(1)]
      Puncture_point [OF assms(1-3) pp(2) assms(6,9) ij(2)]
      PuncturedEval_prf [OF assms(2-4) pp(2) assms(7) ij(1) assms(9) ij(2) assms(11)] by blast
qed

theorem pprf_evaluations_agree_witness:
  "\<exists>pp v kStar. buildLinearParams small_blst 3 F2 = Inr pp \<and> Eval small_blst pp (sc_Serialize small_blst F3) 1 = Inr v
     \<and> Puncture small_blst pp (sc_Serialize small_blst F3) 2 = Inr kStar \<and> PuncturedEval small_blst pp kStar 2 1 = Inr v"
proof -
  have "F2 \<noteq> 0" "F3 \<noteq> 0" by (simp_all add: zero_f5_def)
  from pprf_evaluations_agree [OF small_ok this, of 1 3 2] show ?thesis by (simp, blast)
qed

text \<open>Adding serialized keys adds the scalars, where no partial sum is zero.\<close>

lemma add_keys_loop_Some:
  assumes "scalar_ok N B" and "\<forall>k \<in> set ks. k \<noteq> 0" and "add_keys_loop B (map (sc_Serialize B) ks) (Some a) = Inr r"
  shows "r = Some (a + sum_list ks)"
  using assms(2,3)
proof (induction ks arbitrary: a)
  case (Cons k ks)
  then obtain a' where a': "sc_Add B a k = Some a'" "add_keys_loop B (map (sc_Serialize B) ks) (Some a') = Inr r"
    using scalar_key [OF assms(1), of k] by (auto split: option.splits)
  have "a' = a + k" using checked_Some [OF scalar_okD(1) [OF assms(1)] a'(1)] .
  with Cons.IH [OF _ a'(2)] Cons.prems(1) show ?case by (simp add: add.assoc)
qed simp

lemma AddKeys_sum:
  assumes "scalar_ok N B" and "\<forall>k \<in> set ks. k \<noteq> 0" and "AddKeys B (map (sc_Serialize B) ks) = Inr b"
  shows "b = sc_Serialize B (sum_list ks) \<and> ks \<noteq> []"
proof (cases ks)
  case (Cons k ks')
  then obtain r where r: "add_keys_loop B (map (sc_Serialize B) ks') (Some k) = Inr (Some r)" "b = sc_Serialize B r"
    using assms(2,3) scalar_key [OF assms(1), of k] by (auto simp: AddKeys_def split: sum.splits option.splits)
  from add_keys_loop_Some [OF assms(1) _ r(1)] assms(2) Cons r(2) show ?thesis by simp
qed (use assms(3) in \<open>simp add: AddKeys_def\<close>)

end
