(* ===== verification/Bte.thy ===== *)
theory Bte
  imports Pprf
begin

text \<open>
  Batched threshold encryption, \<^verbatim>\<open>internal/beast/bte\<close>: keys are encrypted in the exponent,
  the ciphertexts of a batch are added, one threshold decryption gives the sum of the keys,
  and the punctured keys of the batch separate the value of each transaction. The order in
  which \<^verbatim>\<open>crypto/rand\<close> and \<^verbatim>\<open>crypto/sha256\<close> are used is explicit: their results are arguments.
\<close>

section \<open>Key ciphertexts\<close>

datatype bte_error = BteInvalid | BteMissing | BteRandom | BteParams pprf_error | BteIndexPanic

record KeyCiphertext =
  ct_C1 :: bytes
  ct_C2 :: bytes

record PartialDecryptShare =
  pd_Index :: int
  pd_Share :: bytes

definition bte_randScalar :: "('f, 'p1, 'p2, 'gt) blst \<Rightarrow> bytes option \<Rightarrow> bte_error + 'f" where
  "bte_randScalar B ikm =
     (case ikm of None \<Rightarrow> Inl BteRandom
      | Some b \<Rightarrow> (case sk_KeyGen B b of None \<Rightarrow> Inl BteInvalid | Some s \<Rightarrow> Inr s))"

definition EncryptKey :: "('f, 'p1 :: ab_group_add, 'p2, 'gt) blst \<Rightarrow> bytes option \<Rightarrow> bytes \<Rightarrow> bytes \<Rightarrow> bte_error + KeyCiphertext" where
  "EncryptKey B ikm pk keyScalar =
     (if length pk \<noteq> 48 \<or> length keyScalar \<noteq> 32 then Inl BteInvalid
      else case p1_Uncompress B pk of None \<Rightarrow> Inl BteInvalid
      | Some pkP1 \<Rightarrow>
     (case sc_Deserialize B keyScalar of None \<Rightarrow> Inl BteInvalid
      | Some k \<Rightarrow>
     (case bte_randScalar B ikm of Inl e \<Rightarrow> Inl e
      | Inr r \<Rightarrow>
          let m = p1_Mult B (p1_Generator B) k;
              c1 = p1_Mult B (p1_Generator B) r;
              pkR = p1_Mult B pkP1 r
          in Inr \<lparr>ct_C1 = p1_Compress B c1, ct_C2 = p1_Compress B (pkR + m)\<rparr>)))"

fun add_ct_loop :: "('f, 'p1 :: ab_group_add, 'p2, 'gt) blst \<Rightarrow> KeyCiphertext list \<Rightarrow> 'p1 \<Rightarrow> 'p1 \<Rightarrow> bte_error + 'p1 \<times> 'p1" where
  "add_ct_loop B [] acc1 acc2 = Inr (acc1, acc2)"
| "add_ct_loop B (ct # cts) acc1 acc2 =
     (if length (ct_C1 ct) \<noteq> 48 \<or> length (ct_C2 ct) \<noteq> 48 then Inl BteInvalid
      else case p1_Uncompress B (ct_C1 ct) of None \<Rightarrow> Inl BteInvalid
      | Some c1 \<Rightarrow>
     (case p1_Uncompress B (ct_C2 ct) of None \<Rightarrow> Inl BteInvalid
      | Some c2 \<Rightarrow> add_ct_loop B cts (acc1 + c1) (acc2 + c2)))"

definition AddCiphertexts :: "('f, 'p1 :: ab_group_add, 'p2, 'gt) blst \<Rightarrow> KeyCiphertext list \<Rightarrow> bte_error + KeyCiphertext" where
  "AddCiphertexts B cts =
     (if cts = [] then Inl BteInvalid
      else case add_ct_loop B cts 0 0 of
        Inl e \<Rightarrow> Inl e
      | Inr (acc1, acc2) \<Rightarrow> Inr \<lparr>ct_C1 = p1_Compress B acc1, ct_C2 = p1_Compress B acc2\<rparr>)"

definition PartialDecrypt :: "('f, 'p1, 'p2, 'gt) blst \<Rightarrow> KeyCiphertext \<Rightarrow> bytes \<Rightarrow> int \<Rightarrow> bte_error + PartialDecryptShare" where
  "PartialDecrypt B ct shareScalar index =
     (if index \<le> 0 then Inl BteInvalid
      else if length (ct_C1 ct) \<noteq> 48 then Inl BteInvalid
      else if length shareScalar \<noteq> 32 then Inl BteInvalid
      else case sc_Deserialize B shareScalar of None \<Rightarrow> Inl BteInvalid
      | Some s \<Rightarrow>
     (case p1_Uncompress B (ct_C1 ct) of None \<Rightarrow> Inl BteInvalid
      | Some c1 \<Rightarrow> Inr \<lparr>pd_Index = index, pd_Share = p1_Compress B (p1_Mult B c1 s)\<rparr>))"

definition bte_lagrangeAtZeroScalar :: "('f, 'p1, 'p2, 'gt) blst \<Rightarrow> int \<Rightarrow> int list \<Rightarrow> bte_error + 'f" where
  "bte_lagrangeAtZeroScalar = lagrange_from (\<lambda>_. False) BteInvalid BteInvalid"

definition DecryptKeyG :: "('f, 'p1 :: ab_group_add, 'p2, 'gt) blst \<Rightarrow> KeyCiphertext \<Rightarrow> PartialDecryptShare list \<Rightarrow> int
    \<Rightarrow> bte_error + bytes" where
  "DecryptKeyG B ct shares threshold =
     (if threshold \<le> 0 \<or> int (length shares) < threshold then Inl BteInvalid
      else if length (ct_C2 ct) \<noteq> 48 then Inl BteInvalid
      else let shares = smallest pd_Index (nat threshold) shares in
        case share_indices pd_Index (\<lambda>s. length (pd_Share s) \<noteq> 48) shares [] of
          None \<Rightarrow> Inl BteInvalid
        | Some indices \<Rightarrow>
            (case combine_loop (\<lambda>i. bte_lagrangeAtZeroScalar B i indices) BteInvalid (p1_Mult B) (p1_Uncompress B)
                    pd_Index pd_Share shares 0 of
               Inl e \<Rightarrow> Inl e
             | Inr acc \<Rightarrow>
                 (case p1_Uncompress B (ct_C2 ct) of None \<Rightarrow> Inl BteInvalid
                  | Some c2 \<Rightarrow> Inr (p1_Compress B (c2 - acc)))))"

section \<open>Separating a batch\<close>

text \<open>Indexing a slice: out of range the run-time panics, \<open>None\<close>.\<close>

definition go_nth :: "'a list \<Rightarrow> int \<Rightarrow> 'a option" where
  "go_nth xs i = (if 0 \<le> i \<and> i < int (length xs) then Some (xs ! nat i) else None)"

definition negP1Affine :: "'p1 :: ab_group_add \<Rightarrow> 'p1" where
  "negP1Affine p = 0 - p"

text \<open>
  The map of punctured keys is the list of its entries; \<open>other\<close> are the sorted keys of the
  other indices. The index \<open>N + 1 + i - j\<close> is not checked by the code.
\<close>

fun denominators :: "('f, 'p1 :: ab_group_add, 'p2, 'gt) blst \<Rightarrow> LinearParams \<Rightarrow> int \<Rightarrow> (int \<times> bytes) list \<Rightarrow> int list
    \<Rightarrow> 'p2 list \<Rightarrow> 'p1 list \<Rightarrow> bte_error + 'p2 list \<times> 'p1 list" where
  "denominators B pp i keys [] qs ps = Inr (qs, ps)"
| "denominators B pp i keys (j # js) qs ps =
     (let kStar = the (map_of keys j) in
      if length kStar \<noteq> 48 then Inl BteInvalid
      else case go_nth (G2Pows pp) (pp_N pp + 1 + i - j) of None \<Rightarrow> Inl BteIndexPanic
      | Some qb \<Rightarrow>
     (case p2_Uncompress B qb of None \<Rightarrow> Inl BteInvalid
      | Some q \<Rightarrow>
     (case p1_Uncompress B kStar of None \<Rightarrow> Inl BteInvalid
      | Some p \<Rightarrow> denominators B pp i keys js (qs @ [q]) (ps @ [negP1Affine p]))))"

definition RecoverPRFAt :: "('f, 'p1 :: ab_group_add, 'p2, 'gt) blst \<Rightarrow> LinearParams \<Rightarrow> bytes \<Rightarrow> int \<Rightarrow> (int \<times> bytes) list
    \<Rightarrow> bte_error + bytes" where
  "RecoverPRFAt B pp gk i keys =
     (case pp_validate pp of Some e \<Rightarrow> Inl (BteParams e)
      | None \<Rightarrow>
      if i \<le> 0 \<or> i > pp_N pp then Inl BteInvalid
      else if length gk \<noteq> 48 then Inl BteInvalid
      else if keys = [] then Inl BteMissing
      else case p1_Uncompress B gk of None \<Rightarrow> Inl BteInvalid
      | Some g \<Rightarrow>
     (case p2_Uncompress B (G2Pows pp ! nat (pp_N pp + 1 + i)) of None \<Rightarrow> Inl BteInvalid
      | Some q0 \<Rightarrow>
     (case denominators B pp i keys (sort (filter (\<lambda>j. j \<noteq> i) (map fst keys))) [q0] [g] of
        Inl e \<Rightarrow> Inl e
      | Inr (qs, ps) \<Rightarrow> Inr (ToBendian B (MillerN B qs ps)))))"

definition RecoverXOR :: "(bytes \<Rightarrow> bytes) \<Rightarrow> bytes \<Rightarrow> bytes \<Rightarrow> bytes" where
  "RecoverXOR sha beta prfGT =
     (if beta = [] then []
      else let sm = sha prfGT in map (\<lambda>i. (beta ! i) XOR (sm ! (i mod length sm))) [0 ..< length beta])"

section \<open>Threshold decryption of a sum of keys\<close>

lemma RecoverXOR_involutive: "RecoverXOR sha (RecoverXOR sha beta v) v = beta"
  by (cases "beta = []") (auto simp: RecoverXOR_def Let_def xor.assoc intro: nth_equalityI)

text \<open>A ciphertext of the key \<open>k\<close> with randomness \<open>r\<close> under the secret \<open>s\<close>.\<close>

definition ct_for :: "('f :: field, 'p1, 'p2, 'gt) blst \<Rightarrow> 'f \<Rightarrow> 'f \<Rightarrow> 'f \<Rightarrow> KeyCiphertext" where
  "ct_for B s r k = \<lparr>ct_C1 = p1_Compress B (g1 B r), ct_C2 = p1_Compress B (g1 B (s * r + k))\<rparr>"

lemma EncryptKey_ct:
  assumes "scalar_ok N B" and "g1_ok B" and "k \<noteq> 0"
    and "EncryptKey B ikm (p1_Compress B (g1 B s)) (sc_Serialize B k) = Inr ct"
  shows "\<exists>r. ct = ct_for B s r k"
  using assms(4) scalar_key [OF assms(1,3)]
  by (auto simp: EncryptKey_def ct_for_def Let_def g1_okD(1,2,4,5) [OF assms(2)] split: sum.splits)

lemma add_ct_loop_ok:
  assumes "g1_ok B"
  shows "add_ct_loop B (map (\<lambda>(r, k). ct_for B s r k) rks) (g1 B a) (g1 B b)
      = Inr (g1 B (a + sum_list (map fst rks)), g1 B (b + (s * sum_list (map fst rks) + sum_list (map snd rks))))"
  by (induction rks arbitrary: a b)
     (auto simp: ct_for_def g1_okD(2,4,5) [OF assms] algebra_simps)

lemma AddCiphertexts_ct:
  assumes "g1_ok B" and "rks \<noteq> []"
  shows "AddCiphertexts B (map (\<lambda>(r, k). ct_for B s r k) rks)
      = Inr (ct_for B s (sum_list (map fst rks)) (sum_list (map snd rks)))"
  using add_ct_loop_ok [OF assms(1), of s rks 0 0] assms(2)
  by (simp add: AddCiphertexts_def ct_for_def pgroup_zero [OF g1_group [OF assms(1)]])

lemma PartialDecrypt_point:
  assumes "scalar_ok N B" and "g1_ok B" and "PartialDecrypt B (ct_for B s r k) (sc_Serialize B a) i = Inr sh"
  shows "sh = \<lparr>pd_Index = i, pd_Share = p1_Compress B (g1 B (r * a))\<rparr>"
proof -
  obtain b where "sc_Deserialize B (sc_Serialize B a) = Some b" "sh = \<lparr>pd_Index = i, pd_Share = p1_Compress B (g1 B (r * b))\<rparr>"
    using assms(3) by (auto simp: PartialDecrypt_def ct_for_def g1_okD(1,4) [OF assms(2)] split: if_splits option.splits)
  moreover have "b = a" using checked_Some [OF scalar_okD(5) [OF assms(1)]] calculation(1) .
  ultimately show ?thesis by simp
qed

lemma DecryptKeyG_key:
  assumes "scalar_ok N B" and "g1_ok B" and "1 \<le> N"
    and "0 < t" and "t \<le> int (length ss)" and "int (length cs) \<le> t"
    and "distinct (map pd_Index ss)" and "\<forall>s \<in> set ss. idx_ok N (pd_Index s)"
    and "\<forall>s \<in> set ss. PartialDecrypt B (ct_for B (horner cs 0) r k)
           (sc_Serialize B (horner cs (of_int (pd_Index s)))) (pd_Index s) = Inr s"
  shows "DecryptKeyG B (ct_for B (horner cs 0) r k) ss t = Inr (p1_Compress B (g1 B k))"
proof -
  have "\<forall>s \<in> set ss. pd_Share s = p1_Compress B (g1 B (r * horner cs (of_int (pd_Index s)))) \<and> \<not> length (pd_Share s) \<noteq> 48"
  proof
    fix s
    assume "s \<in> set ss"
    then have "s = \<lparr>pd_Index = pd_Index s, pd_Share = p1_Compress B (g1 B (r * horner cs (of_int (pd_Index s))))\<rparr>"
      using assms(9) PartialDecrypt_point [OF assms(1,2)] by blast
    then have "pd_Share s = p1_Compress B (g1 B (r * horner cs (of_int (pd_Index s))))"
      by (metis PartialDecryptShare.select_convs(2))
    then show "pd_Share s = p1_Compress B (g1 B (r * horner cs (of_int (pd_Index s)))) \<and> \<not> length (pd_Share s) \<noteq> 48"
      using g1_okD(5) [OF assms(2)] by simp
  qed
  note comb = combine_smallest [OF assms(1) g1_group [OF assms(2)] assms(3-8) this]
  show ?thesis
    using assms(4,5)
    by (simp add: DecryptKeyG_def comb(1) [simplified] comb(2) bte_lagrangeAtZeroScalar_def ct_for_def g1_okD(4,5) [OF assms(2)]
        pgroup_minus [OF g1_group [OF assms(2)]] mult.commute)
qed

section \<open>Recovering the values of a batch\<close>

lemma denominators_ok:
  assumes "g1_ok B" and "g2_ok B" and "powers_of B x pp" and "0 < i" and "i \<le> pp_N pp"
    and "\<forall>j \<in> set js. 0 < j \<and> j \<le> pp_N pp \<and> j \<noteq> i \<and> map_of keys j = Some (p1_Compress B (g1 B (x ^ nat j * f j)))"
  shows "denominators B pp i keys js (map (g2 B) as) (map (g1 B) bs) =
      Inr (map (g2 B) (as @ map (\<lambda>j. x ^ nat (pp_N pp + 1 + i - j)) js), map (g1 B) (bs @ map (\<lambda>j. - (x ^ nat j * f j)) js))"
  using assms(6)
proof (induction js arbitrary: as bs)
  case (Cons j js)
  let ?e = "pp_N pp + 1 + i - j"
  have j: "0 < j" "j \<le> pp_N pp" "j \<noteq> i" "map_of keys j = Some (p1_Compress B (g1 B (x ^ nat j * f j)))"
    using Cons.prems by simp_all
  have e: "0 < ?e" "?e < 2 * pp_N pp + 2" "?e \<noteq> pp_N pp + 1" using assms(4,5) j by linarith+
  have nth: "go_nth (G2Pows pp) ?e = Some (G2Pows pp ! nat ?e)"
    using e assms(3) by (simp add: go_nth_def powers_of_def)
  have neg: "negP1Affine (g1 B a) = g1 B (- a)" for a
    by (simp add: negP1Affine_def pgroup_minus [OF g1_group [OF assms(1)]])
  have "denominators B pp i keys (j # js) (map (g2 B) as) (map (g1 B) bs) =
      denominators B pp i keys js (map (g2 B) (as @ [x ^ nat ?e])) (map (g1 B) (bs @ [- (x ^ nat j * f j)]))"
    using powers_entry(2) [OF assms(1-3) e]
    by (simp add: j(4) nth neg g1_okD(4,5) [OF assms(1)])
  also have "\<dots> = Inr (map (g2 B) ((as @ [x ^ nat ?e]) @ map (\<lambda>j. x ^ nat (pp_N pp + 1 + i - j)) js),
      map (g1 B) ((bs @ [- (x ^ nat j * f j)]) @ map (\<lambda>j. - (x ^ nat j * f j)) js))"
    using Cons.prems by (intro Cons.IH) simp
  finally show ?case by simp
qed simp

lemma map2_append_map:
  "map2 h (as @ map u js) (bs @ map v js) = map2 h as bs @ map (\<lambda>j. h (u j) (v j)) js" if "length as = length bs"
  using that by (simp add: zip_append map2_map_map)

lemma sum_list_neg_mult: "(\<Sum>j \<leftarrow> js. c * - f j) = - (c * (\<Sum>j \<leftarrow> js. f j))" for c :: "'f :: field"
  by (induction js) (simp_all add: algebra_simps)

lemma others_sum:
  fixes f :: "int \<Rightarrow> 'f :: field"
  assumes "distinct js" and "i \<in> set js"
  shows "sum_list (map f js) - (\<Sum>j \<leftarrow> sort (filter (\<lambda>j. j \<noteq> i) js). f j) = f i"
proof -
  have "(\<Sum>j \<leftarrow> sort (filter (\<lambda>j. j \<noteq> i) js). f j) = (\<Sum>j \<in> set js - {i}. f j)"
    using assms(1) by (subst sum_list_distinct_conv_sum_set) (auto intro: sum.cong)
  moreover have "sum_list (map f js) = f i + (\<Sum>j \<in> set js - {i}. f j)"
    using assms by (simp add: sum_list_distinct_conv_sum_set sum.remove)
  ultimately show ?thesis by simp
qed

lemma separated_exponent:
  fixes x :: "'f :: field"
  assumes "distinct js" and "i \<in> set js" and "\<forall>j \<in> set js. 0 < j \<and> j \<le> n"
  shows "sum_list (map2 (*) ([x ^ nat (n + 1 + i)] @ map (\<lambda>j. x ^ nat (n + 1 + i - j)) (sort (filter (\<lambda>j. j \<noteq> i) js)))
        ([sum_list (map f js)] @ map (\<lambda>j. - (x ^ nat j * f j)) (sort (filter (\<lambda>j. j \<noteq> i) js)))) = f i * x ^ nat (n + 1 + i)"
proof -
  let ?os = "sort (filter (\<lambda>j. j \<noteq> i) js)" and ?X = "x ^ nat (n + 1 + i)"
  have pow: "x ^ nat (n + 1 + i - j) * - (x ^ nat j * f j) = ?X * - f j" if "j \<in> set ?os" for j
  proof -
    have "0 < i" "0 < j" "j \<le> n" using that assms(2,3) by auto
    then have "nat (n + 1 + i) = nat (n + 1 + i - j) + nat j" by linarith
    then show ?thesis by (simp only: power_add mult_minus_right mult.assoc)
  qed
  have "sum_list (map2 (*) ([?X] @ map (\<lambda>j. x ^ nat (n + 1 + i - j)) ?os) ([sum_list (map f js)] @ map (\<lambda>j. - (x ^ nat j * f j)) ?os))
      = ?X * sum_list (map f js) + (\<Sum>j \<leftarrow> ?os. x ^ nat (n + 1 + i - j) * - (x ^ nat j * f j))"
    by (subst map2_append_map) simp_all
  also have "(\<Sum>j \<leftarrow> ?os. x ^ nat (n + 1 + i - j) * - (x ^ nat j * f j)) = (\<Sum>j \<leftarrow> ?os. ?X * - f j)"
    using pow by (intro arg_cong [where f = sum_list] map_cong refl) blast
  also have "\<dots> = - (?X * (\<Sum>j \<leftarrow> ?os. f j))" by (rule sum_list_neg_mult)
  also have "?X * sum_list (map f js) + - (?X * (\<Sum>j \<leftarrow> ?os. f j)) = ?X * (sum_list (map f js) - (\<Sum>j \<leftarrow> ?os. f j))"
    by (simp add: right_diff_distrib)
  also have "\<dots> = f i * ?X" unfolding others_sum [OF assms(1,2)] by (rule mult.commute)
  finally show ?thesis .
qed

lemma RecoverPRFAt_prf:
  assumes "g1_ok B" and "g2_ok B" and "pairing_ok B" and "powers_of B x pp"
    and "distinct (map fst batch)" and "\<forall>(j, k) \<in> set batch. 0 < j \<and> j \<le> pp_N pp" and "(i, ki) \<in> set batch"
  shows "RecoverPRFAt B pp (p1_Compress B (g1 B (sum_list (map snd batch)))) i
      (map (\<lambda>(j, k). (j, p1_Compress B (g1 B (x ^ nat j * k)))) batch) = Inr (prf_value B x (pp_N pp) ki i)"
proof -
  define f where "f j = the (map_of batch j)" for j
  let ?n = "pp_N pp" and ?keys = "map (\<lambda>(j, k). (j, p1_Compress B (g1 B (x ^ nat j * k)))) batch"
  let ?js = "map fst batch"
  let ?os = "sort (filter (\<lambda>j. j \<noteq> i) ?js)"
  let ?qs = "[x ^ nat (?n + 1 + i)] @ map (\<lambda>j. x ^ nat (?n + 1 + i - j)) ?os"
  let ?ps = "[sum_list (map f ?js)] @ map (\<lambda>j. - (x ^ nat j * f j)) ?os"
  have i: "0 < i" "i \<le> ?n" using assms(6,7) by auto
  have f: "map_of batch j = Some k \<and> f j = k" if "(j, k) \<in> set batch" for j k
    using assms(5) that by (simp add: f_def)
  have total: "sum_list (map snd batch) = sum_list (map f ?js)"
    unfolding map_map comp_def using f by (intro arg_cong [where f = sum_list] map_cong refl) (metis prod.collapse)
  have fst: "map fst ?keys = ?js" by (simp add: comp_def case_prod_beta)
  have keys: "map_of ?keys j = map_option (\<lambda>k. p1_Compress B (g1 B (x ^ nat j * k))) (map_of batch j)" for j
    by (induction batch) auto
  have "\<forall>j \<in> set ?os. 0 < j \<and> j \<le> ?n \<and> j \<noteq> i \<and> map_of ?keys j = Some (p1_Compress B (g1 B (x ^ nat j * f j)))"
    unfolding keys using assms(6) f by fastforce
  from denominators_ok [OF assms(1,2,4) i this, of "[x ^ nat (?n + 1 + i)]" "[sum_list (map f ?js)]"]
  have den: "denominators B pp i ?keys ?os [g2 B (x ^ nat (?n + 1 + i))] [g1 B (sum_list (map f ?js))]
      = Inr (map (g2 B) ?qs, map (g1 B) ?ps)" by simp
  have "sum_list (map2 (*) ?qs ?ps) = f i * x ^ nat (?n + 1 + i)"
    by (rule separated_exponent [OF assms(5)]) (use assms(6,7) in \<open>force+\<close>)
  then have "MillerN B (map (g2 B) ?qs) (map (g1 B) ?ps) = Miller B (g2 B 1) (g1 B (ki * x ^ nat (?n + 1 + i)))"
    using pairing_okN [OF assms(3), of ?qs ?ps] f [OF assms(7)] by simp
  moreover have "p2_Uncompress B (G2Pows pp ! nat (?n + 1 + i)) = Some (g2 B (x ^ nat (?n + 1 + i)))"
    by (rule powers_entry [OF assms(1,2,4)]) (use i in linarith)+
  moreover have "?keys \<noteq> []" using assms(7) by auto
  ultimately show ?thesis
    using i unfolding RecoverPRFAt_def total fst
    by (simp only: powers_valid [OF assms(1,2,4)] g1_okD(4,5) [OF assms(1)] den prf_value_def option.case sum.case prod.case
        not_less [symmetric] simp_thms if_False not_le)
qed

lemma encrypted_batch:
  assumes "scalar_ok N B" and "g1_ok B" and "\<forall>(j, k) \<in> set batch. k \<noteq> 0"
    and "list_all2 (\<lambda>(j, k) ct. \<exists>ikm. EncryptKey B ikm (p1_Compress B (g1 B s)) (sc_Serialize B k) = Inr ct) batch cts"
  shows "\<exists>rs. length rs = length batch \<and> cts = map (\<lambda>(r, k). ct_for B s r k) (zip rs (map snd batch))"
  using assms(4,3)
proof (induction batch cts rule: list_all2_induct)
  case (Cons jk batch ct cts)
  then obtain rs where rs: "length rs = length batch" "cts = map (\<lambda>(r, k). ct_for B s r k) (zip rs (map snd batch))"
    by auto
  obtain ikm where "snd jk \<noteq> 0" "EncryptKey B ikm (p1_Compress B (g1 B s)) (sc_Serialize B (snd jk)) = Inr ct"
    using Cons.hyps(1) Cons.prems by (cases jk) auto
  then obtain r where "ct = ct_for B s r (snd jk)" using EncryptKey_ct [OF assms(1,2)] by blast
  with rs show ?case by (intro exI [of _ "r # rs"]) simp
qed simp

text \<open>
  C6: A batch from encryption to recovery. Every transaction of the batch has its own index and
  key; its sender encrypts the key under the group key, punctures it at its index and masks
  the payload with the function's value there. Adding the ciphertexts succeeds; any \<open>t\<close>
  partial decryptions of the sum, with distinct indices, give the sum of the keys in the
  exponent; from it and the punctured keys every value is recovered, and unmasks the payload.
\<close>

theorem batch_decryption_recovers:
  assumes "scalar_ok N B" and "g1_ok B" and "g2_ok B" and "pairing_ok B" and "1 \<le> N"
    and "buildLinearParams B n x = Inr pp" and "x \<noteq> 0"
    and "batch \<noteq> []" and "distinct (map fst batch)" and "\<forall>(j, k) \<in> set batch. 0 < j \<and> j \<le> n \<and> k \<noteq> 0"
    and "list_all2 (\<lambda>(j, k) ct. \<exists>ikm. EncryptKey B ikm (p1_Compress B (g1 B (horner cs 0))) (sc_Serialize B k) = Inr ct) batch cts"
    and "0 < t" and "t \<le> int (length ss)" and "int (length cs) \<le> t"
    and "distinct (map pd_Index ss)" and "\<forall>s \<in> set ss. idx_ok N (pd_Index s)"
    and "\<forall>s \<in> set ss. PartialDecrypt B (projr (AddCiphertexts B cts))
           (sc_Serialize B (horner cs (of_int (pd_Index s)))) (pd_Index s) = Inr s"
    and "(i, k) \<in> set batch"
  shows "\<exists>ct gk v. AddCiphertexts B cts = Inr ct \<and> DecryptKeyG B ct ss t = Inr gk
     \<and> Eval B pp (sc_Serialize B k) i = Inr v
     \<and> RecoverPRFAt B pp gk i (map (\<lambda>(j, k). (j, projr (Puncture B pp (sc_Serialize B k) j))) batch) = Inr v
     \<and> RecoverXOR sha (RecoverXOR sha msg v) v = msg"
proof -
  have n: "0 < n" using assms(10,18) by auto
  have pp: "powers_of B x pp" "pp_N pp = n"
    using buildLinearParams_ok [OF assms(1-3,7) n] assms(6) by auto
  obtain rs where rs: "length rs = length batch"
      "cts = map (\<lambda>(r, k). ct_for B (horner cs 0) r k) (zip rs (map snd batch))"
    using encrypted_batch [OF assms(1,2) _ assms(11)] assms(10) by auto
  have "zip rs (map snd batch) \<noteq> []" using rs(1) assms(8) by (cases batch; cases rs) auto
  then have ct: "AddCiphertexts B cts = Inr (ct_for B (horner cs 0) (sum_list rs) (sum_list (map snd batch)))"
    using AddCiphertexts_ct [OF assms(2), of "zip rs (map snd batch)"] rs by simp
  have dec: "DecryptKeyG B (ct_for B (horner cs 0) (sum_list rs) (sum_list (map snd batch))) ss t
      = Inr (p1_Compress B (g1 B (sum_list (map snd batch))))"
    using assms(17) unfolding ct by (intro DecryptKeyG_key [OF assms(1,2,5,12-16)]) simp
  have keys: "map (\<lambda>(j, k). (j, projr (Puncture B pp (sc_Serialize B k) j))) batch
      = map (\<lambda>(j, k). (j, p1_Compress B (g1 B (x ^ nat j * k)))) batch"
    using assms(10) Puncture_point [OF assms(1-3) pp(1)] pp(2) by (intro map_cong refl) auto
  have "RecoverPRFAt B pp (p1_Compress B (g1 B (sum_list (map snd batch)))) i
      (map (\<lambda>(j, k). (j, p1_Compress B (g1 B (x ^ nat j * k)))) batch) = Inr (prf_value B x (pp_N pp) k i)"
    by (rule RecoverPRFAt_prf [OF assms(2-4) pp(1) assms(9) _ assms(18)]) (use assms(10) pp(2) in auto)
  moreover have "Eval B pp (sc_Serialize B k) i = Inr (prf_value B x (pp_N pp) k i)"
    by (rule Eval_prf [OF assms(1-3) pp(1)]) (use assms(10,18) pp(2) in auto)
  ultimately show ?thesis unfolding keys using ct dec RecoverXOR_involutive by blast
qed

text \<open>Two transactions, a committee of two with threshold two, on the small instance.\<close>

definition demo_batch :: "(int \<times> f5) list" where
  "demo_batch = [(1, F3), (3, F4)]"

definition demo_cts :: "KeyCiphertext list" where
  "demo_cts = map (\<lambda>(j, k). projr (EncryptKey small_blst (Some [1]) (p1_Compress small_blst (g1 small_blst (horner [F2, F1] 0)))
     (sc_Serialize small_blst k))) demo_batch"

definition demo_pds :: "PartialDecryptShare list" where
  "demo_pds = map (\<lambda>i. projr (PartialDecrypt small_blst (projr (AddCiphertexts small_blst demo_cts))
     (sc_Serialize small_blst (horner [F2, F1] (of_int i))) i)) [1, 2]"

lemma demo_encrypts:
  "k \<noteq> 0 \<Longrightarrow> \<exists>ct. EncryptKey small_blst (Some [1]) (p1_Compress small_blst (g1 small_blst s)) (sc_Serialize small_blst k) = Inr ct"
  using scalar_key [OF small_scalar_ok, of k] g1_okD(4,5) [OF small_g1_ok, of s]
  by (simp add: EncryptKey_def bte_randScalar_def Let_def)
     (simp add: small_blst_def bytes_f5_def nat_f5_def zero_f5_def be_val_simps)

lemma demo_decrypts:
  "a \<noteq> 0 \<Longrightarrow> 0 < i \<Longrightarrow> \<exists>sh. PartialDecrypt small_blst (ct_for small_blst s r k) (sc_Serialize small_blst a) i = Inr sh \<and> pd_Index sh = i"
  using scalar_key [OF small_scalar_ok, of a] g1_okD(4,5) [OF small_g1_ok, of r]
  by (simp add: PartialDecrypt_def ct_for_def)

lemma demo_horner: "horner [F2, F1] 1 = F3" "horner [F2, F1] 2 = F4"
  by (simp_all add: f5_numerals plus_f5_def times_f5_def nat_f5_def zero_f5_def one_f5_def Let_def)

lemma demo_cts_encrypted:
  "list_all2 (\<lambda>(j, k) ct. \<exists>ikm. EncryptKey small_blst ikm (p1_Compress small_blst (g1 small_blst (horner [F2, F1] 0)))
     (sc_Serialize small_blst k) = Inr ct) demo_batch demo_cts"
proof -
  have "F3 \<noteq> 0" "F4 \<noteq> 0" by (simp_all add: zero_f5_def)
  from this [THEN demo_encrypts] obtain c3 c4 where
    "EncryptKey small_blst (Some [1]) (p1_Compress small_blst (g1 small_blst (horner [F2, F1] 0))) (sc_Serialize small_blst F3) = Inr c3"
    "EncryptKey small_blst (Some [1]) (p1_Compress small_blst (g1 small_blst (horner [F2, F1] 0))) (sc_Serialize small_blst F4) = Inr c4"
    by meson
  then show ?thesis unfolding demo_cts_def demo_batch_def by (auto simp del: horner_zero)
qed

lemma demo_cts_sum: "\<exists>r k. AddCiphertexts small_blst demo_cts = Inr (ct_for small_blst (horner [F2, F1] 0) r k)"
proof -
  obtain rs where rs: "length rs = length demo_batch"
      "demo_cts = map (\<lambda>(r, k). ct_for small_blst (horner [F2, F1] 0) r k) (zip rs (map snd demo_batch))"
    using encrypted_batch [OF small_scalar_ok small_g1_ok _ demo_cts_encrypted] by (auto simp: demo_batch_def zero_f5_def)
  then have "zip rs (map snd demo_batch) \<noteq> []" by (cases rs) (auto simp: demo_batch_def)
  from AddCiphertexts_ct [OF small_g1_ok this] show ?thesis unfolding rs(2) by blast
qed

lemma demo_pds_decrypted:
  "\<forall>s \<in> set demo_pds. PartialDecrypt small_blst (projr (AddCiphertexts small_blst demo_cts))
     (sc_Serialize small_blst (horner [F2, F1] (of_int (pd_Index s)))) (pd_Index s) = Inr s"
  "map pd_Index demo_pds = [1, 2]"
proof -
  obtain r k where ct: "AddCiphertexts small_blst demo_cts = Inr (ct_for small_blst (horner [F2, F1] 0) r k)"
    using demo_cts_sum by blast
  have "F3 \<noteq> 0" "F4 \<noteq> 0" by (simp_all add: zero_f5_def)
  then obtain s1 s2 where s: "PartialDecrypt small_blst (ct_for small_blst (horner [F2, F1] 0) r k) (sc_Serialize small_blst F3) 1 = Inr s1"
      "pd_Index s1 = 1" "PartialDecrypt small_blst (ct_for small_blst (horner [F2, F1] 0) r k) (sc_Serialize small_blst F4) 2 = Inr s2"
      "pd_Index s2 = 2"
    using demo_decrypts by (metis zero_less_numeral zero_less_one)
  have pds: "demo_pds = [s1, s2]"
    unfolding demo_pds_def ct using s by (simp add: demo_horner del: horner.simps)
  show "map pd_Index demo_pds = [1, 2]" unfolding pds using s by simp
  show "\<forall>s \<in> set demo_pds. PartialDecrypt small_blst (projr (AddCiphertexts small_blst demo_cts))
     (sc_Serialize small_blst (horner [F2, F1] (of_int (pd_Index s)))) (pd_Index s) = Inr s"
    unfolding pds ct using s by (simp add: demo_horner del: horner.simps)
qed

theorem batch_decryption_recovers_witness:
  "\<exists>pp ct gk v. buildLinearParams small_blst 3 F2 = Inr pp \<and> AddCiphertexts small_blst demo_cts = Inr ct
     \<and> DecryptKeyG small_blst ct demo_pds 2 = Inr gk \<and> Eval small_blst pp (sc_Serialize small_blst F4) 3 = Inr v
     \<and> RecoverPRFAt small_blst pp gk 3
         (map (\<lambda>(j, k). (j, projr (Puncture small_blst pp (sc_Serialize small_blst k) j))) demo_batch) = Inr v"
proof -
  have x: "F2 \<noteq> 0" by (simp add: zero_f5_def)
  obtain pp where pp: "buildLinearParams small_blst 3 F2 = Inr pp"
    using buildLinearParams_ok [OF small_ok(1-3) x, of 3] by auto
  have len: "length demo_pds = 2" using demo_pds_decrypted(2) by (metis length_map list.size(3,4) numeral_2_eq_2 One_nat_def add_0 plus_1_eq_Suc)
  have idx: "\<forall>s \<in> set demo_pds. idx_ok 4 (pd_Index s)"
  proof
    fix s
    assume "s \<in> set demo_pds"
    then have "pd_Index s \<in> set [1, 2]" unfolding demo_pds_decrypted(2) [symmetric] by simp
    then show "idx_ok 4 (pd_Index s)" by (auto simp: idx_ok_def)
  qed
  show ?thesis
    using batch_decryption_recovers [OF small_ok _ pp x _ _ _ demo_cts_encrypted _ _ _ _ idx demo_pds_decrypted(1), of 2 3 F4]
      pp by (simp add: len demo_pds_decrypted(2)) (simp add: demo_batch_def zero_f5_def, blast)
qed

end
