(* ===== verification/Feldman.thy ===== *)
theory Feldman
  imports Blst
begin

text \<open>
  Verifiable secret sharing, \<^verbatim>\<open>internal/tss/dkg/feldman_crypto_blst.go\<close>: evaluation of a
  dealer's polynomial, its commitments, the check of a share against them, the combination
  of scalar shares at zero, and the key generation run in memory. A \<^verbatim>\<open>*blst.Scalar\<close> that may
  be nil is an \<open>option\<close>; the results of reading \<^verbatim>\<open>crypto/rand\<close> are an argument, one per
  dealer and coefficient.
\<close>

section \<open>Operations\<close>

datatype dkg_error = DkgInvalidParams | DkgInvalidPoint | DkgInvalidShare | DkgRandom | DkgBadRandomness

definition dkg_randScalar :: "('f, 'p1, 'p2, 'gt) blst \<Rightarrow> bytes option \<Rightarrow> dkg_error + 'f" where
  "dkg_randScalar B ikm =
     (case ikm of None \<Rightarrow> Inl DkgRandom
      | Some b \<Rightarrow> (case sk_KeyGen B b of None \<Rightarrow> Inl DkgBadRandomness | Some s \<Rightarrow> Inr s))"

fun eval_loop :: "('f, 'p1, 'p2, 'gt) blst \<Rightarrow> 'f \<Rightarrow> 'f option list \<Rightarrow> 'f \<Rightarrow> 'f \<Rightarrow> dkg_error + 'f" where
  "eval_loop B xs [] acc pow = Inr acc"
| "eval_loop B xs (None # cs) acc pow = Inl DkgInvalidParams"
| "eval_loop B xs (Some c # cs) acc pow =
     (case sc_Mul B c pow of None \<Rightarrow> Inl DkgInvalidShare
      | Some tm \<Rightarrow>
     (case sc_Add B acc tm of None \<Rightarrow> Inl DkgInvalidShare
      | Some acc' \<Rightarrow>
     (case sc_Mul B pow xs of None \<Rightarrow> Inl DkgInvalidShare
      | Some nxt \<Rightarrow> eval_loop B xs cs acc' nxt)))"

definition evalPolyAt :: "('f, 'p1, 'p2, 'gt) blst \<Rightarrow> 'f option list \<Rightarrow> int \<Rightarrow> dkg_error + 'f" where
  "evalPolyAt B coeffs x =
     (if coeffs = [] \<or> x \<le> 0 then Inl DkgInvalidParams
      else eval_loop B (scalarFromInt B x) coeffs (scalarFromInt B 0) (scalarFromInt B 1))"

definition commitmentsFromPoly :: "('f, 'p1, 'p2, 'gt) blst \<Rightarrow> 'f option list \<Rightarrow> dkg_error + bytes list" where
  "commitmentsFromPoly B coeffs =
     (if coeffs = [] then Inl DkgInvalidParams
      else if None \<in> set coeffs then Inl DkgInvalidParams
      else Inr (map (\<lambda>c. p1_Compress B (p1_Mult B (p1_Generator B) (the c))) coeffs))"

fun commit_loop :: "('f, 'p1 :: ab_group_add, 'p2, 'gt) blst \<Rightarrow> 'f \<Rightarrow> bytes list \<Rightarrow> 'p1 \<Rightarrow> 'f \<Rightarrow> dkg_error + 'p1" where
  "commit_loop B xs [] acc pow = Inr acc"
| "commit_loop B xs (c # cs) acc pow =
     (case p1_Uncompress B c of None \<Rightarrow> Inl DkgInvalidPoint
      | Some p \<Rightarrow>
     (case sc_Mul B pow xs of None \<Rightarrow> Inl DkgInvalidShare
      | Some nxt \<Rightarrow> commit_loop B xs cs (acc + p1_Mult B p pow) nxt))"

definition verifyFeldmanShare :: "('f, 'p1 :: ab_group_add, 'p2, 'gt) blst \<Rightarrow> 'f option \<Rightarrow> int \<Rightarrow> bytes list \<Rightarrow> dkg_error + bool" where
  "verifyFeldmanShare B share x commitments =
     (case share of None \<Rightarrow> Inl DkgInvalidParams
      | Some s \<Rightarrow>
          if x \<le> 0 \<or> commitments = [] then Inl DkgInvalidParams
          else let lhs = p1_Compress B (p1_Mult B (p1_Generator B) s) in
            case commit_loop B (scalarFromInt B x) commitments 0 (scalarFromInt B 1) of
              Inl e \<Rightarrow> Inl e
            | Inr acc \<Rightarrow> Inr (lhs = p1_Compress B acc))"

definition dkg_lagrangeAtZeroScalar :: "('f, 'p1, 'p2, 'gt) blst \<Rightarrow> int \<Rightarrow> int list \<Rightarrow> dkg_error + 'f" where
  "dkg_lagrangeAtZeroScalar B i indices =
     (if i \<le> 0 \<or> indices = [] then Inl DkgInvalidParams
      else lagrange_from (\<lambda>j. j \<le> 0) DkgInvalidParams DkgInvalidShare B i indices)"

record 'f scalarShare =
  ss_Index :: int
  ss_Value :: "'f option"

fun scalar_loop :: "('f, 'p1, 'p2, 'gt) blst \<Rightarrow> int list \<Rightarrow> 'f scalarShare list \<Rightarrow> 'f \<Rightarrow> dkg_error + 'f" where
  "scalar_loop B indices [] acc = Inr acc"
| "scalar_loop B indices (s # ss) acc =
     (case dkg_lagrangeAtZeroScalar B (ss_Index s) indices of Inl e \<Rightarrow> Inl e
      | Inr coeff \<Rightarrow>
     (case sc_Mul B (the (ss_Value s)) coeff of None \<Rightarrow> Inl DkgInvalidShare
      | Some tm \<Rightarrow>
     (case sc_Add B acc tm of None \<Rightarrow> Inl DkgInvalidShare
      | Some acc' \<Rightarrow> scalar_loop B indices ss acc')))"

definition combineScalarSharesAtZero :: "('f, 'p1, 'p2, 'gt) blst \<Rightarrow> 'f scalarShare list \<Rightarrow> int \<Rightarrow> dkg_error + 'f" where
  "combineScalarSharesAtZero B shares k =
     (if k \<le> 0 \<or> int (length shares) < k then Inl DkgInvalidParams
      else let shares = smallest ss_Index (nat k) shares in
        case share_indices ss_Index (\<lambda>s. ss_Value s = None) shares [] of
          None \<Rightarrow> Inl DkgInvalidParams
        | Some indices \<Rightarrow> scalar_loop B indices shares (scalarFromInt B 0))"

section \<open>Key generation in memory\<close>

fun draw_coeffs :: "('f, 'p1, 'p2, 'gt) blst \<Rightarrow> (nat \<Rightarrow> bytes option) \<Rightarrow> nat list \<Rightarrow> dkg_error + 'f list" where
  "draw_coeffs B rd [] = Inr []"
| "draw_coeffs B rd (j # js) =
     (case dkg_randScalar B (rd j) of Inl e \<Rightarrow> Inl e
      | Inr s \<Rightarrow> (case draw_coeffs B rd js of Inl e \<Rightarrow> Inl e | Inr ss \<Rightarrow> Inr (s # ss)))"

fun deal :: "('f, 'p1, 'p2, 'gt) blst \<Rightarrow> (nat \<Rightarrow> nat \<Rightarrow> bytes option) \<Rightarrow> nat \<Rightarrow> nat list \<Rightarrow> dkg_error + ('f list \<times> bytes list) list" where
  "deal B rd t [] = Inr []"
| "deal B rd t (idx # idxs) =
     (case draw_coeffs B (rd idx) [0 ..< t] of Inl e \<Rightarrow> Inl e
      | Inr coeffs \<Rightarrow>
     (case commitmentsFromPoly B (map Some coeffs) of Inl e \<Rightarrow> Inl e
      | Inr com \<Rightarrow> (case deal B rd t idxs of Inl e \<Rightarrow> Inl e | Inr ds \<Rightarrow> Inr ((coeffs, com) # ds))))"

fun sum_keys :: "('f, 'p1 :: ab_group_add, 'p2, 'gt) blst \<Rightarrow> ('f list \<times> bytes list) list \<Rightarrow> 'p1 \<Rightarrow> dkg_error + 'p1" where
  "sum_keys B [] acc = Inr acc"
| "sum_keys B ((coeffs, com) # ds) acc =
     (case p1_Uncompress B (com ! 0) of None \<Rightarrow> Inl DkgInvalidPoint
      | Some p \<Rightarrow> sum_keys B ds (acc + p))"

fun receive_shares :: "('f, 'p1 :: ab_group_add, 'p2, 'gt) blst \<Rightarrow> int \<Rightarrow> ('f list \<times> bytes list) list \<Rightarrow> 'f \<Rightarrow> dkg_error + 'f" where
  "receive_shares B i [] sm = Inr sm"
| "receive_shares B i ((coeffs, com) # ds) sm =
     (case evalPolyAt B (map Some coeffs) i of Inl e \<Rightarrow> Inl e
      | Inr si \<Rightarrow>
     (case verifyFeldmanShare B (Some si) i com of Inl e \<Rightarrow> Inl e
      | Inr ok \<Rightarrow>
          if \<not> ok then Inl DkgInvalidShare
          else (case sc_Add B sm si of None \<Rightarrow> Inl DkgInvalidShare
                | Some sm' \<Rightarrow> receive_shares B i ds sm')))"

fun all_shares :: "('f, 'p1 :: ab_group_add, 'p2, 'gt) blst \<Rightarrow> ('f list \<times> bytes list) list \<Rightarrow> nat list \<Rightarrow> (nat \<rightharpoonup> bytes)
    \<Rightarrow> dkg_error + (nat \<rightharpoonup> bytes)" where
  "all_shares B ds [] shares = Inr shares"
| "all_shares B ds (i # is) shares =
     (case receive_shares B (int i) ds (scalarFromInt B 0) of Inl e \<Rightarrow> Inl e
      | Inr sm \<Rightarrow> all_shares B ds is (shares(i \<mapsto> sc_Serialize B sm)))"

definition SimulateFeldmanDKG :: "('f, 'p1 :: ab_group_add, 'p2, 'gt) blst \<Rightarrow> (nat \<Rightarrow> nat \<Rightarrow> bytes option) \<Rightarrow> int \<Rightarrow> int
    \<Rightarrow> dkg_error + bytes \<times> (nat \<rightharpoonup> bytes)" where
  "SimulateFeldmanDKG B rd n t =
     (if n \<le> 0 \<or> t \<le> 0 \<or> t > n then Inl DkgInvalidParams
      else case deal B rd (nat t) [1 ..< nat n + 1] of Inl e \<Rightarrow> Inl e
      | Inr dealers \<Rightarrow>
     (case sum_keys B dealers 0 of Inl e \<Rightarrow> Inl e
      | Inr acc \<Rightarrow>
     (case all_shares B dealers [1 ..< nat n + 1] Map.empty of Inl e \<Rightarrow> Inl e
      | Inr shares \<Rightarrow> Inr (p1_Compress B acc, shares))))"

section \<open>Shares and commitments\<close>

lemma eval_loop_value:
  assumes "scalar_ok N B" and "eval_loop B x (map Some cs) acc pow = Inr v"
  shows "v = acc + pow * horner cs x"
  using assms(2)
proof (induction cs arbitrary: acc pow)
  case (Cons c cs)
  then obtain tm acc' nxt where *: "sc_Mul B c pow = Some tm" "sc_Add B acc tm = Some acc'" "sc_Mul B pow x = Some nxt"
      "eval_loop B x (map Some cs) acc' nxt = Inr v"
    by (auto split: option.splits)
  have "tm = c * pow" "acc' = acc + tm" "nxt = pow * x"
    using checked_Some [OF scalar_okD(3) [OF assms(1)] *(1)] checked_Some [OF scalar_okD(1) [OF assms(1)] *(2)]
      checked_Some [OF scalar_okD(3) [OF assms(1)] *(3)] by blast+
  with Cons.IH [OF *(4)] show ?case by (simp add: algebra_simps)
qed simp

lemma scalar_consts:
  assumes "scalar_ok N B" and "1 \<le> N"
  shows "scalarFromInt B 0 = 0" and "scalarFromInt B 1 = 1" and "idx_ok N x \<Longrightarrow> scalarFromInt B x = of_int x"
  using scalarFromInt_ok [OF assms(1), of 0] scalarFromInt_ok [OF assms(1), of 1] scalarFromInt_ok [OF assms(1), of x] assms(2)
  by (simp_all add: idx_ok_def)

lemma evalPolyAt_value:
  assumes "scalar_ok N B" and "1 \<le> N" and "idx_ok N x" and "evalPolyAt B (map Some cs) x = Inr v"
  shows "v = horner cs (of_int x)"
  using assms(4) eval_loop_value [OF assms(1), of "of_int x" cs 0 1 v] scalar_consts [OF assms(1,2)] assms(3)
  by (simp add: evalPolyAt_def split: if_splits)

lemma commit_loop_ok:
  assumes "scalar_ok N B" and "g1_ok B" and "x \<noteq> 0" and "pow \<noteq> 0"
  shows "commit_loop B x (map (\<lambda>c. p1_Compress B (g1 B c)) cs) (g1 B a) pow = Inr (g1 B (a + pow * horner cs x))"
  using assms(4)
proof (induction cs arbitrary: a pow)
  case (Cons c cs)
  have "sc_Mul B pow x = Some (pow * x)"
    by (rule checked_nonzero [OF scalar_okD(3) [OF assms(1)]]) (use Cons.prems assms(3) in simp)
  with Cons show ?case
    using assms(3) by (simp add: g1_okD(1,2,4) [OF assms(2)] algebra_simps)
qed simp

lemma verify_iff:
  assumes "scalar_ok N B" and "g1_ok B" and "1 \<le> N" and "idx_ok N x"
    and "commitmentsFromPoly B (map Some cs) = Inr com"
  shows "verifyFeldmanShare B (Some s) x com = Inr (s = horner cs (of_int x))"
proof -
  have com: "com = map (\<lambda>c. p1_Compress B (g1 B c)) cs" "cs \<noteq> []"
    using assms(5) by (auto simp: commitmentsFromPoly_def comp_def split: if_splits)
  have "of_int x \<noteq> (0 :: 'a)" using of_int_nonzero [OF assms(1)] assms(4) by (simp add: idx_ok_def)
  from commit_loop_ok [OF assms(1,2) this one_neq_zero, of cs 0]
  have "commit_loop B (of_int x) com 0 1 = Inr (g1 B (horner cs (of_int x)))"
    by (simp add: com(1) pgroup_zero [OF g1_group [OF assms(2)]])
  moreover have "p1_Compress B (g1 B s) = p1_Compress B (g1 B (horner cs (of_int x))) \<longleftrightarrow> s = horner cs (of_int x)"
    using compress_inj [OF g1_group [OF assms(2)]] by blast
  ultimately show ?thesis
    using com assms(4) scalar_consts [OF assms(1,3)] by (simp add: verifyFeldmanShare_def idx_ok_def)
qed

text \<open>
  C18: A share is accepted against a dealer's commitments exactly when it is the value of the
  dealer's polynomial at the receiver's index; the check never fails with an error there.
\<close>

theorem feldman_share_verified_iff:
  assumes "scalar_ok N B" and "g1_ok B" and "1 \<le> N" and "idx_ok N x"
    and "commitmentsFromPoly B (map Some cs) = Inr com"
  shows "verifyFeldmanShare B (Some s) x com = Inr (s = horner cs (of_int x))
     \<and> (\<forall>v. evalPolyAt B (map Some cs) x = Inr v \<longrightarrow> verifyFeldmanShare B (Some v) x com = Inr True)"
  using verify_iff [OF assms] evalPolyAt_value [OF assms(1,3,4)] by auto

theorem feldman_share_verified_iff_witness:
  "\<exists>com. commitmentsFromPoly small_blst (map Some [F2, F1]) = Inr com \<and>
     verifyFeldmanShare small_blst (Some F4) 2 com = Inr True \<and> verifyFeldmanShare small_blst (Some F3) 2 com = Inr False"
proof -
  obtain com where com: "commitmentsFromPoly small_blst (map Some [F2, F1]) = Inr com"
    by (simp add: commitmentsFromPoly_def)
  have "horner [F2, F1] (of_int 2) = F4"
    by (simp add: f5_numerals plus_f5_def times_f5_def nat_f5_def zero_f5_def Let_def)
  then show ?thesis
    using com feldman_share_verified_iff [OF small_scalar_ok small_g1_ok _ _ com, of 2]
    by (simp add: idx_ok_def del: horner.simps)
qed

section \<open>Recombination\<close>

lemma scalar_loop_value:
  assumes "scalar_ok N B" and "\<forall>s \<in> set ss. dkg_lagrangeAtZeroScalar B (ss_Index s) js = Inr (c s) \<and> ss_Value s = Some (v s)"
    and "scalar_loop B js ss acc = Inr r"
  shows "r = acc + (\<Sum>s \<leftarrow> ss. v s * c s)"
  using assms(2,3)
proof (induction ss arbitrary: acc)
  case (Cons s ss)
  then obtain tm acc' where *: "sc_Mul B (v s) (c s) = Some tm" "sc_Add B acc tm = Some acc'" "scalar_loop B js ss acc' = Inr r"
    by (auto split: option.splits)
  have "acc' = acc + v s * c s"
    using checked_Some [OF scalar_okD(3) [OF assms(1)] *(1)] checked_Some [OF scalar_okD(1) [OF assms(1)] *(2)] by simp
  with Cons.IH [OF _ *(3)] Cons.prems(1) show ?case by (simp add: add.assoc)
qed simp

text \<open>
  What scalar recombination returns is the secret: the constant term of the polynomial whose
  values the shares are, for any choice of enough shares. (It may also refuse: a partial sum
  that is zero is reported as an invalid share.)
\<close>

theorem scalar_shares_recombine:
  assumes "scalar_ok N (B :: ('f :: field, 'p1, 'p2, 'gt) blst)" and "1 \<le> N" and "int (length cs) \<le> k"
    and "distinct (map ss_Index ss)" and "\<forall>s \<in> set ss. idx_ok N (ss_Index s)"
    and "\<forall>s \<in> set ss. ss_Value s = Some (horner cs (of_int (ss_Index s)))"
    and "combineScalarSharesAtZero B ss k = Inr v"
  shows "v = horner cs 0"
proof -
  define sel where "sel = smallest ss_Index (nat k) ss"
  have k: "0 < k" "k \<le> int (length ss)" using assms(7) by (auto simp: combineScalarSharesAtZero_def split: if_splits)
  have sub: "set sel \<subseteq> set ss" unfolding sel_def by (rule set_smallest)
  have len: "length sel = nat k" unfolding sel_def using k by (intro length_smallest) simp
  have dist: "distinct (map ss_Index sel)" unfolding sel_def by (rule distinct_smallest) fact
  have idx: "\<forall>s \<in> set sel. idx_ok N (ss_Index s)" using sub assms(5) by blast
  have "\<forall>s \<in> set sel. 0 < ss_Index s \<and> \<not> ss_Value s = None" using idx sub assms(6) by (auto simp: idx_ok_def)
  then have "share_indices ss_Index (\<lambda>s. ss_Value s = None) sel [] = Some (map ss_Index sel)"
    using share_indices_ok [of sel ss_Index _ "[]"] dist by simp
  then have loop: "scalar_loop B (map ss_Index sel) sel 0 = Inr v"
    using assms(7) k scalar_consts(1) [OF assms(1,2)]
    by (simp add: combineScalarSharesAtZero_def sel_def Let_def)
  let ?l = "\<lambda>s. lag (of_int ` set (map ss_Index sel)) (of_int (ss_Index s)) 0"
  have "dkg_lagrangeAtZeroScalar B (ss_Index s) (map ss_Index sel) = Inr (?l s)" if "s \<in> set sel" for s
  proof -
    have "lagrange_from (\<lambda>j. j \<le> 0) DkgInvalidParams DkgInvalidShare B (ss_Index s) (map ss_Index sel) = Inr (?l s)"
      by (rule lagrange_from_ok [OF assms(1,2)]) (use idx that dist in \<open>auto simp: idx_ok_def\<close>)
    then show ?thesis using idx that by (auto simp: dkg_lagrangeAtZeroScalar_def idx_ok_def)
  qed
  then have "\<forall>s \<in> set sel. dkg_lagrangeAtZeroScalar B (ss_Index s) (map ss_Index sel) = Inr (?l s)
      \<and> ss_Value s = Some (horner cs (of_int (ss_Index s)))" using sub assms(6) by blast
  from scalar_loop_value [OF assms(1) this loop] lagrange_shares [OF assms(1) idx dist, of cs] len k(1) assms(3)
  show ?thesis by (simp add: nat_le_iff flip: length_0_conv)
qed

theorem scalar_shares_recombine_witness:
  "combineScalarSharesAtZero small_blst [\<lparr>ss_Index = 2, ss_Value = Some F4\<rparr>, \<lparr>ss_Index = 1, ss_Value = Some F3\<rparr>] 2 = Inr F2"
proof -
  let ?ss = "[\<lparr>ss_Index = 2, ss_Value = Some F4\<rparr>, \<lparr>ss_Index = 1, ss_Value = Some F3\<rparr>]"
  have "scalarFromInt small_blst 0 = F0" "scalarFromInt small_blst 1 = F1" "scalarFromInt small_blst 2 = F2"
    using scalar_consts(1,2) [OF small_scalar_ok] scalar_consts(3) [OF small_scalar_ok, of 2] by (simp_all add: idx_ok_def f5_numerals zero_f5_def one_f5_def)
  note small = this small_ops f5_ops
  have "\<exists>v. combineScalarSharesAtZero small_blst ?ss 2 = Inr v"
    by (simp add: combineScalarSharesAtZero_def smallest_def dkg_lagrangeAtZeroScalar_def lagrange_from_def small)
  then obtain v where v: "combineScalarSharesAtZero small_blst ?ss 2 = Inr v" by blast
  have "horner [F2, F1] 1 = F3" "horner [F2, F1] 2 = F4"
    by (simp_all add: f5_numerals f5_ops)
  with scalar_shares_recombine [OF small_scalar_ok _ _ _ _ _ v, of "[F2, F1]"] v show ?thesis
    by (simp add: idx_ok_def del: horner.simps)
qed

section \<open>The key generation\<close>

lemma draw_coeffs_length: "draw_coeffs B rd js = Inr cs \<Longrightarrow> length cs = length js"
  by (induction js arbitrary: cs) (auto split: sum.splits)

lemma deal_dealers:
  "deal B rd t idxs = Inr ds \<Longrightarrow> length ds = length idxs \<and>
     (\<forall>(coeffs, com) \<in> set ds. length coeffs = t \<and> commitmentsFromPoly B (map Some coeffs) = Inr com)"
  by (induction idxs arbitrary: ds) (fastforce split: sum.splits dest: draw_coeffs_length)+

text \<open>The joint polynomial of the dealers.\<close>

definition joint :: "('f :: field list \<times> bytes list) list \<Rightarrow> 'f list" where
  "joint ds = foldr (\<lambda>d. poly_add (fst d)) ds []"

lemma joint_value: "horner (joint ds) x = (\<Sum>d \<leftarrow> ds. horner (fst d) x)"
  by (induction ds) (simp_all add: joint_def)

lemma joint_length: "\<forall>d \<in> set ds. length (fst d) = t \<Longrightarrow> length (joint ds) \<le> t"
  by (induction ds) (simp_all add: joint_def)

lemma sum_keys_value:
  assumes "g1_ok B" and "\<forall>(coeffs, com) \<in> set ds. commitmentsFromPoly B (map Some coeffs) = Inr com"
  shows "sum_keys B ds (g1 B a) = Inr (g1 B (a + horner (joint ds) 0))"
  using assms(2)
proof (induction ds arbitrary: a)
  case (Cons d ds)
  obtain c cs com where d: "d = (c # cs, com)" "com = p1_Compress B (g1 B c) # map (\<lambda>c. p1_Compress B (g1 B c)) cs"
    using Cons.prems by (cases d; cases "fst d") (auto simp: commitmentsFromPoly_def comp_def split: if_splits)
  then show ?case
    using Cons by (simp add: g1_okD(2,4) [OF assms(1)] joint_value add.assoc del: horner_zero)
qed (simp add: joint_def)

lemma receive_shares_value:
  assumes "scalar_ok N B" and "1 \<le> N" and "idx_ok N i" and "receive_shares B i ds sm = Inr v"
  shows "v = sm + horner (joint ds) (of_int i)"
  using assms(4)
proof (induction ds arbitrary: sm)
  case (Cons d ds)
  obtain coeffs com where d: "d = (coeffs, com)" by (cases d)
  with Cons.prems obtain si sm' where *: "evalPolyAt B (map Some coeffs) i = Inr si" "sc_Add B sm si = Some sm'"
      "receive_shares B i ds sm' = Inr v"
    by (auto split: sum.splits option.splits if_splits)
  have "sm' = sm + horner coeffs (of_int i)"
    using evalPolyAt_value [OF assms(1-3) *(1)] checked_Some [OF scalar_okD(1) [OF assms(1)] *(2)] by simp
  with Cons.IH [OF *(3)] d show ?case by (simp add: joint_value add.assoc)
qed (simp add: joint_def)

lemma all_shares_value:
  assumes "scalar_ok N B" and "1 \<le> N" and "\<forall>i \<in> set is. idx_ok N (int i)" and "all_shares B ds is m = Inr shares"
  shows "shares j = (if j \<in> set is then Some (sc_Serialize B (horner (joint ds) (of_int (int j)))) else m j)"
  using assms(3,4)
proof (induction "is" arbitrary: m)
  case (Cons i "is")
  then obtain sm where *: "receive_shares B (int i) ds 0 = Inr sm" "all_shares B ds is (m(i \<mapsto> sc_Serialize B sm)) = Inr shares"
    using scalar_consts(1) [OF assms(1,2)] by (auto split: sum.splits)
  have "sm = horner (joint ds) (of_int (int i))"
    using receive_shares_value [OF assms(1,2) _ *(1)] Cons.prems(1) by simp
  with Cons.IH [OF _ *(2)] Cons.prems(1) show ?case by simp
qed simp

lemma dkg_outcome:
  assumes "scalar_ok N (B :: ('f :: field, 'p1 :: ab_group_add, 'p2, 'gt) blst)" and "g1_ok B" and "1 \<le> N"
    and "n \<le> int N" and "n < 2 ^ 63" and "SimulateFeldmanDKG B rd n t = Inr (pk, shares)"
  shows "\<exists>cs :: 'f list. int (length cs) \<le> t \<and> 0 < t \<and> t \<le> n \<and> pk = p1_Compress B (g1 B (horner cs 0))
     \<and> (\<forall>j. shares j = (if 1 \<le> j \<and> int j \<le> n then Some (sc_Serialize B (horner cs (of_int (int j)))) else None))"
proof -
  obtain ds acc where *: "0 < n" "0 < t" "t \<le> n" "deal B rd (nat t) [1 ..< nat n + 1] = Inr ds" "sum_keys B ds 0 = Inr acc"
      "all_shares B ds [1 ..< nat n + 1] Map.empty = Inr shares" "pk = p1_Compress B acc"
    using assms(6) by (auto simp: SimulateFeldmanDKG_def split: if_splits sum.splits)
  have ds: "\<forall>(coeffs, com) \<in> set ds. length coeffs = nat t \<and> commitmentsFromPoly B (map Some coeffs) = Inr com"
    using deal_dealers [OF *(4)] by simp
  have "sum_keys B ds (g1 B 0) = Inr (g1 B (0 + horner (joint ds) 0))"
    by (rule sum_keys_value [OF assms(2)]) (use ds in auto)
  then have "pk = p1_Compress B (g1 B (horner (joint ds) 0))"
    using *(5,7) by (simp add: pgroup_zero [OF g1_group [OF assms(2)]])
  moreover have "\<forall>i \<in> set [1 ..< nat n + 1]. idx_ok N (int i)" using assms(4,5) by (auto simp: idx_ok_def)
  note all_shares_value [OF assms(1,3) this *(6)]
  moreover have "length (joint ds) \<le> nat t" by (rule joint_length) (use ds in auto)
  ultimately show ?thesis using *(1-3) by (intro exI [of _ "joint ds"]) (auto simp del: horner_zero)
qed

section \<open>The small instance\<close>

lemma small_points:
  "p1_Generator small_blst = F1" "p1_Mult small_blst a b = a * b" "p1_Compress small_blst a = f5_bytes 48 a"
  "p1_Uncompress small_blst bs = Some (bytes_f5 bs)" "sk_KeyGen small_blst [1] = Some F1"
  by (simp_all add: small_blst_def bytes_f5_def nat_f5_def zero_f5_def be_val_simps)

lemma small_scalars:
  "scalarFromInt small_blst 0 = F0" "scalarFromInt small_blst 1 = F1" "scalarFromInt small_blst 2 = F2"
  using scalar_consts(1,2) [OF small_scalar_ok] scalar_consts(3) [OF small_scalar_ok, of 2]
  by (simp_all add: idx_ok_def f5_numerals zero_f5_def one_f5_def)

lemma f5_bytes_inj [simp]: "f5_bytes l a = f5_bytes l b \<longleftrightarrow> a = b"
  by (metis bytes_f5_bytes)

end
