(* ===== verification/Beast_Engine.thy ===== *)
theory Beast_Engine
  imports Tss_Stores
begin

text \<open>
  The process-wide engine of \<^verbatim>\<open>internal/beast\<close>: the disabled engine, the symmetric AES-GCM
  engine of the build tag \<^verbatim>\<open>beast\<close>, and the partial and aggregate decryption built on it.
  \<open>tag\<close> says whether the binary was built with the tag; SHA-256, AES-GCM and the nonce read
  from \<^verbatim>\<open>crypto/rand\<close> are arguments.
\<close>

section \<open>Operations\<close>

datatype beast_error = ErrNotEnabled | BeastCipher | BeastRandom | BeastShort | BeastAuth | BeastInconsistent

datatype engine = noopEngine | symmetricEngine bytes

definition SetEngine :: "engine option \<Rightarrow> engine \<Rightarrow> engine" where
  "SetEngine e current = (case e of None \<Rightarrow> noopEngine | Some e \<Rightarrow> e)"

definition NewSymmetricEngine :: "bool \<Rightarrow> (bytes \<Rightarrow> bytes) \<Rightarrow> bytes \<Rightarrow> engine" where
  "NewSymmetricEngine tag sha key =
     (if \<not> tag then noopEngine
      else if key = [] then noopEngine else symmetricEngine (sha key))"

fun beast_Encrypt :: "(bytes \<Rightarrow> aead option) \<Rightarrow> bytes option \<Rightarrow> engine \<Rightarrow> bytes \<Rightarrow> beast_error + bytes" where
  "beast_Encrypt aes rd noopEngine msg = Inl ErrNotEnabled"
| "beast_Encrypt aes rd (symmetricEngine key) msg =
     (case aes key of None \<Rightarrow> Inl BeastCipher
      | Some gcm \<Rightarrow>
          (case rd of None \<Rightarrow> Inl BeastRandom
           | Some nonce \<Rightarrow> Inr (nonce @ seal gcm nonce msg)))"

fun beast_Decrypt :: "(bytes \<Rightarrow> aead option) \<Rightarrow> engine \<Rightarrow> bytes \<Rightarrow> beast_error + bytes" where
  "beast_Decrypt aes noopEngine ciphertext = Inl ErrNotEnabled"
| "beast_Decrypt aes (symmetricEngine key) ciphertext =
     (case aes key of None \<Rightarrow> Inl BeastCipher
      | Some gcm \<Rightarrow>
          if length ciphertext < 12 then Inl BeastShort
          else (case aopen gcm (take 12 ciphertext) (drop 12 ciphertext) of
                  None \<Rightarrow> Inl BeastAuth | Some m \<Rightarrow> Inr m))"

definition beast_PartialDecrypt :: "bool \<Rightarrow> (bytes \<Rightarrow> aead option) \<Rightarrow> engine \<Rightarrow> bytes \<Rightarrow> beast_error + bytes" where
  "beast_PartialDecrypt tag aes current c = (if tag then beast_Decrypt aes current c else Inl ErrNotEnabled)"

fun aggregate_loop :: "bytes list \<Rightarrow> bytes option \<Rightarrow> beast_error + bytes option" where
  "aggregate_loop [] base = Inr base"
| "aggregate_loop (p # ps) base =
     (if p = [] then aggregate_loop ps base
      else case base of
        None \<Rightarrow> aggregate_loop ps (Some p)
      | Some b \<Rightarrow> if b \<noteq> p then Inl BeastInconsistent else aggregate_loop ps base)"

definition AggregateDecrypt :: "bool \<Rightarrow> bytes list \<Rightarrow> beast_error + bytes" where
  "AggregateDecrypt tag parts =
     (if \<not> tag then Inl ErrNotEnabled
      else if parts = [] then Inl ErrNotEnabled
      else case aggregate_loop parts None of
        Inl e \<Rightarrow> Inl e
      | Inr None \<Rightarrow> Inl ErrNotEnabled
      | Inr (Some base) \<Rightarrow> Inr base)"

section \<open>Properties\<close>

definition aes_ok :: "(bytes \<Rightarrow> aead option) \<Rightarrow> bool" where
  "aes_ok aes \<longleftrightarrow> (\<forall>key gcm. aes key = Some gcm \<longrightarrow> aead_ok gcm)"

lemma sym_roundtrip:
  assumes "aes_ok aes" and "length nonce = 12" and "beast_Encrypt aes (Some nonce) e msg = Inr c"
  shows "beast_Decrypt aes e c = Inr msg"
  using assms by (cases e) (auto simp: aes_ok_def aead_ok_def split: option.splits)

lemma aggregate_loop_iff:
  "base \<noteq> Some [] \<Longrightarrow> aggregate_loop ps base = Inr (Some m) \<longleftrightarrow>
     m \<noteq> [] \<and> (\<forall>p \<in> set ps. p = [] \<or> p = m) \<and> (base = Some m \<or> base = None \<and> m \<in> set ps)"
  by (induction ps arbitrary: base) (auto split: option.splits)

text \<open>
  Aggregation returns a plaintext exactly when some share is non-empty and all non-empty
  shares are that plaintext.
\<close>

theorem aggregate_unanimous:
  "AggregateDecrypt True parts = Inr m \<longleftrightarrow> m \<noteq> [] \<and> m \<in> set parts \<and> set parts \<subseteq> {[], m}"
proof -
  have "AggregateDecrypt True parts = Inr m \<longleftrightarrow> parts \<noteq> [] \<and> aggregate_loop parts None = Inr (Some m)"
    by (auto simp: AggregateDecrypt_def split: sum.splits option.splits)
  then show ?thesis by (auto simp: aggregate_loop_iff)
qed

text \<open>
  Every participant holding the group key decrypts what the engine encrypted, and the
  aggregate of their shares is the message.
\<close>

theorem symmetric_shares_aggregate:
  assumes "aes_ok aes" and "length nonce = 12" and "msg \<noteq> []" and "0 < n"
    and "beast_Encrypt aes (Some nonce) (NewSymmetricEngine True sha key) msg = Inr c"
  shows "\<exists>sh. beast_PartialDecrypt True aes (NewSymmetricEngine True sha key) c = Inr sh
     \<and> AggregateDecrypt True (replicate n sh) = Inr msg"
proof -
  have "beast_PartialDecrypt True aes (NewSymmetricEngine True sha key) c = Inr msg"
    using sym_roundtrip [OF assms(1,2,5)] by (simp add: beast_PartialDecrypt_def)
  moreover have "aggregate_loop (replicate n msg) None = Inr (Some msg)"
    using assms(3,4) by (simp add: aggregate_loop_iff)
  ultimately show ?thesis using assms(4) by (auto simp: AggregateDecrypt_def)
qed

theorem symmetric_shares_aggregate_witness:
  "\<exists>c sh. beast_Encrypt (\<lambda>_. Some demo_aead) (Some (replicate 12 5)) (NewSymmetricEngine True id [1, 2]) [10, 20] = Inr c
     \<and> beast_PartialDecrypt True (\<lambda>_. Some demo_aead) (NewSymmetricEngine True id [1, 2]) c = Inr sh
     \<and> AggregateDecrypt True (replicate 3 sh) = Inr [10, 20]"
proof -
  obtain c where c: "beast_Encrypt (\<lambda>_. Some demo_aead) (Some (replicate 12 5)) (NewSymmetricEngine True id [1, 2]) [10, 20] = Inr c"
    by (simp add: NewSymmetricEngine_def)
  from symmetric_shares_aggregate [OF _ _ _ _ c, of 3] c show ?thesis by (auto simp: aes_ok_def demo_aead_ok)
qed

end
