(* ===== verification/Ibe.thy ===== *)
theory Ibe
  imports Blst Beast_Engine
begin

text \<open>
  Identity-based threshold encryption, \<^verbatim>\<open>internal/beast/ibe/ibe_blst.go\<close>: a message is
  encrypted to a block height, every committee member derives a share of the key for that
  height, and any \<open>k\<close> shares give the key. \<^verbatim>\<open>crypto/sha256\<close>, AES-GCM (\<^verbatim>\<open>aes.NewCipher\<close> with
  \<^verbatim>\<open>cipher.NewGCM\<close>) and the bytes read from \<^verbatim>\<open>crypto/rand\<close> are arguments; \<open>None\<close> is a failed
  read.
\<close>

section \<open>Operations\<close>

datatype ibe_error = IbeInvalidPoint | IbeInvalidShare | IbeRandom | IbeBadRandomness | IbeCipher | IbeShort | IbeAuth

definition ascii_bytes :: "string \<Rightarrow> bytes" where
  "ascii_bytes s = map (\<lambda>c. of_nat (of_char c)) s"

definition hashDST :: bytes where
  "hashDST = ascii_bytes ''EQS/BEAST/v1/IBE''"

definition IdentityForHeight :: "u64 \<Rightarrow> bytes" where
  "IdentityForHeight height = hashDST @ [0] @ put_be 8 height"

record ibe_share =
  Index :: int
  Value :: bytes

definition DeriveShare :: "('f, 'p1, 'p2, 'gt) blst \<Rightarrow> bytes \<Rightarrow> bytes \<Rightarrow> ibe_error + bytes" where
  "DeriveShare B shareScalar i =
     (if shareScalar = [] then Inl IbeInvalidShare
      else case sc_Deserialize B shareScalar of
        None \<Rightarrow> Inl IbeInvalidShare
      | Some sk \<Rightarrow> Inr (p2_Compress B (p2_Mult B (HashToG2 B i hashDST) sk)))"

definition lagrangeAtZero :: "('f, 'p1, 'p2, 'gt) blst \<Rightarrow> int \<Rightarrow> int list \<Rightarrow> ibe_error + 'f" where
  "lagrangeAtZero = lagrange_from (\<lambda>_. False) IbeInvalidShare IbeInvalidShare"

text \<open>
  \<^verbatim>\<open>sort.Slice\<close> may leave shares of equal index in either order; here they stay as they
  were given. The theorems below are about shares of distinct indices, whose sorted order is unique.
\<close>

definition CombineShares :: "('f, 'p1, 'p2 :: ab_group_add, 'gt) blst \<Rightarrow> ibe_share list \<Rightarrow> int \<Rightarrow> ibe_error + bytes" where
  "CombineShares B shares k =
     (if k \<le> 0 then Inl IbeInvalidShare
      else if int (length shares) < k then Inl IbeInvalidShare
      else let shares = smallest Index (nat k) shares in
        case share_indices Index (\<lambda>s. Value s = []) shares [] of
          None \<Rightarrow> Inl IbeInvalidShare
        | Some indices \<Rightarrow>
            (case combine_loop (\<lambda>i. lagrangeAtZero B i indices) IbeInvalidPoint (p2_Mult B) (p2_Uncompress B)
                    Index Value shares 0 of
               Inl e \<Rightarrow> Inl e
             | Inr acc \<Rightarrow> Inr (p2_Compress B acc)))"

definition ibe_Encrypt :: "('f, 'p1, 'p2, 'gt) blst \<Rightarrow> (bytes \<Rightarrow> bytes) \<Rightarrow> (bytes \<Rightarrow> aead option) \<Rightarrow> bytes option \<Rightarrow> bytes option
    \<Rightarrow> bytes \<Rightarrow> bytes \<Rightarrow> bytes \<Rightarrow> ibe_error + bytes \<times> bytes" where
  "ibe_Encrypt B sha aes ikm nonce groupPubKey i msg =
     (case p1_Uncompress B groupPubKey of None \<Rightarrow> Inl IbeInvalidPoint
      | Some pk \<Rightarrow>
     (case ikm of None \<Rightarrow> Inl IbeRandom
      | Some ikm \<Rightarrow>
     (case sk_KeyGen B ikm of None \<Rightarrow> Inl IbeBadRandomness
      | Some r \<Rightarrow>
          let uBytes = p1_Compress B (p1_Mult B (p1_Generator B) r);
              h = HashToG2 B i hashDST;
              key = sha (ToBendian B (Miller B h (p1_Mult B pk r)))
          in case aes key of None \<Rightarrow> Inl IbeCipher
             | Some gcm \<Rightarrow>
                 (case nonce of None \<Rightarrow> Inl IbeRandom
                  | Some nonce \<Rightarrow> Inr (uBytes, nonce @ seal gcm nonce msg)))))"

definition ibe_Decrypt :: "('f, 'p1, 'p2, 'gt) blst \<Rightarrow> (bytes \<Rightarrow> bytes) \<Rightarrow> (bytes \<Rightarrow> aead option)
    \<Rightarrow> bytes \<Rightarrow> bytes \<Rightarrow> bytes \<Rightarrow> ibe_error + bytes" where
  "ibe_Decrypt B sha aes privKey ephemeralKey ciphertext =
     (case p2_Uncompress B privKey of None \<Rightarrow> Inl IbeInvalidPoint
      | Some sk \<Rightarrow>
     (case p1_Uncompress B ephemeralKey of None \<Rightarrow> Inl IbeInvalidPoint
      | Some u \<Rightarrow>
     (case aes (sha (ToBendian B (Miller B sk u))) of None \<Rightarrow> Inl IbeCipher
      | Some gcm \<Rightarrow>
          if length ciphertext < 12 then Inl IbeShort
          else case aopen gcm (take 12 ciphertext) (drop 12 ciphertext) of
            None \<Rightarrow> Inl IbeAuth
          | Some m \<Rightarrow> Inr m)))"

section \<open>Identities\<close>

lemma IdentityForHeight_inj: "IdentityForHeight a = IdentityForHeight b \<longleftrightarrow> a = b"
proof
  assume "IdentityForHeight a = IdentityForHeight b"
  then have "put_be 8 a = put_be 8 b" by (simp add: IdentityForHeight_def)
  then have "get_be (put_be 8 a) = (get_be (put_be 8 b) :: u64)" by simp
  then show "a = b" by simp
qed simp

section \<open>Combining\<close>

lemma DeriveShare_point:
  assumes "scalar_ok N B" and "g2_ok B" and "HashToG2 B i hashDST = g2 B h"
    and "DeriveShare B (sc_Serialize B a) i = Inr v"
  shows "v = p2_Compress B (g2 B (h * a))"
proof -
  obtain sk where "sc_Deserialize B (sc_Serialize B a) = Some sk" "v = p2_Compress B (p2_Mult B (g2 B h) sk)"
    using assms(3,4) by (auto simp: DeriveShare_def split: if_splits option.splits)
  moreover have "sk = a" using checked_Some [OF scalar_okD(5) [OF assms(1)]] calculation(1) .
  ultimately show ?thesis by (simp add: g2_okD(1) [OF assms(2)])
qed

lemma CombineShares_key:
  assumes "scalar_ok N B" and "g2_ok B" and "1 \<le> N" and "HashToG2 B i hashDST = g2 B h"
    and "0 < k" and "k \<le> int (length ss)" and "int (length cs) \<le> k"
    and "distinct (map Index ss)" and "\<forall>s \<in> set ss. idx_ok N (Index s)"
    and "\<forall>s \<in> set ss. DeriveShare B (sc_Serialize B (horner cs (of_int (Index s)))) i = Inr (Value s)"
  shows "CombineShares B ss k = Inr (p2_Compress B (g2 B (h * horner cs 0)))"
proof -
  have pts: "\<forall>s \<in> set ss. Value s = p2_Compress B (g2 B (h * horner cs (of_int (Index s))))"
    using assms(10) DeriveShare_point [OF assms(1,2,4)] by blast
  then have "\<forall>s \<in> set ss. length (Value s) = 96" using g2_okD(5) [OF assms(2)] by simp
  then have "\<forall>s \<in> set ss. Value s = p2_Compress B (g2 B (h * horner cs (of_int (Index s)))) \<and> \<not> Value s = []"
    using pts by fastforce
  note comb = combine_smallest [OF assms(1) g2_group [OF assms(2)] assms(3,5-9) this]
  show ?thesis
    using assms(5,6) by (simp add: CombineShares_def comb(1) comb(2) lagrangeAtZero_def)
qed

lemma ibe_roundtrip:
  assumes "scalar_ok N B" and "g1_ok B" and "g2_ok B" and "pairing_ok B" and "HashToG2 B i hashDST = g2 B h"
    and "aes_ok aes" and "length nonce = 12"
    and "ibe_Encrypt B sha aes ikm (Some nonce) (p1_Compress B (g1 B s)) i msg = Inr (u, ct)"
  shows "ibe_Decrypt B sha aes (p2_Compress B (g2 B (h * s))) u ct = Inr msg"
proof -
  obtain r gcm where u: "u = p1_Compress B (g1 B r)" and ct: "ct = nonce @ seal gcm nonce msg"
    and gcm: "aes (sha (ToBendian B (Miller B (g2 B h) (p1_Mult B (g1 B s) r)))) = Some gcm"
    using assms(5,8) by (auto simp: ibe_Encrypt_def Let_def g1_okD(4) [OF assms(2)] split: option.splits)
  have "Miller B (g2 B h) (p1_Mult B (g1 B s) r) = Miller B (g2 B (h * s)) (g1 B r)"
    using pairing_okD [OF assms(4), of h "s * r"] pairing_okD [OF assms(4), of "h * s" r]
    by (simp only: g1_okD(1) [OF assms(2)] mult.assoc)
  moreover have "aead_ok gcm" using assms(6) gcm by (simp add: aes_ok_def)
  ultimately show ?thesis
    using gcm assms(7)
    by (simp add: ibe_Decrypt_def u ct g1_okD(4) [OF assms(2)] g2_okD(4) [OF assms(3)] aead_ok_def)
qed

text \<open>
  Threshold decryption. Take a secret polynomial with at most \<open>k\<close> coefficients, the group key
  of its constant term, and the shares of any committee members with distinct indices, at
  least \<open>k\<close> of them. What was encrypted to an identity under the group key is decrypted by
  the key that \<^verbatim>\<open>CombineShares\<close> makes of the members' shares for that identity.
\<close>

theorem ibe_threshold_decrypts:
  assumes "scalar_ok N B" and "g1_ok B" and "g2_ok B" and "pairing_ok B" and "1 \<le> N"
    and "aes_ok aes" and "length nonce = 12"
    and "0 < k" and "k \<le> int (length ss)" and "int (length cs) \<le> k"
    and "distinct (map Index ss)" and "\<forall>s \<in> set ss. idx_ok N (Index s)"
    and "\<forall>s \<in> set ss. DeriveShare B (sc_Serialize B (horner cs (of_int (Index s)))) i = Inr (Value s)"
    and "ibe_Encrypt B sha aes ikm (Some nonce) (p1_Compress B (g1 B (horner cs 0))) i msg = Inr (u, ct)"
  shows "\<exists>key. CombineShares B ss k = Inr key \<and> ibe_Decrypt B sha aes key u ct = Inr msg"
proof -
  obtain h where h: "HashToG2 B i hashDST = g2 B h" using g2_hash [OF assms(3)] by blast
  show ?thesis
    using CombineShares_key [OF assms(1,3,5) h assms(8-13)]
      ibe_roundtrip [OF assms(1-4) h assms(6,7,14)] by blast
qed

definition demo_ibe_shares :: "ibe_share list" where
  "demo_ibe_shares = map (\<lambda>i. \<lparr>Index = i, Value = projr (DeriveShare small_blst (sc_Serialize small_blst (horner [F2, F1] (of_int i)))
     (IdentityForHeight 7))\<rparr>) [2, 1]"

definition demo_ibe_ct :: "bytes \<times> bytes" where
  "demo_ibe_ct = projr (ibe_Encrypt small_blst id (\<lambda>_. Some demo_aead) (Some [3]) (Some (replicate 12 5))
     (p1_Compress small_blst (g1 small_blst (horner [F2, F1] 0))) (IdentityForHeight 7) [10, 20, 30])"

lemma demo_ibe_shares_derived:
  "\<forall>s \<in> set demo_ibe_shares. DeriveShare small_blst
     (sc_Serialize small_blst (horner [F2, F1] (of_int (Index s)))) (IdentityForHeight 7) = Inr (Value s)"
  by (simp add: demo_ibe_shares_def DeriveShare_def small_blst_def f5_numerals plus_f5_def times_f5_def nat_f5_def
      zero_f5_def one_f5_def Let_def) (simp add: f5_bytes_def)

theorem ibe_threshold_decrypts_witness:
  "\<exists>key. CombineShares small_blst demo_ibe_shares 2 = Inr key \<and>
     ibe_Decrypt small_blst id (\<lambda>_. Some demo_aead) key (fst demo_ibe_ct) (snd demo_ibe_ct) = Inr [10, 20, 30]"
proof (rule ibe_threshold_decrypts [OF small_ok, where cs = "[F2, F1]" and i = "IdentityForHeight 7"])
  show "ibe_Encrypt small_blst id (\<lambda>_. Some demo_aead) (Some [3]) (Some (replicate 12 5))
      (p1_Compress small_blst (g1 small_blst (horner [F2, F1] 0))) (IdentityForHeight 7) [10, 20, 30]
      = Inr (fst demo_ibe_ct, snd demo_ibe_ct)"
    by (simp add: demo_ibe_ct_def ibe_Encrypt_def Let_def small_blst_def)
       (simp add: bytes_f5_def nat_f5_def zero_f5_def be_val_simps)
qed (fact demo_ibe_shares_derived | simp add: aes_ok_def demo_aead_ok demo_ibe_shares_def idx_ok_def)+

text \<open>
  Combining never succeeds on fewer than \<open>k\<close> shares, and the shares it uses have distinct
  positive indices.
\<close>

theorem combine_requires_threshold:
  assumes "CombineShares B ss k = Inr key"
  shows "0 < k \<and> k \<le> int (length ss) \<and> distinct (map Index (smallest Index (nat k) ss))
    \<and> (\<forall>s \<in> set (smallest Index (nat k) ss). 0 < Index s \<and> Value s \<noteq> [])"
  using assms share_indices_distinct [where js = "[]" and bad = "\<lambda>s. Value s = []" and idx = Index]
  by (fastforce simp: CombineShares_def Let_def split: if_splits option.splits)

theorem combine_requires_threshold_witness:
  "\<exists>key. CombineShares small_blst demo_ibe_shares 2 = Inr key \<and> distinct (map Index (smallest Index 2 demo_ibe_shares))"
proof -
  obtain h where h: "HashToG2 small_blst (IdentityForHeight 7) hashDST = g2 small_blst h"
    using g2_hash [OF small_g2_ok] by blast
  have "CombineShares small_blst demo_ibe_shares 2 = Inr (p2_Compress small_blst (g2 small_blst (h * horner [F2, F1] 0)))"
    by (rule CombineShares_key [OF small_scalar_ok small_g2_ok _ h _ _ _ _ _ demo_ibe_shares_derived])
       (simp_all add: demo_ibe_shares_def idx_ok_def)
  with combine_requires_threshold [OF this] show ?thesis by simp
qed

end
