(* ===== verification/Dkg_Ibe.thy ===== *)
theory Dkg_Ibe
  imports Feldman Ibe
begin

text \<open>
  Key generation and threshold decryption together: the keys that \<^verbatim>\<open>SimulateFeldmanDKG\<close> hands
  out are the keys that \<^verbatim>\<open>ibe.DeriveShare\<close>, \<^verbatim>\<open>ibe.CombineShares\<close> and \<^verbatim>\<open>ibe.Decrypt\<close> use.
\<close>

text \<open>
  After a successful key generation for \<open>n\<close> participants with threshold \<open>t\<close>, any \<open>t\<close> or more
  participants decrypt what was encrypted to an identity under the generated group key.
\<close>

theorem dkg_committee_decrypts:
  assumes "scalar_ok N B" and "g1_ok B" and "g2_ok B" and "pairing_ok B" and "1 \<le> N"
    and "n \<le> int N" and "n < 2 ^ 63" and "aes_ok aes" and "length nonce = 12"
    and "SimulateFeldmanDKG B rd n t = Inr (pk, shares)"
    and "distinct ms" and "\<forall>m \<in> set ms. 1 \<le> m \<and> int m \<le> n" and "t \<le> int (length ms)"
    and "\<forall>m \<in> set ms. DeriveShare B (the (shares m)) i = Inr (v m)"
    and "ibe_Encrypt B sha aes ikm (Some nonce) pk i msg = Inr (u, ct)"
  shows "\<exists>key. CombineShares B (map (\<lambda>m. \<lparr>Index = int m, Value = v m\<rparr>) ms) t = Inr key
     \<and> ibe_Decrypt B sha aes key u ct = Inr msg"
proof -
  obtain cs where cs: "int (length cs) \<le> t" "0 < t" "pk = p1_Compress B (g1 B (horner cs 0))"
      "\<And>j. shares j = (if 1 \<le> j \<and> int j \<le> n then Some (sc_Serialize B (horner cs (of_int (int j)))) else None)"
    using dkg_outcome [OF assms(1,2,5-7,10)] by blast
  obtain h where h: "HashToG2 B i hashDST = g2 B h" using g2_hash [OF assms(3)] by blast
  let ?ss = "map (\<lambda>m. \<lparr>Index = int m, Value = v m\<rparr>) ms"
  have "distinct (map Index ?ss)" using assms(11) by (simp add: comp_def distinct_map)
  moreover have "\<forall>s \<in> set ?ss. idx_ok N (Index s)"
    using assms(6,7,12) by (force simp: idx_ok_def)
  moreover have "\<forall>s \<in> set ?ss. DeriveShare B (sc_Serialize B (horner cs (of_int (Index s)))) i = Inr (Value s)"
    using assms(12,14) cs(4) by simp
  ultimately have "CombineShares B ?ss t = Inr (p2_Compress B (g2 B (h * horner cs 0)))"
    using assms(13) cs(1,2) by (intro CombineShares_key [OF assms(1,3,5) h]) simp_all
  then show ?thesis
    using ibe_roundtrip [OF assms(1-4) h assms(8,9) assms(15) [unfolded cs(3)]] by blast
qed

lemma small_dkg:
  "\<exists>shares. SimulateFeldmanDKG small_blst (\<lambda>_ _. Some [1]) 2 2 = Inr (f5_bytes 48 F2, shares)
     \<and> shares 1 = Some (sc_Serialize small_blst F4) \<and> shares 2 = Some (sc_Serialize small_blst F1)"
  by (simp add: SimulateFeldmanDKG_def upt_rec dkg_randScalar_def commitmentsFromPoly_def evalPolyAt_def verifyFeldmanShare_def
      small_points small_scalars small_ops f5_ops)

lemma small_encrypts:
  "\<exists>u ct. ibe_Encrypt small_blst sha (\<lambda>_. Some demo_aead) (Some [1]) (Some nonce) pk i msg = Inr (u, ct)"
  by (simp add: ibe_Encrypt_def Let_def small_points)

lemma small_derives:
  "a \<noteq> 0 \<Longrightarrow> \<exists>v. DeriveShare small_blst (sc_Serialize small_blst a) i = Inr v"
  using scalar_okD(6) [OF small_scalar_ok, of a] checked_nonzero [OF scalar_okD(5) [OF small_scalar_ok], of a]
  by (auto simp: DeriveShare_def)

theorem dkg_committee_decrypts_witness:
  "\<exists>pk shares u ct key. SimulateFeldmanDKG small_blst (\<lambda>_ _. Some [1]) 2 2 = Inr (pk, shares)
     \<and> ibe_Encrypt small_blst id (\<lambda>_. Some demo_aead) (Some [1]) (Some (replicate 12 5)) pk (IdentityForHeight 7) [10, 20] = Inr (u, ct)
     \<and> CombineShares small_blst
         (map (\<lambda>m. \<lparr>Index = int m, Value = projr (DeriveShare small_blst (the (shares m)) (IdentityForHeight 7))\<rparr>) [1, 2]) 2 = Inr key
     \<and> ibe_Decrypt small_blst id (\<lambda>_. Some demo_aead) key u ct = Inr [10, 20]"
proof -
  obtain shares where dkg: "SimulateFeldmanDKG small_blst (\<lambda>_ _. Some [1]) 2 2 = Inr (f5_bytes 48 F2, shares)"
      "shares 1 = Some (sc_Serialize small_blst F4)" "shares 2 = Some (sc_Serialize small_blst F1)"
    using small_dkg by blast
  obtain u ct where enc: "ibe_Encrypt small_blst id (\<lambda>_. Some demo_aead) (Some [1]) (Some (replicate 12 5))
      (f5_bytes 48 F2) (IdentityForHeight 7) [10, 20] = Inr (u, ct)" using small_encrypts by blast
  have "F4 \<noteq> 0" "F1 \<noteq> 0" by (simp_all add: zero_f5_def)
  then have "\<forall>m \<in> set [1, 2]. DeriveShare small_blst (the (shares m)) (IdentityForHeight 7)
      = Inr (projr (DeriveShare small_blst (the (shares m)) (IdentityForHeight 7)))"
    using dkg(2,3) small_derives [of F4 "IdentityForHeight 7"] small_derives [of F1 "IdentityForHeight 7"] by auto
  from dkg_committee_decrypts [OF small_ok _ _ _ _ _ dkg(1) _ _ _ this enc] dkg(1) enc show ?thesis
    by (simp add: aes_ok_def demo_aead_ok)
qed

end
