(* ===== verification/Beast_Config.thy ===== *)
theory Beast_Config
  imports Atomic_File
begin

text \<open>
  The two configuration files of the private-transaction path:
  \<^verbatim>\<open>internal/tss/dkg/beast_dkg_config.go\<close> (a DKG session) and
  \<^verbatim>\<open>internal/payload/private_v1/config.go\<close> (the decrypter). Reading is a lookup in the file
  system, \<^verbatim>\<open>json.Unmarshal\<close> is an argument, and each error is a value.
\<close>

section \<open>DKG configuration\<close>

record BeastDKGMember =
  bm_Index :: int
  bm_SigPub :: bytes
  bm_EncPub :: bytes

record BeastDKGConfig =
  dc_SessionID :: string
  dc_Epoch :: u64
  dc_N :: int
  dc_Threshold :: int
  dc_Index :: int
  dc_KeySharePath :: string
  dc_SessionDir :: string
  dc_SigPriv :: bytes
  dc_EncPriv :: bytes
  dc_Committee :: "BeastDKGMember list"

datatype dkg_conf_error = ErrEmptyPath | ErrRead | ErrJson | ErrSessionID | ErrN | ErrThreshold | ErrIndex
  | ErrSigPriv | ErrEncPriv | ErrCommitteeSize | ErrCommitteeIndex | ErrDuplicateIndex | ErrSigPub | ErrEncPub

text \<open>The loop over the committee, with the set of indices seen.\<close>

fun check_members :: "int \<Rightarrow> int set \<Rightarrow> BeastDKGMember list \<Rightarrow> dkg_conf_error + unit" where
  "check_members n seen [] = Inr ()"
| "check_members n seen (m # ms) =
     (if bm_Index m \<le> 0 \<or> n < bm_Index m then Inl ErrCommitteeIndex
      else if bm_Index m \<in> seen then Inl ErrDuplicateIndex
      else if length (bm_SigPub m) \<noteq> 32 then Inl ErrSigPub
      else if length (bm_EncPub m) \<noteq> 32 then Inl ErrEncPub
      else check_members n (insert (bm_Index m) seen) ms)"

definition dkg_Validate :: "BeastDKGConfig \<Rightarrow> dkg_conf_error + unit" where
  "dkg_Validate c =
     (if dc_SessionID c = [] then Inl ErrSessionID
      else if dc_N c \<le> 0 then Inl ErrN
      else if dc_Threshold c \<le> 0 \<or> dc_N c < dc_Threshold c then Inl ErrThreshold
      else if dc_Index c \<le> 0 \<or> dc_N c < dc_Index c then Inl ErrIndex
      else if length (dc_SigPriv c) \<noteq> 64 then Inl ErrSigPriv
      else if length (dc_EncPriv c) \<noteq> 32 then Inl ErrEncPriv
      else if int (length (dc_Committee c)) \<noteq> dc_N c then Inl ErrCommitteeSize
      else check_members (dc_N c) {} (dc_Committee c))"

definition LoadBeastDKGConfig :: "(bytes \<Rightarrow> BeastDKGConfig option) \<Rightarrow> string \<Rightarrow> fs \<Rightarrow> dkg_conf_error + BeastDKGConfig" where
  "LoadBeastDKGConfig unjson path m =
     (if path = [] then Inl ErrEmptyPath
      else case m path of
        None \<Rightarrow> Inl ErrRead
      | Some b \<Rightarrow>
          (case unjson b of
             None \<Rightarrow> Inl ErrJson
           | Some cfg \<Rightarrow> (case dkg_Validate cfg of Inl e \<Rightarrow> Inl e | Inr _ \<Rightarrow> Inr cfg)))"

section \<open>Decrypter configuration\<close>

record private_config =
  bc_Mode :: string
  bc_GroupPubKey :: bytes
  bc_Committee :: "bytes list"
  bc_Threshold :: int
  bc_Index :: int
  bc_Share :: bytes
  bc_BatchN :: int

datatype private_conf_error = PErrEmptyPath | PErrRead | PErrJson | PErrMissingKey | PErrKeyLength
  | PErrMissingThreshold | PErrShareLength | PErrBatchN | PErrBatchShare

text \<open>The inference of the mode for files that name threshold fields only.\<close>

definition infer_mode :: "private_config \<Rightarrow> private_config" where
  "infer_mode c =
     (if bc_Mode c = [] \<and> (0 < bc_Threshold c \<or> 0 < bc_Index c \<or> 0 < length (bc_Share c))
      then c\<lparr>bc_Mode := ''threshold''\<rparr> else c)"

definition check_private :: "private_config \<Rightarrow> private_conf_error + private_config" where
  "check_private c =
     (if length (bc_GroupPubKey c) = 0 then Inl PErrMissingKey
      else if length (bc_GroupPubKey c) \<noteq> 48 then Inl PErrKeyLength
      else
        let c = infer_mode c in
        if bc_Mode c = ''threshold''
        then (if bc_Threshold c \<le> 0 \<or> bc_Index c \<le> 0 \<or> length (bc_Share c) = 0 then Inl PErrMissingThreshold
              else if length (bc_Share c) \<noteq> 32 then Inl PErrShareLength else Inr c)
        else if bc_Mode c = ''batched''
        then (if bc_BatchN c \<le> 0 then Inl PErrBatchN
              else if bc_Index c \<le> 0 \<or> length (bc_Share c) \<noteq> 32 then Inl PErrBatchShare else Inr c)
        else Inr c)"

definition LoadConfig :: "(bytes \<Rightarrow> private_config option) \<Rightarrow> string \<Rightarrow> fs \<Rightarrow> private_conf_error + private_config" where
  "LoadConfig unjson path m =
     (if path = [] then Inl PErrEmptyPath
      else case m path of
        None \<Rightarrow> Inl PErrRead
      | Some b \<Rightarrow> (case unjson b of None \<Rightarrow> Inl PErrJson | Some c \<Rightarrow> check_private c))"

section \<open>What a valid configuration guarantees\<close>

lemma check_members_iff:
  "check_members n seen ms = Inr () \<longleftrightarrow>
     (\<forall>m \<in> set ms. 0 < bm_Index m \<and> bm_Index m \<le> n \<and> length (bm_SigPub m) = 32 \<and> length (bm_EncPub m) = 32)
     \<and> distinct (map bm_Index ms) \<and> bm_Index ` set ms \<inter> seen = {}"
  by (induction ms arbitrary: seen) auto

lemma full_committee:
  assumes "int (length ms) = n" and "distinct (map bm_Index ms)" and "\<forall>m \<in> set ms. 0 < bm_Index m \<and> bm_Index m \<le> n"
  shows "bm_Index ` set ms = {1..n}"
proof (rule card_subset_eq)
  show "bm_Index ` set ms \<subseteq> {1..n}" using assms(3) by auto
  have "card (bm_Index ` set ms) = length ms" using distinct_card [OF assms(2)] by simp
  then show "card (bm_Index ` set ms) = card {1..n}" using assms(1) by simp
qed simp

section \<open>Properties\<close>

text \<open>
  A DKG configuration is accepted exactly when its committee has one member for each index
  from 1 to n with keys of the right lengths, and threshold and own index lie in that range:
  every index names exactly one member, the node itself among them.
\<close>

theorem dkg_committee_complete:
  "dkg_Validate c = Inr () \<longleftrightarrow>
     dc_SessionID c \<noteq> [] \<and> dc_Threshold c \<in> {1..dc_N c} \<and> dc_Index c \<in> {1..dc_N c}
     \<and> length (dc_SigPriv c) = 64 \<and> length (dc_EncPriv c) = 32
     \<and> int (length (dc_Committee c)) = dc_N c \<and> bm_Index ` set (dc_Committee c) = {1..dc_N c}
     \<and> list_all (\<lambda>m. length (bm_SigPub m) = 32 \<and> length (bm_EncPub m) = 32) (dc_Committee c)"
  (is "?l \<longleftrightarrow> ?r")
proof
  assume ?l
  then have "check_members (dc_N c) {} (dc_Committee c) = Inr ()" "int (length (dc_Committee c)) = dc_N c"
    by (auto simp: dkg_Validate_def split: if_splits)
  with full_committee [of "dc_Committee c" "dc_N c"] \<open>?l\<close> show ?r
    by (auto simp: check_members_iff dkg_Validate_def list_all_iff split: if_splits)
next
  assume r: ?r
  then have "card (set (map bm_Index (dc_Committee c))) = length (map bm_Index (dc_Committee c))" by auto
  then have "distinct (map bm_Index (dc_Committee c))" by (rule card_distinct)
  moreover have "\<forall>m \<in> set (dc_Committee c). 0 < bm_Index m \<and> bm_Index m \<le> dc_N c"
  proof
    fix m assume "m \<in> set (dc_Committee c)"
    then have "bm_Index m \<in> {1..dc_N c}" using r by blast
    then show "0 < bm_Index m \<and> bm_Index m \<le> dc_N c" by auto
  qed
  ultimately have "check_members (dc_N c) {} (dc_Committee c) = Inr ()" using r by (simp add: check_members_iff list_all_iff)
  with r show ?l by (auto simp: dkg_Validate_def)
qed

text \<open>
  A decrypter configuration that loads has a 48-byte group key; in threshold mode (also when
  it is inferred) a positive threshold and index and a 32-byte share, in batched mode a
  positive domain size and index and a 32-byte share.
\<close>

theorem private_config_usable:
  assumes "LoadConfig unjson path m = Inr c"
  shows "length (bc_GroupPubKey c) = 48
    \<and> (bc_Mode c = ''threshold'' \<longrightarrow> 0 < bc_Threshold c \<and> 0 < bc_Index c \<and> length (bc_Share c) = 32)
    \<and> (bc_Mode c = ''batched'' \<longrightarrow> 0 < bc_BatchN c \<and> 0 < bc_Index c \<and> length (bc_Share c) = 32)
    \<and> (bc_Mode c = [] \<longrightarrow> bc_Threshold c \<le> 0 \<and> bc_Index c \<le> 0 \<and> bc_Share c = [])"
  using assms
  by (auto simp: LoadConfig_def check_private_def infer_mode_def Let_def split: if_splits option.splits)

theorem private_config_usable_witness:
  "\<exists>c. LoadConfig (\<lambda>_. Some \<lparr>bc_Mode = [], bc_GroupPubKey = replicate 48 0, bc_Committee = [], bc_Threshold = 2, bc_Index = 1,
         bc_Share = replicate 32 7, bc_BatchN = 0\<rparr>) ''f'' [''f'' \<mapsto> []] = Inr c
     \<and> bc_Mode c = ''threshold'' \<and> length (bc_Share c) = 32"
proof -
  let ?j = "\<lambda>_ :: bytes. Some \<lparr>bc_Mode = [], bc_GroupPubKey = replicate 48 0, bc_Committee = [], bc_Threshold = 2, bc_Index = 1,
         bc_Share = replicate 32 7, bc_BatchN = 0\<rparr>"
  obtain c where load: "LoadConfig ?j ''f'' [''f'' \<mapsto> []] = Inr c" and mode: "bc_Mode c = ''threshold''"
    by (simp add: LoadConfig_def check_private_def infer_mode_def Let_def)
  from private_config_usable [OF load] load mode show ?thesis by blast
qed

end
