(* ===== verification/Threshold_Decrypt.thy ===== *)
theory Threshold_Decrypt
  imports Bte Dkg_Ibe Builder Beast_Config
begin

text \<open>
  The decrypters of \<^verbatim>\<open>internal/payload/private_v1\<close> in a \<^verbatim>\<open>blst\<close> build: the process-wide share
  state of \<^verbatim>\<open>threshold_state.go\<close>, the release of the local share, the key of a height, and
  the three modes of \<^verbatim>\<open>blstDecrypter.Decrypt\<close>. Every operation on the state holds the package
  mutex, so a run is a sequence of them. Publishing is recorded in \<open>published\<close>; its error is
  dropped by the code. Ranging over a map of shares visits its keys in the order \<open>te_keys\<close>.
\<close>

section \<open>Share state\<close>

record tstate =
  threshEnabled :: bool
  threshIndex :: int
  threshK :: int
  threshShare :: bytes
  threshPub :: bool
  sharesByHeight :: "u64 \<rightharpoonup> (int \<rightharpoonup> bytes)"
  sentHeights :: "u64 set"
  privKeyByHeight :: "u64 \<rightharpoonup> bytes"
  batchSharesByHeight :: "u64 \<rightharpoonup> (u64 \<rightharpoonup> (int \<rightharpoonup> bytes))"
  beast_current :: engine
  published :: "(u64 \<times> int \<times> bytes) list"

definition thresh_init :: tstate where
  "thresh_init = \<lparr>threshEnabled = False, threshIndex = 0, threshK = 0, threshShare = [], threshPub = False,
     sharesByHeight = Map.empty, sentHeights = {}, privKeyByHeight = Map.empty,
     batchSharesByHeight = Map.empty, beast_current = noopEngine, published = []\<rparr>"

definition enableThreshold :: "int \<Rightarrow> int \<Rightarrow> bytes \<Rightarrow> tstate \<Rightarrow> tstate" where
  "enableThreshold index k share s =
     s\<lparr>threshEnabled := True, threshIndex := index, threshK := k, threshShare := share\<rparr>"

definition SetThresholdSharePublisher :: "bool \<Rightarrow> tstate \<Rightarrow> tstate" where
  "SetThresholdSharePublisher fn s = s\<lparr>threshPub := fn\<rparr>"

definition HandleThresholdShare :: "u64 \<Rightarrow> int \<Rightarrow> bytes \<Rightarrow> tstate \<Rightarrow> tstate" where
  "HandleThresholdShare height index share s =
     (if height = 0 \<or> index \<le> 0 \<or> length share \<noteq> 96 then s
      else let m = getz Map.empty (sharesByHeight s) height in
        if m index \<noteq> None then s
        else s\<lparr>sharesByHeight := (sharesByHeight s)(height \<mapsto> m(index \<mapsto> share))\<rparr>)"

definition markShareSent :: "u64 \<Rightarrow> tstate \<Rightarrow> bool \<times> tstate" where
  "markShareSent height s =
     (if height \<in> sentHeights s then (False, s)
      else (True, s\<lparr>sentHeights := insert height (sentHeights s)\<rparr>))"

definition recordLocalShare :: "u64 \<Rightarrow> int \<Rightarrow> bytes \<Rightarrow> tstate \<Rightarrow> tstate" where
  "recordLocalShare height index share s =
     s\<lparr>sharesByHeight := (sharesByHeight s)(height \<mapsto> (getz Map.empty (sharesByHeight s) height)(index \<mapsto> share))\<rparr>"

definition recordBatchedShare :: "u64 \<Rightarrow> u64 \<Rightarrow> int \<Rightarrow> bytes \<Rightarrow> tstate \<Rightarrow> tstate" where
  "recordBatchedShare height batch index share s =
     (if height = 0 \<or> batch = 0 \<or> index \<le> 0 \<or> length share \<noteq> 48 then s
      else let hm = getz Map.empty (batchSharesByHeight s) height;
               bm = getz Map.empty hm batch;
               bm' = (if bm index \<noteq> None then bm else bm(index \<mapsto> share))
           in s\<lparr>batchSharesByHeight := (batchSharesByHeight s)(height \<mapsto> hm(batch \<mapsto> bm'))\<rparr>)"

definition getShare :: "u64 \<Rightarrow> int \<Rightarrow> tstate \<Rightarrow> bytes" where
  "getShare height index s = getz [] (getz Map.empty (sharesByHeight s) height) index"

definition snapshotShares :: "u64 \<Rightarrow> tstate \<Rightarrow> int \<rightharpoonup> bytes" where
  "snapshotShares height s = getz Map.empty (sharesByHeight s) height"

definition snapshotBatchedShares :: "u64 \<Rightarrow> u64 \<Rightarrow> tstate \<Rightarrow> int \<rightharpoonup> bytes" where
  "snapshotBatchedShares height batch s = getz Map.empty (getz Map.empty (batchSharesByHeight s) height) batch"

definition getPrivKey :: "u64 \<Rightarrow> tstate \<Rightarrow> bytes" where
  "getPrivKey height s = getz [] (privKeyByHeight s) height"

definition setPrivKey :: "u64 \<Rightarrow> bytes \<Rightarrow> tstate \<Rightarrow> tstate" where
  "setPrivKey height key s = s\<lparr>privKeyByHeight := (privKeyByHeight s)(height \<mapsto> key)\<rparr>"

definition publish :: "u64 \<Rightarrow> int \<Rightarrow> bytes \<Rightarrow> tstate \<Rightarrow> tstate" where
  "publish height index share s = s\<lparr>published := published s @ [(height, index, share)]\<rparr>"

text \<open>\<^verbatim>\<open>pub != nil && markShareSent(height)\<close>, then the call of the publisher.\<close>

definition publish_once :: "u64 \<Rightarrow> int \<Rightarrow> bytes \<Rightarrow> tstate \<Rightarrow> tstate" where
  "publish_once height index share s =
     (if \<not> threshPub s then s
      else case markShareSent height s of
        (False, s') \<Rightarrow> s'
      | (True, s') \<Rightarrow> publish height index share s')"

section \<open>Decryption\<close>

record ('f, 'p1, 'p2, 'gt) tenv =
  te_B :: "('f, 'p1, 'p2, 'gt) blst"
  te_sha :: "bytes \<Rightarrow> bytes"
  te_aes :: "bytes \<Rightarrow> aead option"
  te_unjson :: "bytes \<Rightarrow> jsonEnvelope option"
  te_keys :: "(int \<rightharpoonup> bytes) \<Rightarrow> int list"
  te_tag :: bool

definition maybeEnsureShare :: "('f, 'p1, 'p2, 'gt) tenv \<Rightarrow> u64 \<Rightarrow> tstate \<Rightarrow> tstate" where
  "maybeEnsureShare E height s =
     (if height = 0 then s
      else if \<not> threshEnabled s \<or> threshIndex s \<le> 0 \<or> threshShare s = [] then s
      else let existing = getShare height (threshIndex s) s in
        if existing \<noteq> [] then publish_once height (threshIndex s) existing s
        else case DeriveShare (te_B E) (threshShare s) (IdentityForHeight height) of
          Inl e \<Rightarrow> s
        | Inr share \<Rightarrow>
            if share = [] then s
            else publish_once height (threshIndex s) share (recordLocalShare height (threshIndex s) share s))"

definition thresholdPrivateKey :: "('f, 'p1, 'p2 :: ab_group_add, 'gt) tenv \<Rightarrow> u64 \<Rightarrow> tstate \<Rightarrow> bytes option \<times> tstate" where
  "thresholdPrivateKey E height s =
     (if height = 0 then (None, s)
      else if getPrivKey height s \<noteq> [] then (Some (getPrivKey height s), s)
      else if \<not> threshEnabled s \<or> threshK s \<le> 0 then (None, s)
      else let m = snapshotShares height s; ks = te_keys E m in
        if int (length ks) < threshK s then (None, s)
        else case CombineShares (te_B E) (map (\<lambda>i. \<lparr>Index = i, Value = the (m i)\<rparr>) ks) (threshK s) of
          Inl e \<Rightarrow> (None, s)
        | Inr pk \<Rightarrow> if pk = [] then (None, s) else (Some pk, setPrivKey height pk s))"

definition decoded :: "('f, 'p1, 'p2, 'gt) tenv \<Rightarrow> bytes \<Rightarrow> decrypt_error + payload option" where
  "decoded E pt =
     (if pt = [] then Inl ErrPrivateEmpty
      else case decodeEnvelopeBytes (te_unjson E) pt of
        None \<Rightarrow> Inl ErrPrivateDecode | Some pl \<Rightarrow> Inr (Some pl))"

definition decryptThresholdIBE :: "('f, 'p1, 'p2 :: ab_group_add, 'gt) tenv \<Rightarrow> PrivateTx \<Rightarrow> tstate
    \<Rightarrow> (decrypt_error + payload option) \<times> tstate" where
  "decryptThresholdIBE E tx s =
     (if pv_EphemeralKey tx = [] \<or> pv_Ciphertext tx = [] then (Inl ErrPrivateInvalid, s)
      else let s = maybeEnsureShare E (pv_TargetHeight tx) s in
        case thresholdPrivateKey E (pv_TargetHeight tx) s of
          (None, s) \<Rightarrow> (Inl ErrPrivateNotReady, s)
        | (Some pk, s) \<Rightarrow>
            (case ibe_Decrypt (te_B E) (te_sha E) (te_aes E) pk (pv_EphemeralKey tx) (pv_Ciphertext tx) of
               Inl e \<Rightarrow> (if e = IbeInvalidPoint then Inl ErrPrivateInvalid else Inl ErrPrivateCipher, s)
             | Inr pt \<Rightarrow> (decoded E pt, s)))"

text \<open>The last part of \<^verbatim>\<open>decryptBatched\<close>, after the local share is recorded: it only reads the state.\<close>

definition batched_recover :: "('f, 'p1 :: ab_group_add, 'p2, 'gt) tenv \<Rightarrow> private_config \<Rightarrow> PrivateTx \<Rightarrow> LinearParams \<Rightarrow> KeyCiphertext
    \<Rightarrow> tstate \<Rightarrow> decrypt_error + payload option" where
  "batched_recover E conf tx pp ct s =
     (let shared = snapshotBatchedShares (pv_TargetHeight tx) (pv_BatchIndex tx) s; ks = te_keys E shared in
      if int (length ks) < bc_Threshold conf then Inl ErrPrivateNotReady
      else case DecryptKeyG (te_B E) ct (map (\<lambda>i. \<lparr>pd_Index = i, pd_Share = the (shared i)\<rparr>) ks) (bc_Threshold conf) of
        Inl e \<Rightarrow> Inl ErrPrivateCipher
      | Inr gk \<Rightarrow>
          let i = sint (pv_BatchIndex tx) in
          case RecoverPRFAt (te_B E) pp gk i [(i, pv_PuncturedKey tx)] of
            Inl e \<Rightarrow> Inl ErrPrivateCipher
          | Inr v \<Rightarrow> decoded E (RecoverXOR (te_sha E) (pv_Ciphertext tx) v))"

definition decryptBatched :: "('f, 'p1 :: ab_group_add, 'p2, 'gt) tenv \<Rightarrow> private_config \<Rightarrow> PrivateTx \<Rightarrow> tstate
    \<Rightarrow> (decrypt_error + payload option) \<times> tstate" where
  "decryptBatched E conf tx s =
     (if bc_BatchN conf \<le> 0 then (Inl ErrPrivateInvalid, s)
      else if length (bc_Share conf) \<noteq> 32 \<or> bc_Index conf \<le> 0 then (Inl ErrPrivateInvalid, s)
      else if pv_Ciphertext tx = [] \<or> length (pv_EphemeralKey tx) \<noteq> 96 \<or> pv_BatchIndex tx = 0
           \<or> length (pv_PuncturedKey tx) \<noteq> 48 then (Inl ErrPrivateInvalid, s)
      else if sint (pv_BatchIndex tx) > bc_BatchN conf then (Inl ErrPrivateInvalid, s)
      else case SetupLinearDeterministic (te_B E) (te_sha E) (bc_BatchN conf) (bc_GroupPubKey conf) of
        Inl e \<Rightarrow> (Inl ErrPrivateCipher, s)
      | Inr pp \<Rightarrow>
          let ct = \<lparr>ct_C1 = take 48 (pv_EphemeralKey tx), ct_C2 = drop 48 (pv_EphemeralKey tx)\<rparr> in
          case PartialDecrypt (te_B E) ct (bc_Share conf) (bc_Index conf) of
            Inl e \<Rightarrow> (Inl ErrPrivateCipher, s)
          | Inr sh \<Rightarrow>
              let s = recordBatchedShare (pv_TargetHeight tx) (pv_BatchIndex tx) (pd_Index sh) (pd_Share sh) s;
                  s = (if threshEnabled s then publish_once (pv_TargetHeight tx) (pd_Index sh) (pd_Share sh) s else s)
              in (batched_recover E conf tx pp ct s, s))"

datatype enable_error = EnablePrivateInvalid | EnableThresholdConfig

definition EnableBLSTDecrypt :: "('f, 'p1, 'p2, 'gt) tenv \<Rightarrow> private_config \<Rightarrow> tstate \<Rightarrow> enable_error + tstate" where
  "EnableBLSTDecrypt E conf s =
     (if bc_GroupPubKey conf = [] then Inl EnablePrivateInvalid
      else if bc_Mode conf = ''threshold'' then
        (if bc_Threshold conf \<le> 0 \<or> bc_Index conf \<le> 0 \<or> length (bc_Share conf) \<noteq> 32 then Inl EnableThresholdConfig
         else Inr (enableThreshold (bc_Index conf) (bc_Threshold conf) (bc_Share conf) s))
      else if bc_Mode conf = ''batched'' then Inr s
      else Inr (s\<lparr>beast_current :=
             SetEngine (Some (NewSymmetricEngine (te_tag E) (te_sha E) (bc_GroupPubKey conf))) (beast_current s)\<rparr>))"

definition blst_Decrypt :: "('f, 'p1 :: ab_group_add, 'p2 :: ab_group_add, 'gt) tenv \<Rightarrow> private_config \<Rightarrow> BlockHeader \<Rightarrow> payload
    \<Rightarrow> tstate \<Rightarrow> (decrypt_error + payload option) \<times> tstate" where
  "blst_Decrypt E conf h p s =
     (case p of
        Private tx \<Rightarrow>
          if pv_TargetHeight tx = 0 then (Inl ErrPrivateInvalid, s)
          else if bh_Height h < pv_TargetHeight tx then (Inl ErrPrivateEarly, s)
          else if bc_Mode conf = ''threshold'' then decryptThresholdIBE E tx s
          else if bc_Mode conf = ''batched'' then decryptBatched E conf tx s
          else (case beast_Decrypt (te_aes E) (beast_current s) (pv_Ciphertext tx) of
                  Inl e \<Rightarrow> (Inl ErrPrivateCipher, s)
                | Inr pt \<Rightarrow> (decoded E pt, s))
      | _ \<Rightarrow> (Inr (Some p), s))"

section \<open>Runs\<close>

text \<open>What drives the state: received shares, decryptions, the pool's early release, the publisher.\<close>

datatype thresh_op = TShare u64 int bytes | TDecrypt BlockHeader payload | TEnsure u64 | TPublisher bool

fun thresh_step :: "('f, 'p1 :: ab_group_add, 'p2 :: ab_group_add, 'gt) tenv \<Rightarrow> private_config \<Rightarrow> thresh_op \<Rightarrow> tstate \<Rightarrow> tstate" where
  "thresh_step E conf (TShare h i v) s = HandleThresholdShare h i v s"
| "thresh_step E conf (TDecrypt h p) s = snd (blst_Decrypt E conf h p s)"
| "thresh_step E conf (TEnsure h) s = maybeEnsureShare E h s"
| "thresh_step E conf (TPublisher b) s = SetThresholdSharePublisher b s"

definition thresh_run :: "('f, 'p1 :: ab_group_add, 'p2 :: ab_group_add, 'gt) tenv \<Rightarrow> private_config \<Rightarrow> thresh_op list \<Rightarrow> tstate \<Rightarrow> tstate" where
  "thresh_run E conf ops s = fold (thresh_step E conf) ops s"

lemma publish_once_frame [simp]:
  "threshEnabled (publish_once h i v s) = threshEnabled s" "threshIndex (publish_once h i v s) = threshIndex s"
  "threshK (publish_once h i v s) = threshK s" "threshShare (publish_once h i v s) = threshShare s"
  "threshPub (publish_once h i v s) = threshPub s" "sharesByHeight (publish_once h i v s) = sharesByHeight s"
  "privKeyByHeight (publish_once h i v s) = privKeyByHeight s"
  "batchSharesByHeight (publish_once h i v s) = batchSharesByHeight s"
  "beast_current (publish_once h i v s) = beast_current s"
  by (simp_all add: publish_once_def markShareSent_def publish_def)

text \<open>Every operation is one of a few changes of the state: the interface the invariants rest on.\<close>

lemma maybeEnsureShare_cases:
  "maybeEnsureShare E h s = s
   \<or> (\<exists>v. maybeEnsureShare E h s = publish_once h (threshIndex s) v s)
   \<or> (\<exists>v. maybeEnsureShare E h s = publish_once h (threshIndex s) v (recordLocalShare h (threshIndex s) v s)
        \<and> getShare h (threshIndex s) s = [])"
  by (cases "DeriveShare (te_B E) (threshShare s) (IdentityForHeight h)") (auto simp: maybeEnsureShare_def Let_def)

lemma thresholdPrivateKey_cases:
  "snd (thresholdPrivateKey E h s) = s
   \<or> (\<exists>k. snd (thresholdPrivateKey E h s) = setPrivKey h k s \<and> getPrivKey h s = [])"
  by (auto simp: thresholdPrivateKey_def Let_def split: sum.split)

lemma decryptThresholdIBE_state:
  "snd (decryptThresholdIBE E tx s) =
     (if pv_EphemeralKey tx = [] \<or> pv_Ciphertext tx = [] then s
      else snd (thresholdPrivateKey E (pv_TargetHeight tx) (maybeEnsureShare E (pv_TargetHeight tx) s)))"
  by (simp add: decryptThresholdIBE_def Let_def split: prod.split option.split sum.split)

lemma PartialDecrypt_index: "PartialDecrypt B ct sc i = Inr sh \<Longrightarrow> pd_Index sh = i"
  by (auto simp: PartialDecrypt_def split: if_splits option.splits)

lemma decryptBatched_cases:
  "snd (decryptBatched E conf tx s) = s
   \<or> (\<exists>v. snd (decryptBatched E conf tx s) = recordBatchedShare (pv_TargetHeight tx) (pv_BatchIndex tx) (bc_Index conf) v s)
   \<or> (\<exists>v. snd (decryptBatched E conf tx s) = publish_once (pv_TargetHeight tx) (bc_Index conf) v
        (recordBatchedShare (pv_TargetHeight tx) (pv_BatchIndex tx) (bc_Index conf) v s))"
  by (auto simp: decryptBatched_def Let_def PartialDecrypt_index split: sum.split)

text \<open>
  A property that these elementary changes keep is kept by every operation.
\<close>

lemma thresh_step_induct:
  assumes "P s"
    and share: "\<And>h i v s. P s \<Longrightarrow> P (HandleThresholdShare h i v s)"
    and pub: "\<And>h i v s. P s \<Longrightarrow> P (publish_once h i v s)"
    and own: "\<And>h v s. P s \<Longrightarrow> getShare h (threshIndex s) s = [] \<Longrightarrow> P (recordLocalShare h (threshIndex s) v s)"
    and key: "\<And>h k s. P s \<Longrightarrow> getPrivKey h s = [] \<Longrightarrow> P (setPrivKey h k s)"
    and batch: "\<And>h b v s. P s \<Longrightarrow> P (recordBatchedShare h b (bc_Index conf) v s)"
    and set: "\<And>b s. P s \<Longrightarrow> P (SetThresholdSharePublisher b s)"
  shows "P (thresh_step E conf op s)"
proof -
  have ensure: "P (maybeEnsureShare E h s)" if "P s" for h s
    using maybeEnsureShare_cases [of E h s] that pub own by auto
  have k: "P (snd (thresholdPrivateKey E h s))" if "P s" for h s
    using thresholdPrivateKey_cases [of E h s] that key by auto
  have ibe: "P (snd (decryptThresholdIBE E tx s))" if "P s" for tx s
    using that ensure k by (simp add: decryptThresholdIBE_state)
  have bte: "P (snd (decryptBatched E conf tx s))" if "P s" for tx s
    using decryptBatched_cases [of E conf tx s] that batch pub by auto
  show ?thesis
    using assms(1) share ensure set ibe bte
    by (cases op) (auto simp: blst_Decrypt_def split: payload.splits sum.splits)
qed

lemma thresh_run_invariant:
  assumes "\<And>op s. P s \<Longrightarrow> P (thresh_step E conf op s)" and "P s"
  shows "P (thresh_run E conf ops s)"
  using assms(2) by (induction ops arbitrary: s) (simp_all add: thresh_run_def assms(1))

section \<open>Shares are released once\<close>

definition released :: "tstate \<Rightarrow> bool" where
  "released s \<longleftrightarrow> distinct (map fst (published s)) \<and> fst ` set (published s) \<subseteq> sentHeights s"

lemma released_publish_once: "released s \<Longrightarrow> released (publish_once h i v s)"
  by (auto simp: released_def publish_once_def markShareSent_def publish_def)

lemma released_step: "released s \<Longrightarrow> released (thresh_step E conf op s)"
proof (rule thresh_step_induct [where P = released])
  fix h i v s
  assume "released s"
  then show "released (HandleThresholdShare h i v s)"
    by (simp add: HandleThresholdShare_def released_def Let_def)
next
  fix h b v s
  assume "released s"
  then show "released (recordBatchedShare h b (bc_Index conf) v s)"
    by (simp add: recordBatchedShare_def released_def Let_def)
qed (simp_all add: released_publish_once, simp_all add: released_def recordLocalShare_def setPrivKey_def SetThresholdSharePublisher_def)

text \<open>
  However shares arrive and blocks are decrypted, at most one share is published per height.
\<close>

theorem one_share_per_height: "distinct (map fst (published (thresh_run E conf ops thresh_init)))"
proof -
  have "released (thresh_run E conf ops thresh_init)"
    by (rule thresh_run_invariant [where P = released]) (simp_all add: released_step, simp add: released_def thresh_init_def)
  then show ?thesis by (simp add: released_def)
qed

text \<open>
  In batched mode this loses shares: the shares of a second batch index of a height are
  recorded but not published, because the height is already marked.
\<close>

lemma second_batch_not_published:
  "h \<in> sentHeights s \<Longrightarrow> published (publish_once h i v s) = published s"
  by (simp add: publish_once_def markShareSent_def)

section \<open>The first share of an index stays\<close>

text \<open>
  No operation replaces a share that is present: what is first received for an index, the
  node's own included, is what every later combination uses, and it is what is published as
  the node's share. No share is checked against the committee's keys.
\<close>

lemma share_kept_step:
  assumes "getShare h i s = v" and "v \<noteq> []"
  shows "getShare h i (thresh_step E conf op s) = v"
proof (rule thresh_step_induct [where P = "\<lambda>s. getShare h i s = v"])
  fix h' i' v' s
  assume "getShare h i s = v"
  then show "getShare h i (HandleThresholdShare h' i' v' s) = v"
    using assms(2) by (auto simp: HandleThresholdShare_def getShare_def Let_def getz_def split: option.splits)
next
  fix h' b v' s
  assume "getShare h i s = v"
  then show "getShare h i (recordBatchedShare h' b (bc_Index conf) v' s) = v"
    by (simp add: recordBatchedShare_def getShare_def Let_def)
next
  fix h' v' s
  assume "getShare h i s = v" "getShare h' (threshIndex s) s = []"
  then show "getShare h i (recordLocalShare h' (threshIndex s) v' s) = v"
    using assms(2) by (auto simp: recordLocalShare_def getShare_def)
qed (use assms(1) in \<open>simp_all add: getShare_def setPrivKey_def SetThresholdSharePublisher_def\<close>)

theorem first_share_wins:
  assumes "h \<noteq> 0" and "0 < i" and "length v = 96"
  shows "getShare h i (thresh_run E conf ops (HandleThresholdShare h i v thresh_init)) = v"
proof -
  have "v \<noteq> []" using assms(3) by auto
  then show ?thesis
    by (intro thresh_run_invariant [where P = "\<lambda>s. getShare h i s = v"])
       (simp_all add: share_kept_step, use assms in \<open>simp add: HandleThresholdShare_def getShare_def thresh_init_def\<close>)
qed

text \<open>
  A received share that names the node's own index is taken without a check; the node then
  never derives its own share for the height and publishes the received one as its own.
\<close>

theorem forged_own_share_published:
  assumes "0 < i" and "length v = 96" and "h \<noteq> 0" and "share \<noteq> []"
  shows "published (maybeEnsureShare E h (HandleThresholdShare h i v
     (SetThresholdSharePublisher True (enableThreshold i k share thresh_init)))) = [(h, i, v)]"
proof -
  have "v \<noteq> []" using assms(2) by auto
  with assms show ?thesis
    by (simp add: maybeEnsureShare_def HandleThresholdShare_def getShare_def SetThresholdSharePublisher_def
        enableThreshold_def thresh_init_def publish_once_def markShareSent_def publish_def)
qed

text \<open>A key that was combined is used for the height from then on.\<close>

lemma key_kept_step:
  assumes "getPrivKey h s = k" and "k \<noteq> []"
  shows "getPrivKey h (thresh_step E conf op s) = k"
  by (rule thresh_step_induct [where P = "\<lambda>s. getPrivKey h s = k"])
     (use assms in \<open>auto simp: getPrivKey_def HandleThresholdShare_def recordLocalShare_def setPrivKey_def
        recordBatchedShare_def SetThresholdSharePublisher_def Let_def\<close>)

theorem combined_key_kept:
  assumes "fst (thresholdPrivateKey E h s) = Some k"
  shows "fst (thresholdPrivateKey E h (thresh_run E conf ops (snd (thresholdPrivateKey E h s)))) = Some k"
proof -
  have k: "k \<noteq> []" "h \<noteq> 0" "getPrivKey h (snd (thresholdPrivateKey E h s)) = k"
    using assms by (auto simp: thresholdPrivateKey_def Let_def setPrivKey_def getPrivKey_def split: if_splits sum.splits)
  have "getPrivKey h (thresh_run E conf ops (snd (thresholdPrivateKey E h s))) = k"
    by (rule thresh_run_invariant [where P = "\<lambda>s. getPrivKey h s = k"]) (erule key_kept_step, rule k(1), rule k(3))
  with k(1,2) show ?thesis by (simp add: thresholdPrivateKey_def)
qed

section \<open>Batched mode needs threshold one\<close>

text \<open>
  Only the node's own partial decryptions are ever recorded for a batch: a received share
  has the length of a point of the other group.
\<close>

definition batch_own :: "int \<Rightarrow> tstate \<Rightarrow> bool" where
  "batch_own i s \<longleftrightarrow> (\<forall>h b. dom (snapshotBatchedShares h b s) \<subseteq> {i})"

lemma batch_own_record: "batch_own i s \<Longrightarrow> batch_own i (recordBatchedShare h b i v s)"
  by (auto simp: batch_own_def snapshotBatchedShares_def recordBatchedShare_def Let_def getz_def split: if_splits option.splits)

lemma batch_own_cong: "batchSharesByHeight s' = batchSharesByHeight s \<Longrightarrow> batch_own i s' = batch_own i s"
  by (simp add: batch_own_def snapshotBatchedShares_def)

lemma batch_own_step: "batch_own (bc_Index conf) s \<Longrightarrow> batch_own (bc_Index conf) (thresh_step E conf op s)"
  by (rule thresh_step_induct [where P = "batch_own (bc_Index conf)"])
     (assumption | erule batch_own_record | simp add: batch_own_def snapshotBatchedShares_def HandleThresholdShare_def
        recordLocalShare_def setPrivKey_def SetThresholdSharePublisher_def Let_def)+

lemma batched_recover_threshold:
  assumes "batched_recover E conf tx pp ct s = Inr r" and "batch_own i s" and "\<And>m. finite (dom m) \<Longrightarrow> range_order m (te_keys E m)"
  shows "bc_Threshold conf = 1"
proof -
  let ?m = "snapshotBatchedShares (pv_TargetHeight tx) (pv_BatchIndex tx) s"
  have dom: "dom ?m \<subseteq> {i}" using assms(2) by (simp add: batch_own_def)
  then have "finite (dom ?m)" by (rule finite_subset) simp
  then have "length (te_keys E ?m) = card (dom ?m)"
    using assms(3) [of ?m] by (metis distinct_card range_order_def)
  also have "\<dots> \<le> 1" using card_mono [OF _ dom] by simp
  finally have "length (te_keys E ?m) \<le> 1" .
  moreover have "\<not> int (length (te_keys E ?m)) < bc_Threshold conf" "0 < bc_Threshold conf"
    using assms(1) by (auto simp: batched_recover_def Let_def DecryptKeyG_def split: if_splits sum.splits)
  ultimately show ?thesis by linarith
qed

lemma batched_fails:
  assumes "bc_Mode conf = ''batched''" and "\<And>m. finite (dom m) \<Longrightarrow> range_order m (te_keys E m)"
    and "bc_Threshold conf \<noteq> 1" and "batch_own (bc_Index conf) s"
  shows "\<exists>e. fst (blst_Decrypt E conf hdr (Private tx) s) = Inl e"
proof (rule ccontr)
  assume "\<nexists>e. fst (blst_Decrypt E conf hdr (Private tx) s) = Inl e"
  then obtain r where "fst (blst_Decrypt E conf hdr (Private tx) s) = Inr r" by (cases "fst (blst_Decrypt E conf hdr (Private tx) s)") auto
  then have "fst (decryptBatched E conf tx s) = Inr r"
    using assms(1) by (simp add: blst_Decrypt_def split: if_splits)
  then obtain pp ct sh s' where "batched_recover E conf tx pp ct s' = Inr r" "PartialDecrypt (te_B E) ct (bc_Share conf) (bc_Index conf) = Inr sh"
      "batchSharesByHeight s' = batchSharesByHeight (recordBatchedShare (pv_TargetHeight tx) (pv_BatchIndex tx) (pd_Index sh) (pd_Share sh) s)"
    by (auto simp: decryptBatched_def Let_def split: if_splits sum.splits)
  moreover have "batch_own (bc_Index conf) s'"
    using batch_own_cong [OF calculation(3)] PartialDecrypt_index [OF calculation(2)] batch_own_record [OF assms(4)] by simp
  ultimately show False using batched_recover_threshold assms(2,3) by blast
qed

lemma batch_own_init: "batch_own i thresh_init"
  by (simp add: batch_own_def snapshotBatchedShares_def thresh_init_def)

text \<open>
  After any run, batched decryption of a private transaction fails under every configured
  threshold but one: with a larger one it is never ready, with zero, which \<^verbatim>\<open>LoadConfig\<close>
  accepts, the combination always fails.
\<close>

theorem batched_mode_threshold_one:
  assumes "bc_Mode conf = ''batched''" and "\<And>m. finite (dom m) \<Longrightarrow> range_order m (te_keys E m)"
    and "bc_Threshold conf \<noteq> 1"
  shows "\<exists>e. fst (blst_Decrypt E conf hdr (Private tx) (thresh_run E conf ops thresh_init)) = Inl e"
proof -
  have "batch_own (bc_Index conf) (thresh_run E conf ops thresh_init)"
    by (rule thresh_run_invariant [where P = "batch_own (bc_Index conf)"]) (erule batch_own_step, rule batch_own_init)
  with assms batched_fails show ?thesis by blast
qed

section \<open>Threshold mode decrypts\<close>

text \<open>Shares that are what the committee members derive from their scalars.\<close>

definition honest_share :: "nat \<Rightarrow> ('f :: field, 'p1, 'p2, 'gt) blst \<Rightarrow> 'f list \<Rightarrow> u64 \<Rightarrow> int \<Rightarrow> bytes \<Rightarrow> bool" where
  "honest_share N B cs h i v \<longleftrightarrow> h \<noteq> 0 \<and> idx_ok N i
     \<and> DeriveShare B (sc_Serialize B (horner cs (of_int i))) (IdentityForHeight h) = Inr v"

definition honest_map :: "nat \<Rightarrow> ('f :: field, 'p1, 'p2, 'gt) blst \<Rightarrow> 'f list \<Rightarrow> u64 \<Rightarrow> (int \<rightharpoonup> bytes) \<Rightarrow> bool" where
  "honest_map N B cs h m \<longleftrightarrow> finite (dom m) \<and> (\<forall>i v. m i = Some v \<longrightarrow> honest_share N B cs h i v)"

lemma honest_share_length:
  assumes "scalar_ok N B" and "g2_ok B" and "honest_share N B cs h i v"
  shows "length v = 96"
proof -
  obtain hh where hh: "HashToG2 B (IdentityForHeight h) hashDST = g2 B hh" using g2_hash [OF assms(2)] by blast
  have "v = p2_Compress B (g2 B (hh * horner cs (of_int i)))"
    by (rule DeriveShare_point [OF assms(1,2) hh]) (use assms(3) in \<open>simp add: honest_share_def\<close>)
  then show ?thesis by (simp add: g2_okD(5) [OF assms(2)])
qed

lemma honest_key:
  assumes "scalar_ok N (te_B E)" and "g2_ok (te_B E)" and "1 \<le> N" and "\<And>m. finite (dom m) \<Longrightarrow> range_order m (te_keys E m)"
    and "HashToG2 (te_B E) (IdentityForHeight h) hashDST = g2 (te_B E) hh"
    and "honest_map N (te_B E) cs h (snapshotShares h s)" and "h \<noteq> 0" and "getPrivKey h s = []" and "threshEnabled s"
    and "0 < threshK s" and "int (length cs) \<le> threshK s" and "threshK s \<le> int (card (dom (snapshotShares h s)))"
  shows "fst (thresholdPrivateKey E h s) = Some (p2_Compress (te_B E) (g2 (te_B E) (hh * horner cs 0)))"
proof -
  let ?m = "snapshotShares h s"
  let ?ss = "map (\<lambda>i. \<lparr>Index = i, Value = the (?m i)\<rparr>) (te_keys E ?m)"
  have ks: "distinct (te_keys E ?m)" "set (te_keys E ?m) = dom ?m"
    using assms(4) [of ?m] assms(6) by (simp_all add: honest_map_def range_order_def)
  then have len: "length (te_keys E ?m) = card (dom ?m)" by (metis distinct_card)
  have "honest_share N (te_B E) cs h i (the (?m i))" if "i \<in> dom ?m" for i
    using that assms(6) by (auto simp: honest_map_def)
  then have "\<forall>s \<in> set ?ss. idx_ok N (Index s)"
    and "\<forall>s \<in> set ?ss. DeriveShare (te_B E) (sc_Serialize (te_B E) (horner cs (of_int (Index s)))) (IdentityForHeight h) = Inr (Value s)"
    using ks(2) by (simp_all add: honest_share_def)
  then have "CombineShares (te_B E) ?ss (threshK s) = Inr (p2_Compress (te_B E) (g2 (te_B E) (hh * horner cs 0)))"
    using assms(10-12) ks(1) len by (intro CombineShares_key [OF assms(1-3,5)]) (simp_all add: comp_def)
  moreover have "p2_Compress (te_B E) (g2 (te_B E) (hh * horner cs 0)) \<noteq> []"
    using g2_okD(5) [OF assms(2), of "hh * horner cs 0"] by (metis list.size(3) zero_neq_numeral)
  ultimately show ?thesis
    using assms(7-12) len by (simp add: thresholdPrivateKey_def Let_def)
qed

definition recv :: "(u64 \<times> int \<times> bytes) list \<Rightarrow> tstate \<Rightarrow> tstate" where
  "recv msgs s = fold (\<lambda>(h, i, v). HandleThresholdShare h i v) msgs s"

lemma HandleThresholdShare_snapshot:
  assumes "h \<noteq> 0" and "0 < i" and "length v = 96"
  shows "snapshotShares h' (HandleThresholdShare h i v s) =
      (if h' = h \<and> snapshotShares h s i = None then (snapshotShares h s)(i \<mapsto> v) else snapshotShares h' s)"
  using assms by (auto simp: HandleThresholdShare_def snapshotShares_def Let_def)

lemma HandleThresholdShare_frame [simp]:
  "threshEnabled (HandleThresholdShare h i v s) = threshEnabled s" "threshIndex (HandleThresholdShare h i v s) = threshIndex s"
  "threshK (HandleThresholdShare h i v s) = threshK s" "threshShare (HandleThresholdShare h i v s) = threshShare s"
  "privKeyByHeight (HandleThresholdShare h i v s) = privKeyByHeight s"
  by (simp_all add: HandleThresholdShare_def Let_def)

lemma recv_frame [simp]:
  "threshEnabled (recv msgs s) = threshEnabled s" "threshIndex (recv msgs s) = threshIndex s"
  "threshK (recv msgs s) = threshK s" "threshShare (recv msgs s) = threshShare s"
  "privKeyByHeight (recv msgs s) = privKeyByHeight s"
  by (induction msgs arbitrary: s) (auto simp: recv_def)

lemma honest_map_add: "honest_map N B cs h m \<Longrightarrow> honest_share N B cs h i v \<Longrightarrow> honest_map N B cs h (m(i \<mapsto> v))"
  by (simp add: honest_map_def)

lemma recv_honest:
  assumes "scalar_ok N B" and "g2_ok B" and "\<forall>(h, i, v) \<in> set msgs. honest_share N B cs h i v" and "honest_map N B cs H (snapshotShares H s)"
  shows "honest_map N B cs H (snapshotShares H (recv msgs s))
     \<and> dom (snapshotShares H (recv msgs s)) = dom (snapshotShares H s) \<union> {i. \<exists>v. (H, i, v) \<in> set msgs}"
  using assms(3,4)
proof (induction msgs arbitrary: s)
  case (Cons msg msgs)
  obtain h i v where msg: "msg = (h, i, v)" by (cases msg)
  with Cons.prems(1) have hs: "honest_share N B cs h i v" by simp
  then have arg: "h \<noteq> 0" "0 < i" "length v = 96"
    using honest_share_length [OF assms(1,2)] by (auto simp: honest_share_def idx_ok_def)
  let ?s = "HandleThresholdShare h i v s"
  have 1: "honest_map N B cs H (snapshotShares H ?s)"
    using Cons.prems(2) honest_map_add [OF _ hs] by (auto simp: HandleThresholdShare_snapshot [OF arg])
  have 2: "dom (snapshotShares H ?s) = dom (snapshotShares H s) \<union> (if h = H then {i} else {})"
    by (auto simp: HandleThresholdShare_snapshot [OF arg])
  have "recv (msg # msgs) s = recv msgs ?s" by (simp add: recv_def msg)
  with Cons.IH [OF _ 1] Cons.prems(1) 2 msg show ?case by auto
qed (simp add: recv_def)

lemma ensure_honest:
  assumes "honest_map N (te_B E) cs h (snapshotShares h s)" and "honest_share N (te_B E) cs h (threshIndex s) v"
    and "scalar_ok N (te_B E)" and "g2_ok (te_B E)" and "threshEnabled s" and "threshShare s = sc_Serialize (te_B E) (horner cs (of_int (threshIndex s)))"
  shows "honest_map N (te_B E) cs h (snapshotShares h (maybeEnsureShare E h s))
     \<and> dom (snapshotShares h (maybeEnsureShare E h s)) = insert (threshIndex s) (dom (snapshotShares h s))"
proof -
  have v: "h \<noteq> 0" "0 < threshIndex s" "threshShare s \<noteq> []" "v \<noteq> []"
      "DeriveShare (te_B E) (threshShare s) (IdentityForHeight h) = Inr v"
    using assms(2,6) honest_share_length [OF assms(3,4,2)] scalar_okD(6) [OF assms(3), of "horner cs (of_int (threshIndex s))"]
    by (auto simp: honest_share_def idx_ok_def)
  show ?thesis
  proof (cases "getShare h (threshIndex s) s = []")
    case True
    have "maybeEnsureShare E h s = publish_once h (threshIndex s) v (recordLocalShare h (threshIndex s) v s)"
      using True v assms(5) by (simp add: maybeEnsureShare_def Let_def)
    then have "snapshotShares h (maybeEnsureShare E h s) = (snapshotShares h s)(threshIndex s \<mapsto> v)"
      by (simp add: snapshotShares_def recordLocalShare_def)
    then show ?thesis using honest_map_add [OF assms(1,2)] by simp
  next
    case False
    then have "threshIndex s \<in> dom (snapshotShares h s)"
      by (auto simp: getShare_def snapshotShares_def getz_def split: option.splits)
    moreover have "snapshotShares h (maybeEnsureShare E h s) = snapshotShares h s"
      using False v assms(5) by (simp add: maybeEnsureShare_def Let_def snapshotShares_def)
    ultimately show ?thesis using assms(1) by auto
  qed
qed

lemma maybeEnsureShare_frame [simp]:
  "threshEnabled (maybeEnsureShare E h s) = threshEnabled s" "threshK (maybeEnsureShare E h s) = threshK s"
  "getPrivKey h' (maybeEnsureShare E h s) = getPrivKey h' s"
  using maybeEnsureShare_cases [of E h s] by (auto simp: recordLocalShare_def getPrivKey_def)

text \<open>
  A node in threshold mode, its share scalar a value of the committee's polynomial, has
  received shares of honest members, for any heights and in any order. If the members heard
  for a transaction's height together with the node itself reach the threshold, decrypting
  the transaction gives the payload its sender encrypted under the group key.
\<close>

theorem threshold_mode_decrypts:
  fixes E :: "('f :: field, 'p1 :: ab_group_add, 'p2 :: ab_group_add, 'gt) tenv"
  assumes "scalar_ok N (te_B E)" and "g1_ok (te_B E)" and "g2_ok (te_B E)" and "pairing_ok (te_B E)" and "1 \<le> N" and "aes_ok (te_aes E)"
    and "\<And>m. finite (dom m) \<Longrightarrow> range_order m (te_keys E m)"
    and "bc_Mode conf = ''threshold''" and "bc_Share conf = sc_Serialize (te_B E) (horner cs (of_int (bc_Index conf)))"
    and "int (length cs) \<le> bc_Threshold conf" and "EnableBLSTDecrypt E conf thresh_init = Inr s0"
    and "\<forall>(h, i, v) \<in> set msgs. honest_share N (te_B E) cs h i v"
    and "honest_share N (te_B E) cs (pv_TargetHeight tx) (bc_Index conf) own"
    and "bc_Threshold conf \<le> int (card (insert (bc_Index conf) {i. \<exists>v. (pv_TargetHeight tx, i, v) \<in> set msgs}))"
    and "length nonce = 12" and "ibe_Encrypt (te_B E) (te_sha E) (te_aes E) ikm (Some nonce) (p1_Compress (te_B E) (g1 (te_B E) (horner cs 0)))
           (IdentityForHeight (pv_TargetHeight tx)) msg = Inr (pv_EphemeralKey tx, pv_Ciphertext tx)"
    and "msg \<noteq> []" and "decodeEnvelopeBytes (te_unjson E) msg = Some pl" and "pv_TargetHeight tx \<le> bh_Height hdr"
  shows "fst (blst_Decrypt E conf hdr (Private tx) (recv msgs s0)) = Inr (Some pl)"
proof -
  let ?H = "pv_TargetHeight tx"
  have H: "?H \<noteq> 0" using assms(13) by (simp add: honest_share_def)
  have s0: "s0 = enableThreshold (bc_Index conf) (bc_Threshold conf) (bc_Share conf) thresh_init" "0 < bc_Threshold conf"
    using assms(8,11) by (auto simp: EnableBLSTDecrypt_def split: if_splits)
  have "honest_map N (te_B E) cs ?H (snapshotShares ?H s0)" "dom (snapshotShares ?H s0) = {}"
    by (simp_all add: s0 honest_map_def snapshotShares_def enableThreshold_def thresh_init_def)
  then have recv: "honest_map N (te_B E) cs ?H (snapshotShares ?H (recv msgs s0))"
      "dom (snapshotShares ?H (recv msgs s0)) = {i. \<exists>v. (?H, i, v) \<in> set msgs}"
    using recv_honest [OF assms(1,3,12)] by auto
  define s where "s = maybeEnsureShare E ?H (recv msgs s0)"
  have ens: "honest_map N (te_B E) cs ?H (snapshotShares ?H s)"
      "dom (snapshotShares ?H s) = insert (bc_Index conf) {i. \<exists>v. (?H, i, v) \<in> set msgs}"
    unfolding s_def using ensure_honest [of N E cs ?H "recv msgs s0" own] recv assms(1,3,9,13)
    by (simp_all add: s0 enableThreshold_def)
  have st: "threshEnabled s" "threshK s = bc_Threshold conf" "getPrivKey ?H s = []"
    by (simp_all add: s_def s0 enableThreshold_def thresh_init_def getPrivKey_def [of _ "recv _ _"])
  obtain hh where hh: "HashToG2 (te_B E) (IdentityForHeight ?H) hashDST = g2 (te_B E) hh" using g2_hash [OF assms(3)] by blast
  have "fst (thresholdPrivateKey E ?H s) = Some (p2_Compress (te_B E) (g2 (te_B E) (hh * horner cs 0)))"
    by (rule honest_key [OF _ _ assms(5,7)]) (use assms(1,3,10,14) hh ens st H s0(2) in \<open>simp_all\<close>)
  moreover have "ibe_Decrypt (te_B E) (te_sha E) (te_aes E) (p2_Compress (te_B E) (g2 (te_B E) (hh * horner cs 0))) (pv_EphemeralKey tx) (pv_Ciphertext tx) = Inr msg"
    by (rule ibe_roundtrip [OF assms(1-4) hh assms(6,15,16)])
  moreover have "pv_EphemeralKey tx \<noteq> []" "pv_Ciphertext tx \<noteq> []"
    using assms(15,16) g1_okD(5) [OF assms(2)]
    by (auto simp: ibe_Encrypt_def Let_def split: option.splits dest!: arg_cong [where f = length])
  ultimately have "fst (decryptThresholdIBE E tx (recv msgs s0)) = Inr (Some pl)"
    using assms(17,18) by (simp add: decryptThresholdIBE_def s_def [symmetric] decoded_def prod_eq_iff split: prod.splits)
  then show ?thesis using H assms(8,19) by (simp add: blst_Decrypt_def)
qed

section \<open>Batched mode decrypts with a single key\<close>

lemma range_order_single: "range_order [i \<mapsto> v] ks \<longleftrightarrow> ks = [i]"
proof
  assume "range_order [i \<mapsto> v] ks"
  then have "distinct ks" "set ks = {i}" by (simp_all add: range_order_def)
  then show "ks = [i]" by (cases ks; cases "tl ks") auto
qed (simp add: range_order_def)

lemma record_snapshot:
  assumes "h \<noteq> 0" and "b \<noteq> 0" and "0 < i" and "length v = 48" and "snapshotBatchedShares h b s = Map.empty"
  shows "snapshotBatchedShares h b (recordBatchedShare h b i v s) = [i \<mapsto> v]"
  using assms by (simp add: recordBatchedShare_def snapshotBatchedShares_def Let_def)

lemma batched_recover_value:
  assumes "scalar_ok N (te_B E)" and "g1_ok (te_B E)" and "g2_ok (te_B E)" and "pairing_ok (te_B E)" and "1 \<le> N"
    and "\<And>m. finite (dom m) \<Longrightarrow> range_order m (te_keys E m)" and "powers_of (te_B E) x pp"
    and "bc_Threshold conf = 1" and "idx_ok N (bc_Index conf)" and "0 < i" and "i \<le> pp_N pp" and "sint (pv_BatchIndex tx) = i"
    and "PartialDecrypt (te_B E) (ct_for (te_B E) sk r k) (sc_Serialize (te_B E) sk) (bc_Index conf) = Inr sh"
    and "snapshotBatchedShares (pv_TargetHeight tx) (pv_BatchIndex tx) s = [bc_Index conf \<mapsto> pd_Share sh]"
    and "pv_PuncturedKey tx = p1_Compress (te_B E) (g1 (te_B E) (x ^ nat i * k))"
  shows "batched_recover E conf tx pp (ct_for (te_B E) sk r k) s
      = decoded E (RecoverXOR (te_sha E) (pv_Ciphertext tx) (prf_value (te_B E) x (pp_N pp) k i))"
proof -
  have keys: "te_keys E [bc_Index conf \<mapsto> pd_Share sh] = [bc_Index conf]"
    by (rule range_order_single [THEN iffD1, OF assms(6)]) simp
  have sh: "sh = \<lparr>pd_Index = bc_Index conf, pd_Share = pd_Share sh\<rparr>" using PartialDecrypt_index [OF assms(13)] by simp
  have "DecryptKeyG (te_B E) (ct_for (te_B E) (horner [sk] 0) r k) [sh] 1 = Inr (p1_Compress (te_B E) (g1 (te_B E) k))"
    by (rule DecryptKeyG_key [OF assms(1,2,5)]) (use assms(9,13) PartialDecrypt_index [OF assms(13)] in simp_all)
  moreover have "RecoverPRFAt (te_B E) pp (p1_Compress (te_B E) (g1 (te_B E) k)) i [(i, pv_PuncturedKey tx)]
      = Inr (prf_value (te_B E) x (pp_N pp) k i)"
    using RecoverPRFAt_prf [OF assms(2-4,7), of "[(i, k)]" i k] assms(10,11,15) by simp
  ultimately show ?thesis
    using sh by (simp add: batched_recover_def Let_def assms(8,12,14) keys)
qed

lemma setup_powers:
  assumes "scalar_ok N B" and "g1_ok B" and "g2_ok B" and "0 < n" and "SetupLinearDeterministic B sha n pk = Inr pp"
  obtains x where "powers_of B x pp" and "pp_N pp = n"
proof -
  obtain x where x: "x \<noteq> 0" "buildLinearParams B n x = Inr pp"
    using assms(4,5) scalar_okD(7) [OF assms(1)] by (auto simp: SetupLinearDeterministic_def split: if_splits option.splits)
  then show ?thesis using buildLinearParams_ok [OF assms(1-3) x(1) assms(4)] that by auto
qed

lemma batch_index_sint: "0 < i \<Longrightarrow> i < 2 ^ 63 \<Longrightarrow> sint (word_of_int i :: u64) = i"
  by (simp add: sint_sbintrunc' signed_take_bit_int_eq_self)

text \<open>
  A single key holder in batched mode: a transaction whose sender encrypted a key under the
  group key, punctured it at the transaction's batch index and masked the payload with the
  function's value there is decrypted, when no share was recorded before for its height and
  batch index.
\<close>

theorem batched_mode_decrypts:
  fixes E :: "('f :: field, 'p1 :: ab_group_add, 'p2 :: ab_group_add, 'gt) tenv"
  assumes "scalar_ok N (te_B E)" and "g1_ok (te_B E)" and "g2_ok (te_B E)" and "pairing_ok (te_B E)" and "1 \<le> N"
    and "\<And>m. finite (dom m) \<Longrightarrow> range_order m (te_keys E m)"
    and "bc_Mode conf = ''batched''" and "bc_Threshold conf = 1" and "idx_ok N (bc_Index conf)"
    and "sk \<noteq> 0" and "bc_Share conf = sc_Serialize (te_B E) sk" and "bc_GroupPubKey conf = p1_Compress (te_B E) (g1 (te_B E) sk)"
    and "SetupLinearDeterministic (te_B E) (te_sha E) (bc_BatchN conf) (bc_GroupPubKey conf) = Inr pp"
    and "0 < i" and "i \<le> bc_BatchN conf" and "i < 2 ^ 63" and "pv_BatchIndex tx = word_of_int i"
    and "k \<noteq> 0" and "EncryptKey (te_B E) ikm (bc_GroupPubKey conf) (sc_Serialize (te_B E) k) = Inr ct"
    and "pv_EphemeralKey tx = ct_C1 ct @ ct_C2 ct" and "Puncture (te_B E) pp (sc_Serialize (te_B E) k) i = Inr (pv_PuncturedKey tx)"
    and "Eval (te_B E) pp (sc_Serialize (te_B E) k) i = Inr v" and "pv_Ciphertext tx = RecoverXOR (te_sha E) msg v"
    and "msg \<noteq> []" and "decodeEnvelopeBytes (te_unjson E) msg = Some pl"
    and "pv_TargetHeight tx \<noteq> 0" and "pv_TargetHeight tx \<le> bh_Height hdr"
    and "snapshotBatchedShares (pv_TargetHeight tx) (pv_BatchIndex tx) s = Map.empty"
  shows "fst (blst_Decrypt E conf hdr (Private tx) s) = Inr (Some pl)"
proof -
  let ?B = "te_B E"
  have n: "0 < bc_BatchN conf" using assms(14,15) by linarith
  obtain x where pp: "powers_of ?B x pp" "pp_N pp = bc_BatchN conf" using setup_powers [OF assms(1-3) n assms(13)] .
  obtain r where ct: "ct = ct_for ?B sk r k" using EncryptKey_ct [OF assms(1,2,18) assms(19) [unfolded assms(12)]] by blast
  have sint: "sint (pv_BatchIndex tx) = i" unfolding assms(17) by (rule batch_index_sint [OF assms(14,16)])
  with assms(14) have nonzero: "pv_BatchIndex tx \<noteq> 0" by auto
  have len: "length (ct_C1 ct) = 48" "length (ct_C2 ct) = 48" by (simp_all add: ct ct_for_def g1_okD(5) [OF assms(2)])
  then have split: "\<lparr>ct_C1 = take 48 (pv_EphemeralKey tx), ct_C2 = drop 48 (pv_EphemeralKey tx)\<rparr> = ct_for ?B sk r k"
    using assms(20) ct by (simp add: ct_for_def)
  have len96: "length (pv_EphemeralKey tx) = 96" using len assms(20) by simp
  have idx: "0 < bc_Index conf" using assms(9) by (simp add: idx_ok_def)
  obtain sh where sh: "PartialDecrypt ?B (ct_for ?B sk r k) (bc_Share conf) (bc_Index conf) = Inr sh"
      "pd_Share sh = p1_Compress ?B (g1 ?B (r * sk))"
    using idx scalar_key [OF assms(1,10)] assms(11)
    by (simp add: PartialDecrypt_def ct_for_def g1_okD(1,4,5) [OF assms(2)])
  have pk: "pv_PuncturedKey tx = p1_Compress ?B (g1 ?B (x ^ nat i * k))"
    using assms(21) Puncture_point [OF assms(1-3) pp(1) assms(18,14)] assms(15) pp(2) by simp
  have ev: "v = prf_value ?B x (pp_N pp) k i"
    using assms(22) Eval_prf [OF assms(1-3) pp(1) assms(18,14)] assms(15) pp(2) by simp
  define s' where "s' = recordBatchedShare (pv_TargetHeight tx) (pv_BatchIndex tx) (pd_Index sh) (pd_Share sh) s"
  have snap: "snapshotBatchedShares (pv_TargetHeight tx) (pv_BatchIndex tx) s' = [bc_Index conf \<mapsto> pd_Share sh]"
    unfolding s'_def PartialDecrypt_index [OF sh(1)]
    by (rule record_snapshot) (use assms(26,28) nonzero idx in \<open>simp_all add: sh(2) g1_okD(5) [OF assms(2)]\<close>)
  have "batched_recover E conf tx pp (ct_for ?B sk r k) t = decoded E (RecoverXOR (te_sha E) (pv_Ciphertext tx) v)"
    if "batchSharesByHeight t = batchSharesByHeight s'" for t
    unfolding ev
    by (rule batched_recover_value [OF assms(1-6) pp(1) assms(8,9,14) _ sint sh(1) [unfolded assms(11)] _ pk])
       (use assms(15) pp(2) snap that in \<open>simp_all add: snapshotBatchedShares_def\<close>)
  moreover have "decoded E (RecoverXOR (te_sha E) (pv_Ciphertext tx) v) = Inr (Some pl)"
    using assms(23-25) by (simp add: decoded_def RecoverXOR_involutive)
  moreover have "pv_Ciphertext tx \<noteq> []" using assms(23,24) RecoverXOR_involutive [of "te_sha E" msg v] by (auto simp: RecoverXOR_def)
  ultimately have "fst (decryptBatched E conf tx s) = Inr (Some pl)"
    using n idx assms(13,15) len96 scalar_key(1) [OF assms(1,10)] assms(11) sint nonzero pk g1_okD(5) [OF assms(2)] sh(1)
    by (simp add: decryptBatched_def split Let_def s'_def [symmetric])
  then show ?thesis using assms(7,26,27) by (simp add: blst_Decrypt_def)
qed

section \<open>Examples\<close>

definition demo_te :: "(f5, f5, f5, f5) tenv" where
  "demo_te = \<lparr>te_B = small_blst, te_sha = id, te_aes = (\<lambda>_. Some demo_aead),
     te_unjson = (\<lambda>b. if b = [1] then Some demo_envelope else None),
     te_keys = (\<lambda>m. sorted_list_of_set (dom m)), te_tag = True\<rparr>"

definition demo_conf :: "string \<Rightarrow> int \<Rightarrow> f5 \<Rightarrow> private_config" where
  "demo_conf mode k share = \<lparr>bc_Mode = mode, bc_GroupPubKey = p1_Compress small_blst (g1 small_blst F2), bc_Committee = [],
     bc_Threshold = k, bc_Index = 1, bc_Share = sc_Serialize small_blst share, bc_BatchN = 3\<rparr>"

lemma demo_te_simps [simp]:
  "te_B demo_te = small_blst" "te_sha demo_te = id" "te_aes demo_te = (\<lambda>_. Some demo_aead)"
  "te_unjson demo_te [1] = Some demo_envelope" "te_tag demo_te"
  by (simp_all add: demo_te_def)

lemma demo_te_keys: "finite (dom m) \<Longrightarrow> range_order m (te_keys demo_te m)"
  by (simp add: demo_te_def range_order_def)

lemma small_nonzero: "F1 \<noteq> 0" "F2 \<noteq> 0" "F3 \<noteq> 0" "F4 \<noteq> 0"
  by (simp_all add: zero_f5_def)

lemma demo_conf_enabled:
  "EnableBLSTDecrypt demo_te (demo_conf ''threshold'' 2 F3) thresh_init = Inr (enableThreshold 1 2 (sc_Serialize small_blst F3) thresh_init)"
  using scalar_okD(6) [OF small_scalar_ok, of F3] g1_okD(5) [OF small_g1_ok, of F2]
  by (auto simp: EnableBLSTDecrypt_def demo_conf_def)

lemma demo_decoded: "\<exists>pl. decodeEnvelopeBytes (te_unjson demo_te) [1] = Some pl"
  by (simp add: decodeEnvelopeBytes_def) (simp add: demo_envelope_def)

theorem threshold_mode_decrypts_witness:
  "\<exists>tx msgs pl. pv_TargetHeight tx = 7 \<and> fst (blst_Decrypt demo_te (demo_conf ''threshold'' 2 F3) \<lparr>bh_Height = 8, bh_Round = 0\<rparr> (Private tx)
     (recv msgs (enableThreshold 1 2 (sc_Serialize small_blst F3) thresh_init))) = Inr (Some pl)"
proof -
  obtain v1 v2 where v: "DeriveShare small_blst (sc_Serialize small_blst F3) (IdentityForHeight 7) = Inr v1"
      "DeriveShare small_blst (sc_Serialize small_blst F4) (IdentityForHeight 7) = Inr v2"
    using small_derives small_nonzero(3,4) by meson
  have h: "honest_share 4 small_blst [F2, F1] 7 1 v1" "honest_share 4 small_blst [F2, F1] 7 2 v2"
    using v by (simp_all add: honest_share_def idx_ok_def demo_horner del: horner.simps)
  obtain u ct where enc: "ibe_Encrypt small_blst id (\<lambda>_. Some demo_aead) (Some [1]) (Some (replicate 12 5))
      (p1_Compress small_blst (g1 small_blst F2)) (IdentityForHeight 7) [1] = Inr (u, ct)" using small_encrypts by blast
  obtain pl where pl: "decodeEnvelopeBytes (te_unjson demo_te) [1] = Some pl" using demo_decoded by blast
  let ?tx = "\<lparr>pv_From = [], pv_Nonce = 0, pv_Ciphertext = ct, pv_EphemeralKey = u, pv_TargetHeight = 7, pv_BatchIndex = 0, pv_PuncturedKey = []\<rparr>"
  have "fst (blst_Decrypt demo_te (demo_conf ''threshold'' 2 F3) \<lparr>bh_Height = 8, bh_Round = 0\<rparr> (Private ?tx)
     (recv [(7, 2, v2)] (enableThreshold 1 2 (sc_Serialize small_blst F3) thresh_init))) = Inr (Some pl)"
    by (rule threshold_mode_decrypts [where E = demo_te and N = 4 and cs = "[F2, F1]" and msg = "[1]" and ikm = "Some [1]"
          and nonce = "replicate 12 5" and own = v1, OF _ _ _ _ _ _ demo_te_keys _ _ _ demo_conf_enabled])
       (use small_ok h enc pl demo_aead_ok demo_horner in \<open>simp_all add: demo_conf_def aes_ok_def del: horner.simps\<close>)
  then show ?thesis by (intro exI [of _ ?tx]) auto
qed

theorem first_share_wins_witness:
  "getShare 7 1 (thresh_run demo_te (demo_conf ''threshold'' 2 F3) [TShare 7 1 (replicate 96 8), TEnsure 7]
     (HandleThresholdShare 7 1 (replicate 96 9) thresh_init)) = replicate 96 9"
  by (rule first_share_wins) simp_all

theorem forged_own_share_published_witness:
  "published (maybeEnsureShare demo_te 7 (HandleThresholdShare 7 1 (replicate 96 9)
     (SetThresholdSharePublisher True (enableThreshold 1 2 (replicate 32 3) thresh_init)))) = [(7, 1, replicate 96 9)]"
  by (rule forged_own_share_published) simp_all

theorem combined_key_kept_witness:
  "fst (thresholdPrivateKey demo_te 7 (thresh_run demo_te (demo_conf ''threshold'' 2 F3) [TShare 7 1 (replicate 96 9)]
     (snd (thresholdPrivateKey demo_te 7 (setPrivKey 7 [5] thresh_init))))) = Some [5]"
  by (rule combined_key_kept) (simp add: thresholdPrivateKey_def getPrivKey_def setPrivKey_def)

theorem batched_mode_threshold_one_witness:
  "\<exists>e. fst (blst_Decrypt demo_te (demo_conf ''batched'' 2 F2) \<lparr>bh_Height = 8, bh_Round = 0\<rparr>
     (Private \<lparr>pv_From = [], pv_Nonce = 0, pv_Ciphertext = [1], pv_EphemeralKey = replicate 96 1, pv_TargetHeight = 7,
        pv_BatchIndex = 1, pv_PuncturedKey = replicate 48 1\<rparr>) (thresh_run demo_te (demo_conf ''batched'' 2 F2) [TShare 7 2 (replicate 96 9)] thresh_init)) = Inl e"
  by (rule batched_mode_threshold_one [OF _ demo_te_keys]) (simp_all add: demo_conf_def)

theorem batched_mode_decrypts_witness:
  "\<exists>tx pl. pv_BatchIndex tx = 1 \<and> fst (blst_Decrypt demo_te (demo_conf ''batched'' 1 F2) \<lparr>bh_Height = 8, bh_Round = 0\<rparr> (Private tx) thresh_init)
     = Inr (Some pl)"
proof -
  let ?pk = "p1_Compress small_blst (g1 small_blst F2)"
  have "p1_Compress small_blst (g1 small_blst F2) \<noteq> []" using g1_okD(5) [OF small_g1_ok, of F2] by auto
  moreover have "sk_KeyGen small_blst ?pk = Some F2" using small_nonzero(2) by (simp add: small_blst_def)
  moreover obtain pp where pp: "buildLinearParams small_blst 3 F2 = Inr pp" "powers_of small_blst F2 pp" "pp_N pp = 3"
    using buildLinearParams_ok [OF small_ok(1-3) small_nonzero(2), of 3] by auto
  ultimately have pps: "SetupLinearDeterministic small_blst id 3 ?pk = Inr pp" by (simp add: SetupLinearDeterministic_def)
  obtain ct where ct: "EncryptKey small_blst (Some [1]) ?pk (sc_Serialize small_blst F3) = Inr ct" using demo_encrypts small_nonzero(3) by blast
  obtain kStar v where k: "Puncture small_blst pp (sc_Serialize small_blst F3) 1 = Inr kStar" "Eval small_blst pp (sc_Serialize small_blst F3) 1 = Inr v"
    using Puncture_point [OF small_ok(1-3) pp(2) small_nonzero(3), of 1] Eval_prf [OF small_ok(1-3) pp(2) small_nonzero(3), of 1] pp(3) by simp
  obtain pl where pl: "decodeEnvelopeBytes (te_unjson demo_te) [1] = Some pl" using demo_decoded by blast
  let ?tx = "\<lparr>pv_From = [], pv_Nonce = 0, pv_Ciphertext = RecoverXOR id [1] v, pv_EphemeralKey = ct_C1 ct @ ct_C2 ct, pv_TargetHeight = 7,
    pv_BatchIndex = 1, pv_PuncturedKey = kStar\<rparr>"
  have "fst (blst_Decrypt demo_te (demo_conf ''batched'' 1 F2) \<lparr>bh_Height = 8, bh_Round = 0\<rparr> (Private ?tx) thresh_init) = Inr (Some pl)"
    by (rule batched_mode_decrypts [where E = demo_te and N = 4 and sk = F2 and k = F3 and i = 1 and msg = "[1]" and v = v and pp = pp
          and ikm = "Some [1]" and ct = ct, OF _ _ _ _ _ demo_te_keys])
       (use small_ok small_nonzero pps ct k pl in \<open>simp_all add: demo_conf_def idx_ok_def snapshotBatchedShares_def thresh_init_def\<close>)
  then show ?thesis by (intro exI [of _ ?tx]) auto
qed

end
