(* ===== verification/Beast_Runner.thy ===== *)
theory Beast_Runner
  imports Feldman Wire Beast_Config Beast_Engine
begin

text \<open>
  The networked key generation, \<^verbatim>\<open>internal/tss/dkg/beast_runner_blst.go\<close>: every node deals a
  polynomial, broadcasts signed commitments and encrypted shares, acknowledges or complains,
  and finishes with its share of the committee's key. A handler runs as one step: the model
  has the interleavings of messages and retry ticks, not those inside a handler. What a
  handler sends, stores or saves is appended to \<open>ru_out\<close>. Ed25519, X25519, AES-GCM, SHA-256,
  JSON, the random source and the order of ranging over a set are arguments.
\<close>

section \<open>State\<close>

record BeastDKGResult =
  dr_Index :: int
  dr_Threshold :: int
  dr_GroupPubKey :: bytes
  dr_ShareScalar :: bytes

definition no_result :: BeastDKGResult where
  "no_result = \<lparr>dr_Index = 0, dr_Threshold = 0, dr_GroupPubKey = [], dr_ShareScalar = []\<rparr>"

record beastSessionState =
  bss_Epoch :: u64
  bss_Coeffs :: "bytes list"
  bss_SelfCommitments :: "bytes list"
  bss_Commitments :: "int \<rightharpoonup> bytes list"
  bss_Shares :: "int \<rightharpoonup> bytes"
  bss_Acks :: "int \<Rightarrow> int list"
  bss_Complaints :: "int \<Rightarrow> int list"
  bss_Disqualified :: "int list"
  bss_Done :: bool
  bss_GroupPubKey :: bytes
  bss_ShareScalar :: bytes

datatype runner_out =
    BroadcastTSSDKG TSSDKG
  | SaveSession string beastSessionState
  | SaveKey int bytes bytes
  | RunnerMetric metric

text \<open>
  A missing entry of \<^verbatim>\<open>acks\<close> or \<^verbatim>\<open>complaints\<close> reads as the empty set, so both are total. A
  share that is present is never nil.
\<close>

record 'f runner =
  ru_epoch :: u64
  ru_coeffs :: "'f list"
  ru_self :: "bytes list"
  ru_commitments :: "int \<rightharpoonup> bytes list"
  ru_shares :: "int \<rightharpoonup> 'f"
  ru_pendingShare :: "int \<rightharpoonup> TSSDKG"
  ru_pendingOpen :: "int \<rightharpoonup> TSSDKG"
  ru_acks :: "int \<Rightarrow> int fset"
  ru_complaints :: "int \<Rightarrow> int fset"
  ru_bad :: "int fset"
  ru_done :: bool
  ru_finalizing :: bool
  ru_result :: BeastDKGResult
  ru_retryInterval :: int
  ru_epochTimeout :: int
  ru_epochStart :: int
  ru_rng :: nat
  ru_out :: "runner_out list"

record ('f, 'p1, 'p2, 'gt) renv =
  rv_B :: "('f, 'p1, 'p2, 'gt) blst"
  rv_cfg :: BeastDKGConfig
  rv_sha :: "bytes \<Rightarrow> bytes"
  rv_aes :: "bytes \<Rightarrow> aead option"
  rv_sign :: "bytes \<Rightarrow> bytes \<Rightarrow> bytes"
  rv_verify :: "bytes \<Rightarrow> bytes \<Rightarrow> bytes \<Rightarrow> bool"
  rv_x25519 :: "bytes \<Rightarrow> bytes \<Rightarrow> bytes option"
  rv_json :: "TSSDKG \<Rightarrow> bytes option"
  rv_rand :: "nat \<Rightarrow> bytes option"
  rv_order :: "int fset \<Rightarrow> int list"

definition emit :: "runner_out \<Rightarrow> 'f runner \<Rightarrow> 'f runner" where
  "emit e r = r\<lparr>ru_out := ru_out r @ [e]\<rparr>"

definition dkg_metric :: "string \<Rightarrow> runner_out" where
  "dkg_metric result = RunnerMetric (Inc ''beast_dkg_total'' [(''result'', result)])"

definition NewBeastDKGRunner :: "int \<Rightarrow> ('f, 'p1, 'p2, 'gt) renv \<Rightarrow> dkg_conf_error + 'f runner" where
  "NewBeastDKGRunner now E =
     (case dkg_Validate (rv_cfg E) of Inl e \<Rightarrow> Inl e
      | Inr _ \<Rightarrow> Inr \<lparr>ru_epoch = (if dc_Epoch (rv_cfg E) = 0 then 1 else dc_Epoch (rv_cfg E)), ru_coeffs = [], ru_self = [],
          ru_commitments = Map.empty, ru_shares = Map.empty, ru_pendingShare = Map.empty, ru_pendingOpen = Map.empty,
          ru_acks = (\<lambda>_. {||}), ru_complaints = (\<lambda>_. {||}), ru_bad = {||}, ru_done = False, ru_finalizing = False,
          ru_result = no_result, ru_retryInterval = 2, ru_epochTimeout = 60, ru_epochStart = now, ru_rng = 0, ru_out = []\<rparr>)"

definition WithRetryInterval :: "int \<Rightarrow> 'f runner \<Rightarrow> 'f runner" where
  "WithRetryInterval d r = (if d > 0 then r\<lparr>ru_retryInterval := d\<rparr> else r)"

definition WithEpochTimeout :: "int \<Rightarrow> 'f runner \<Rightarrow> 'f runner" where
  "WithEpochTimeout d r = (if d > 0 then r\<lparr>ru_epochTimeout := d\<rparr> else r)"

definition runner_Result :: "'f runner \<Rightarrow> BeastDKGResult option" where
  "runner_Result r = (if ru_done r then Some (ru_result r) else None)"

section \<open>Persistence\<close>

definition session_of :: "('f, 'p1, 'p2, 'gt) renv \<Rightarrow> 'f runner \<Rightarrow> beastSessionState" where
  "session_of E r = \<lparr>bss_Epoch = ru_epoch r, bss_Coeffs = map (sc_Serialize (rv_B E)) (ru_coeffs r),
     bss_SelfCommitments = ru_self r, bss_Commitments = ru_commitments r,
     bss_Shares = map_option (sc_Serialize (rv_B E)) \<circ> ru_shares r,
     bss_Acks = rv_order E \<circ> ru_acks r, bss_Complaints = rv_order E \<circ> ru_complaints r,
     bss_Disqualified = rv_order E (ru_bad r), bss_Done = ru_done r,
     bss_GroupPubKey = dr_GroupPubKey (ru_result r), bss_ShareScalar = dr_ShareScalar (ru_result r)\<rparr>"

definition persistLocked :: "('f, 'p1, 'p2, 'gt) renv \<Rightarrow> 'f runner \<Rightarrow> 'f runner" where
  "persistLocked E r =
     (if dc_SessionDir (rv_cfg E) = [] then r
      else emit (SaveSession (dc_SessionID (rv_cfg E)) (session_of E r)) r)"

fun deserialize_all :: "('f, 'p1, 'p2, 'gt) blst \<Rightarrow> bytes list \<Rightarrow> 'f list option" where
  "deserialize_all B [] = Some []"
| "deserialize_all B (b # bs) =
     (case sc_Deserialize B b of None \<Rightarrow> None
      | Some s \<Rightarrow> (case deserialize_all B bs of None \<Rightarrow> None | Some ss \<Rightarrow> Some (s # ss)))"

text \<open>The part of \<^verbatim>\<open>restore\<close> after the coefficients: the gossip state is merged into the fresh one.\<close>

definition restore_gossip :: "('f, 'p1, 'p2, 'gt) renv \<Rightarrow> beastSessionState \<Rightarrow> 'f runner \<Rightarrow> 'f runner" where
  "restore_gossip E st r =
     (let i = dc_Index (rv_cfg E);
          r = (if bss_SelfCommitments st = [] then r
               else r\<lparr>ru_self := bss_SelfCommitments st, ru_commitments := (ru_commitments r)(i \<mapsto> bss_SelfCommitments st)\<rparr>);
          r = r\<lparr>ru_commitments := ru_commitments r ++ bss_Commitments st,
                ru_shares := ru_shares r ++ (\<lambda>d. Option.bind (bss_Shares st d) (sc_Deserialize (rv_B E))),
                ru_acks := (\<lambda>d. ru_acks r d |\<union>| fset_of_list (bss_Acks st d)),
                ru_complaints := (\<lambda>d. ru_complaints r d |\<union>| fset_of_list (bss_Complaints st d)),
                ru_bad := ru_bad r |\<union>| fset_of_list (filter (\<lambda>d. d > 0) (bss_Disqualified st))\<rparr>
      in if ru_coeffs r \<noteq> [] \<and> ru_shares r i = None
         then (case evalPolyAt (rv_B E) (map Some (ru_coeffs r)) i of
                 Inl e \<Rightarrow> r | Inr s \<Rightarrow> r\<lparr>ru_shares := (ru_shares r)(i \<mapsto> s)\<rparr>)
         else r)"

definition runner_restore :: "('f, 'p1, 'p2, 'gt) renv \<Rightarrow> beastSessionState \<Rightarrow> 'f runner \<Rightarrow> 'f runner" where
  "runner_restore E st r =
     (if bss_Epoch st = 0 then r
      else let r = r\<lparr>ru_epoch := bss_Epoch st\<rparr> in
        if bss_Done st \<and> length (bss_ShareScalar st) = 32
        then r\<lparr>ru_done := True, ru_result := \<lparr>dr_Index = dc_Index (rv_cfg E), dr_Threshold = dc_Threshold (rv_cfg E),
                 dr_GroupPubKey = bss_GroupPubKey st, dr_ShareScalar = bss_ShareScalar st\<rparr>\<rparr>
        else if bss_Coeffs st \<noteq> []
        then (case deserialize_all (rv_B E) (bss_Coeffs st) of
                None \<Rightarrow> r
              | Some cs \<Rightarrow> restore_gossip E st (r\<lparr>ru_coeffs := cs\<rparr>))
        else restore_gossip E st r)"

section \<open>Messages\<close>

definition member :: "('f, 'p1, 'p2, 'gt) renv \<Rightarrow> int \<Rightarrow> BeastDKGMember option" where
  "member E index = find (\<lambda>m. bm_Index m = index) (dc_Committee (rv_cfg E))"

definition signMessage :: "('f, 'p1, 'p2, 'gt) renv \<Rightarrow> TSSDKG \<Rightarrow> TSSDKG option" where
  "signMessage E m =
     (if length (dc_SigPriv (rv_cfg E)) \<noteq> 64 then None
      else map_option (\<lambda>b. m\<lparr>wd_Sig := rv_sign E (dc_SigPriv (rv_cfg E)) b\<rparr>) (rv_json E (m\<lparr>wd_Sig := []\<rparr>)))"

definition verifySig :: "('f, 'p1, 'p2, 'gt) renv \<Rightarrow> TSSDKG \<Rightarrow> bool" where
  "verifySig E m =
     (case member E (wd_FromIndex m) of None \<Rightarrow> False
      | Some mem \<Rightarrow>
          if length (bm_SigPub mem) \<noteq> 32 then False
          else (case rv_json E (m\<lparr>wd_Sig := []\<rparr>) of None \<Rightarrow> False
                | Some b \<Rightarrow> rv_verify E (bm_SigPub mem) b (wd_Sig m)))"

definition kdf_input :: "bytes \<Rightarrow> string \<Rightarrow> u64 \<Rightarrow> int \<Rightarrow> int \<Rightarrow> bytes" where
  "kdf_input shared sid epoch fromIndex toIndex =
     str_bytes ''EQS/BEAST/DKG/v1'' @ shared @ str_bytes sid @ put_be 8 epoch
       @ put_be 4 (word_of_int fromIndex :: u32) @ put_be 4 (word_of_int toIndex :: u32)"

definition deriveShareKey :: "('f, 'p1, 'p2, 'gt) renv \<Rightarrow> u64 \<Rightarrow> int \<Rightarrow> int \<Rightarrow> bytes option" where
  "deriveShareKey E epoch fromIndex toIndex =
     (let i = dc_Index (rv_cfg E) in
      case (if fromIndex = i \<and> toIndex \<noteq> i then Some toIndex
            else if toIndex = i \<and> fromIndex \<noteq> i then Some fromIndex else None) of
        None \<Rightarrow> None
      | Some peer \<Rightarrow>
          (case member E peer of None \<Rightarrow> None
           | Some mem \<Rightarrow>
               if length (bm_EncPub mem) \<noteq> 32 then None
               else map_option (\<lambda>shared. rv_sha E (kdf_input shared (dc_SessionID (rv_cfg E)) epoch fromIndex toIndex))
                      (rv_x25519 E (dc_EncPriv (rv_cfg E)) (bm_EncPub mem))))"

definition encryptShare :: "('f, 'p1, 'p2, 'gt) renv \<Rightarrow> bytes option \<Rightarrow> bytes \<Rightarrow> bytes \<Rightarrow> (bytes \<times> bytes) option" where
  "encryptShare E rd key pt =
     (if length key \<noteq> 32 then None
      else case rv_aes E key of None \<Rightarrow> None
      | Some gcm \<Rightarrow> map_option (\<lambda>nonce. (nonce, seal gcm nonce pt)) rd)"

definition decryptShare :: "('f, 'p1, 'p2, 'gt) renv \<Rightarrow> bytes \<Rightarrow> bytes \<Rightarrow> bytes \<Rightarrow> bytes option" where
  "decryptShare E key nonce ct =
     (if length key \<noteq> 32 then None
      else case rv_aes E key of None \<Rightarrow> None
      | Some gcm \<Rightarrow> if length nonce \<noteq> 12 then None else aopen gcm nonce ct)"

definition base_msg :: "('f, 'p1, 'p2, 'gt) renv \<Rightarrow> 'f runner \<Rightarrow> string \<Rightarrow> int \<Rightarrow> TSSDKG" where
  "base_msg E r ty to = \<lparr>wd_SessionID = dc_SessionID (rv_cfg E), wd_Epoch = ru_epoch r, wd_Type = ty,
     wd_FromIndex = dc_Index (rv_cfg E), wd_ToIndex = to, wd_Commitments = [], wd_Nonce = [], wd_Ciphertext = [],
     wd_Share = [], wd_Sig = []\<rparr>"

definition send :: "('f, 'p1, 'p2, 'gt) renv \<Rightarrow> TSSDKG \<Rightarrow> 'f runner \<Rightarrow> 'f runner" where
  "send E m r = (case signMessage E m of None \<Rightarrow> r | Some s \<Rightarrow> emit (BroadcastTSSDKG s) r)"

definition broadcastCommitments :: "('f, 'p1, 'p2, 'gt) renv \<Rightarrow> 'f runner \<Rightarrow> 'f runner" where
  "broadcastCommitments E r = send E ((base_msg E r ''commitments'' 0)\<lparr>wd_Commitments := ru_self r\<rparr>) r"

definition send_share :: "('f, 'p1, 'p2, 'gt) renv \<Rightarrow> int \<Rightarrow> 'f runner \<Rightarrow> 'f runner" where
  "send_share E i r =
     (if i = dc_Index (rv_cfg E) then r
      else if i |\<in>| ru_acks r (dc_Index (rv_cfg E)) then r
      else if ru_coeffs r = [] then r
      else case evalPolyAt (rv_B E) (map Some (ru_coeffs r)) i of Inl e \<Rightarrow> r
      | Inr sh \<Rightarrow>
     (case deriveShareKey E (ru_epoch r) (dc_Index (rv_cfg E)) i of None \<Rightarrow> r
      | Some key \<Rightarrow>
          let rd = rv_rand E (ru_rng r); r = r\<lparr>ru_rng := Suc (ru_rng r)\<rparr> in
          case encryptShare E rd key (sc_Serialize (rv_B E) sh) of None \<Rightarrow> r
          | Some (nonce, ct) \<Rightarrow>
              send E ((base_msg E r ''share'' i)\<lparr>wd_Nonce := nonce, wd_Ciphertext := ct\<rparr>) r))"

definition broadcastMissingShares :: "('f, 'p1, 'p2, 'gt) renv \<Rightarrow> 'f runner \<Rightarrow> 'f runner" where
  "broadcastMissingShares E r = fold (send_share E) (map int [1 ..< nat (dc_N (rv_cfg E)) + 1]) r"

section \<open>Epochs\<close>

definition resetForEpochLocked :: "int \<Rightarrow> u64 \<Rightarrow> 'f runner \<Rightarrow> 'f runner" where
  "resetForEpochLocked now epoch r =
     r\<lparr>ru_epoch := epoch, ru_coeffs := [], ru_self := [], ru_commitments := Map.empty, ru_shares := Map.empty,
       ru_pendingShare := Map.empty, ru_pendingOpen := Map.empty, ru_acks := (\<lambda>_. {||}), ru_complaints := (\<lambda>_. {||}),
       ru_bad := {||}, ru_done := False, ru_finalizing := False, ru_result := no_result, ru_epochStart := now\<rparr>"

text \<open>The boolean is whether the call returned without an error.\<close>

definition ensureLocalPoly :: "('f, 'p1, 'p2, 'gt) renv \<Rightarrow> int \<Rightarrow> 'f runner \<Rightarrow> bool \<times> 'f runner" where
  "ensureLocalPoly E now r =
     (if ru_coeffs r \<noteq> [] \<and> ru_self r \<noteq> [] then (True, r)
      else if length (dc_SigPriv (rv_cfg E)) \<noteq> 64 then (False, r)
      else if length (dc_EncPriv (rv_cfg E)) \<noteq> 32 then (False, r)
      else let t = nat (dc_Threshold (rv_cfg E)); i = dc_Index (rv_cfg E); rd = (\<lambda>j. rv_rand E (ru_rng r + j));
               r = r\<lparr>ru_rng := ru_rng r + t\<rparr> in
        case draw_coeffs (rv_B E) rd [0 ..< t] of Inl e \<Rightarrow> (False, r)
        | Inr coeffs \<Rightarrow>
       (case commitmentsFromPoly (rv_B E) (map Some coeffs) of Inl e \<Rightarrow> (False, r)
        | Inr com \<Rightarrow>
       (case evalPolyAt (rv_B E) (map Some coeffs) i of Inl e \<Rightarrow> (False, r)
        | Inr selfShare \<Rightarrow>
            (True, persistLocked E
               (r\<lparr>ru_coeffs := coeffs, ru_self := com, ru_commitments := (ru_commitments r)(i \<mapsto> com),
                  ru_shares := (ru_shares r)(i \<mapsto> selfShare), ru_epochStart := now\<rparr>)))))"

definition bumpEpoch :: "('f, 'p1, 'p2, 'gt) renv \<Rightarrow> int \<Rightarrow> u64 \<Rightarrow> 'f runner \<Rightarrow> 'f runner" where
  "bumpEpoch E now epoch r =
     (if epoch = 0 then r
      else if ru_done r \<or> epoch \<le> ru_epoch r then r
      else let r = persistLocked E (resetForEpochLocked now epoch r);
               r = emit (dkg_metric ''epoch_bump'') r
           in broadcastCommitments E (snd (ensureLocalPoly E now r)))"

definition runner_Start_body :: "('f, 'p1, 'p2, 'gt) renv \<Rightarrow> int \<Rightarrow> beastSessionState option \<Rightarrow> 'f runner \<Rightarrow> bool \<times> 'f runner" where
  "runner_Start_body E now st r =
     (let r = (if dc_SessionDir (rv_cfg E) = [] then r else case st of None \<Rightarrow> r | Some st \<Rightarrow> runner_restore E st r) in
      case ensureLocalPoly E now r of
        (False, r) \<Rightarrow> (False, r)
      | (True, r) \<Rightarrow> (True, broadcastCommitments E (if ru_epochStart r = 0 then r\<lparr>ru_epochStart := now\<rparr> else r)))"

text \<open>\<open>ks\<close> is the key share found on disk, \<open>st\<close> the stored session.\<close>

definition runner_Start :: "('f, 'p1, 'p2, 'gt) renv \<Rightarrow> int \<Rightarrow> (bytes \<times> bytes) option \<Rightarrow> beastSessionState option \<Rightarrow> 'f runner
    \<Rightarrow> bool \<times> 'f runner" where
  "runner_Start E now ks st r =
     (case ks of
        Some (pub, priv) \<Rightarrow>
          if length priv = 32
          then (True, emit (dkg_metric ''skip'')
                 (r\<lparr>ru_done := True, ru_result := \<lparr>dr_Index = dc_Index (rv_cfg E), dr_Threshold = dc_Threshold (rv_cfg E),
                      dr_GroupPubKey = pub, dr_ShareScalar = priv\<rparr>\<rparr>))
          else runner_Start_body E now st r
      | None \<Rightarrow> runner_Start_body E now st r)"

definition retry_tick :: "('f, 'p1, 'p2, 'gt) renv \<Rightarrow> int \<Rightarrow> 'f runner \<Rightarrow> 'f runner" where
  "retry_tick E now r =
     (if ru_done r then r
      else if 0 < ru_epochTimeout r \<and> ru_epochStart r \<noteq> 0 \<and> now - ru_epochStart r > ru_epochTimeout r
      then bumpEpoch E now (ru_epoch r + 1) r
      else broadcastMissingShares E (broadcastCommitments E r))"

section \<open>Finalization\<close>

text \<open>The dealers that count, or \<open>None\<close> while one of them still misses something.\<close>

fun qual_dealers :: "('f, 'p1, 'p2, 'gt) renv \<Rightarrow> 'f runner \<Rightarrow> int list \<Rightarrow> int list option" where
  "qual_dealers E r [] = Some []"
| "qual_dealers E r (d # ds) =
     (if d |\<in>| ru_bad r then qual_dealers E r ds
      else if getz [] (ru_commitments r) d = [] then None
      else if ru_complaints r d \<noteq> {||} then None
      else if int (fcard (ru_acks r d)) < dc_N (rv_cfg E) - 1 then None
      else if ru_shares r d = None then None
      else map_option ((#) d) (qual_dealers E r ds))"

fun sum_points :: "('f, 'p1 :: ab_group_add, 'p2, 'gt) blst \<Rightarrow> bytes list list \<Rightarrow> 'p1 \<Rightarrow> 'p1 option" where
  "sum_points B [] acc = Some acc"
| "sum_points B (com # coms) acc =
     (case p1_Uncompress B (com ! 0) of None \<Rightarrow> None | Some p \<Rightarrow> sum_points B coms (acc + p))"

fun sum_scalars :: "('f, 'p1, 'p2, 'gt) blst \<Rightarrow> 'f list \<Rightarrow> 'f \<Rightarrow> 'f option" where
  "sum_scalars B [] acc = Some acc"
| "sum_scalars B (s # ss) acc = (case sc_Add B acc s of None \<Rightarrow> None | Some acc' \<Rightarrow> sum_scalars B ss acc')"

definition dealer_list :: "('f, 'p1, 'p2, 'gt) renv \<Rightarrow> int list" where
  "dealer_list E = map int [1 ..< nat (dc_N (rv_cfg E)) + 1]"

definition maybeFinalize :: "('f, 'p1 :: ab_group_add, 'p2, 'gt) renv \<Rightarrow> int \<Rightarrow> 'f runner \<Rightarrow> 'f runner" where
  "maybeFinalize E now r =
     (if ru_done r \<or> ru_finalizing r then r
      else if dc_N (rv_cfg E) - int (fcard (ru_bad r)) < dc_Threshold (rv_cfg E)
      then bumpEpoch E now (ru_epoch r + 1) r
      else case qual_dealers E r (dealer_list E) of None \<Rightarrow> r
      | Some qual \<Rightarrow>
          if int (length qual) < dc_Threshold (rv_cfg E) then r
          else (case sum_points (rv_B E) (map (\<lambda>d. the (ru_commitments r d)) qual) 0 of None \<Rightarrow> r
           | Some acc \<Rightarrow>
          (case sum_scalars (rv_B E) (map (\<lambda>d. the (ru_shares r d)) qual) (scalarFromInt (rv_B E) 0) of None \<Rightarrow> r
           | Some sm \<Rightarrow>
               let i = dc_Index (rv_cfg E); gpk = p1_Compress (rv_B E) acc; share = sc_Serialize (rv_B E) sm;
                   r = emit (SaveKey i gpk share) (r\<lparr>ru_finalizing := True\<rparr>);
                   r = r\<lparr>ru_done := True, ru_result := \<lparr>dr_Index = i, dr_Threshold = dc_Threshold (rv_cfg E),
                          dr_GroupPubKey = gpk, dr_ShareScalar = share\<rparr>\<rparr>
               in emit (dkg_metric ''ok'') (persistLocked E r))))"

section \<open>Handlers\<close>

definition disqualifyDealerLocked :: "int \<Rightarrow> 'f runner \<Rightarrow> 'f runner" where
  "disqualifyDealerLocked dealer r =
     (if dealer \<le> 0 then r
      else if dealer |\<in>| ru_bad r then r
      else emit (dkg_metric ''dealer_disqualified'')
             (r\<lparr>ru_bad := finsert dealer (ru_bad r), ru_complaints := (ru_complaints r)(dealer := {||})\<rparr>))"

definition disqualify :: "('f, 'p1, 'p2, 'gt) renv \<Rightarrow> int \<Rightarrow> 'f runner \<Rightarrow> 'f runner" where
  "disqualify E dealer r = persistLocked E (disqualifyDealerLocked dealer r)"

definition onCommitments :: "('f, 'p1, 'p2, 'gt) renv \<Rightarrow> TSSDKG \<Rightarrow> 'f runner \<Rightarrow> 'f runner" where
  "onCommitments E m r =
     (if wd_Commitments m = [] then r
      else if int (length (wd_Commitments m)) \<noteq> dc_Threshold (rv_cfg E) then disqualify E (wd_FromIndex m) r
      else if \<exists>c \<in> set (wd_Commitments m). length c \<noteq> 48 \<or> p1_Uncompress (rv_B E) c = None
      then disqualify E (wd_FromIndex m) r
      else if wd_FromIndex m |\<in>| ru_bad r then r
      else if ru_commitments r (wd_FromIndex m) \<noteq> None then r
      else persistLocked E (r\<lparr>ru_commitments := (ru_commitments r)(wd_FromIndex m \<mapsto> wd_Commitments m)\<rparr>))"

definition clear_complaint :: "int \<Rightarrow> int \<Rightarrow> 'f runner \<Rightarrow> 'f runner" where
  "clear_complaint dealer i r = r\<lparr>ru_complaints := (ru_complaints r)(dealer := ru_complaints r dealer |-| {|i|})\<rparr>"

definition broadcastAck :: "('f, 'p1, 'p2, 'gt) renv \<Rightarrow> int \<Rightarrow> 'f runner \<Rightarrow> 'f runner" where
  "broadcastAck E dealer r =
     (let i = dc_Index (rv_cfg E);
          r = r\<lparr>ru_acks := (ru_acks r)(dealer := finsert i (ru_acks r dealer))\<rparr>;
          r = persistLocked E (clear_complaint dealer i r)
      in send E (base_msg E r ''ack'' dealer) r)"

definition broadcastComplaint :: "('f, 'p1, 'p2, 'gt) renv \<Rightarrow> int \<Rightarrow> 'f runner \<Rightarrow> 'f runner" where
  "broadcastComplaint E dealer r =
     (let i = dc_Index (rv_cfg E);
          r = persistLocked E (r\<lparr>ru_complaints := (ru_complaints r)(dealer := finsert i (ru_complaints r dealer))\<rparr>)
      in case signMessage E (base_msg E r ''complaint'' dealer) of None \<Rightarrow> r
         | Some s \<Rightarrow> emit (dkg_metric ''complaint'') (emit (BroadcastTSSDKG s) r))"

definition onShare :: "('f, 'p1 :: ab_group_add, 'p2, 'gt) renv \<Rightarrow> TSSDKG \<Rightarrow> 'f runner \<Rightarrow> 'f runner" where
  "onShare E m r =
     (let d = wd_FromIndex m; i = dc_Index (rv_cfg E); com = getz [] (ru_commitments r) d in
      if d |\<in>| ru_bad r then r
      else if com = [] then r\<lparr>ru_pendingShare := (ru_pendingShare r)(d \<mapsto> m)\<rparr>
      else if ru_shares r d \<noteq> None then r
      else case deriveShareKey E (ru_epoch r) d i of None \<Rightarrow> r
      | Some key \<Rightarrow>
     (case decryptShare E key (wd_Nonce m) (wd_Ciphertext m) of None \<Rightarrow> broadcastComplaint E d r
      | Some pt \<Rightarrow>
          if length pt \<noteq> 32 then broadcastComplaint E d r
          else (case sc_Deserialize (rv_B E) pt of None \<Rightarrow> broadcastComplaint E d r
           | Some sc \<Rightarrow>
               if verifyFeldmanShare (rv_B E) (Some sc) i com \<noteq> Inr True then broadcastComplaint E d r
               else broadcastAck E d (persistLocked E
                      (r\<lparr>ru_pendingShare := (ru_pendingShare r)(d := None), ru_shares := (ru_shares r)(d \<mapsto> sc)\<rparr>)))))"

definition onAck :: "('f, 'p1, 'p2, 'gt) renv \<Rightarrow> TSSDKG \<Rightarrow> 'f runner \<Rightarrow> 'f runner" where
  "onAck E m r =
     (let dealer = wd_ToIndex m in
      if dealer \<le> 0 \<or> dealer > dc_N (rv_cfg E) then r
      else if dealer |\<in>| ru_bad r then r
      else persistLocked E (clear_complaint dealer (wd_FromIndex m)
             (r\<lparr>ru_acks := (ru_acks r)(dealer := finsert (wd_FromIndex m) (ru_acks r dealer))\<rparr>)))"

definition broadcastShareOpen :: "('f, 'p1, 'p2, 'gt) renv \<Rightarrow> int \<Rightarrow> 'f runner \<Rightarrow> 'f runner" where
  "broadcastShareOpen E toIndex r =
     (if toIndex \<le> 0 \<or> toIndex > dc_N (rv_cfg E) \<or> toIndex = dc_Index (rv_cfg E) then r
      else if ru_coeffs r = [] then r
      else case evalPolyAt (rv_B E) (map Some (ru_coeffs r)) toIndex of Inl e \<Rightarrow> r
      | Inr sh \<Rightarrow> send E ((base_msg E r ''share_open'' toIndex)\<lparr>wd_Share := sc_Serialize (rv_B E) sh\<rparr>) r)"

definition onComplaint :: "('f, 'p1, 'p2, 'gt) renv \<Rightarrow> TSSDKG \<Rightarrow> 'f runner \<Rightarrow> 'f runner" where
  "onComplaint E m r =
     (let dealer = wd_ToIndex m in
      if dealer \<le> 0 \<or> dealer > dc_N (rv_cfg E) then r
      else if dealer = dc_Index (rv_cfg E) then broadcastShareOpen E (wd_FromIndex m) r
      else if dealer |\<in>| ru_bad r then r
      else persistLocked E (r\<lparr>ru_complaints := (ru_complaints r)(dealer := finsert (wd_FromIndex m) (ru_complaints r dealer))\<rparr>))"

definition onShareOpen :: "('f, 'p1 :: ab_group_add, 'p2, 'gt) renv \<Rightarrow> TSSDKG \<Rightarrow> 'f runner \<Rightarrow> 'f runner" where
  "onShareOpen E m r =
     (let d = wd_FromIndex m; i = dc_Index (rv_cfg E); com = getz [] (ru_commitments r) d in
      if wd_ToIndex m \<le> 0 \<or> wd_ToIndex m > dc_N (rv_cfg E) then r
      else if length (wd_Share m) \<noteq> 32 then disqualify E d r
      else if d |\<in>| ru_bad r then r
      else if com = [] then r\<lparr>ru_pendingOpen := (ru_pendingOpen r)(d \<mapsto> m)\<rparr>
      else case sc_Deserialize (rv_B E) (wd_Share m) of None \<Rightarrow> disqualify E d r
      | Some sc \<Rightarrow>
          if verifyFeldmanShare (rv_B E) (Some sc) (wd_ToIndex m) com \<noteq> Inr True then disqualify E d r
          else let r = clear_complaint d (wd_ToIndex m) (r\<lparr>ru_pendingOpen := (ru_pendingOpen r)(d := None)\<rparr>);
                   r = (if wd_ToIndex m = i \<and> ru_shares r d = None then r\<lparr>ru_shares := (ru_shares r)(d \<mapsto> sc)\<rparr> else r);
                   r = persistLocked E r
               in if wd_ToIndex m = i then broadcastAck E d r else r)"

definition tryProcessPending :: "('f, 'p1 :: ab_group_add, 'p2, 'gt) renv \<Rightarrow> int \<Rightarrow> 'f runner \<Rightarrow> 'f runner" where
  "tryProcessPending E dealer r =
     (let r = (case ru_pendingShare r dealer of None \<Rightarrow> r | Some msg \<Rightarrow> onShare E msg r) in
      case ru_pendingOpen r dealer of None \<Rightarrow> r | Some m \<Rightarrow> onShareOpen E m r)"

definition dispatch_dkg :: "('f, 'p1 :: ab_group_add, 'p2, 'gt) renv \<Rightarrow> int \<Rightarrow> TSSDKG \<Rightarrow> 'f runner \<Rightarrow> 'f runner" where
  "dispatch_dkg E now m r =
     (if wd_Type m = ''commitments''
      then maybeFinalize E now (broadcastMissingShares E (tryProcessPending E (wd_FromIndex m) (onCommitments E m r)))
      else if wd_Type m = ''share''
      then (if wd_ToIndex m \<noteq> dc_Index (rv_cfg E) then r else maybeFinalize E now (onShare E m r))
      else if wd_Type m = ''share_open'' then maybeFinalize E now (onShareOpen E m r)
      else if wd_Type m = ''ack'' then maybeFinalize E now (onAck E m r)
      else if wd_Type m = ''complaint'' then maybeFinalize E now (onComplaint E m r)
      else r)"

definition runner_OnMessage :: "('f, 'p1 :: ab_group_add, 'p2, 'gt) renv \<Rightarrow> int \<Rightarrow> TSSDKG \<Rightarrow> 'f runner \<Rightarrow> 'f runner" where
  "runner_OnMessage E now m r =
     (if wd_SessionID m \<noteq> dc_SessionID (rv_cfg E) then r
      else if wd_Epoch m = 0 then r
      else if wd_FromIndex m \<le> 0 \<or> wd_FromIndex m > dc_N (rv_cfg E) then r
      else if wd_FromIndex m = dc_Index (rv_cfg E) then r
      else if wd_Type m = [] then r
      else if \<not> verifySig E m then emit (dkg_metric ''bad_sig'') r
      else if ru_done r then r
      else if wd_Epoch m < ru_epoch r then r
      else let r = (if wd_Epoch m > ru_epoch r then bumpEpoch E now (wd_Epoch m) r else r) in
        if wd_Epoch m \<noteq> ru_epoch r then r else dispatch_dkg E now m r)"

section \<open>Runs\<close>

datatype runner_op = RMessage int TSSDKG | RTick int

fun runner_step :: "('f, 'p1 :: ab_group_add, 'p2, 'gt) renv \<Rightarrow> runner_op \<Rightarrow> 'f runner \<Rightarrow> 'f runner" where
  "runner_step E (RMessage now m) r = runner_OnMessage E now m r"
| "runner_step E (RTick now) r = retry_tick E now r"

definition runner_run :: "('f, 'p1 :: ab_group_add, 'p2, 'gt) renv \<Rightarrow> runner_op list \<Rightarrow> 'f runner \<Rightarrow> 'f runner" where
  "runner_run E ops r = fold (runner_step E) ops r"

lemma send_out: "\<exists>x. send E m r = r\<lparr>ru_out := x\<rparr>"
proof (cases "signMessage E m")
  case None
  then show ?thesis by (intro exI [of _ "ru_out r"]) (simp add: send_def)
qed (auto simp: send_def emit_def)

lemma persist_out: "\<exists>x. persistLocked E r = r\<lparr>ru_out := x\<rparr>"
  by (cases "dc_SessionDir (rv_cfg E) = []")
     (auto simp: persistLocked_def emit_def intro: exI [of _ "ru_out r"])

definition live_with :: "('f runner \<Rightarrow> bool) \<Rightarrow> 'f runner \<Rightarrow> bool" where
  "live_with P r \<longleftrightarrow> P r \<and> \<not> ru_done r"

text \<open>
  The ways a handler changes the state. \<open>A\<close> are the members whose messages are handled;
  what is shown once here holds for every property that these elementary changes keep.
\<close>

locale runner_invariant =
  fixes E :: "('f :: field, 'p1 :: ab_group_add, 'p2, 'gt) renv" and A :: "int set" and P :: "'f runner \<Rightarrow> bool"
  assumes out: "P r \<Longrightarrow> P (r\<lparr>ru_out := x\<rparr>)"
    and rng: "P r \<Longrightarrow> P (r\<lparr>ru_rng := k\<rparr>)"
    and reset: "P r \<Longrightarrow> \<not> ru_done r \<Longrightarrow> ru_epoch r < ep \<Longrightarrow> P (resetForEpochLocked now ep r)"
    and poly: "P r \<Longrightarrow> \<not> ru_done r \<Longrightarrow> ru_coeffs r = [] \<or> ru_self r = [] \<Longrightarrow> length cs = nat (dc_Threshold (rv_cfg E))
      \<Longrightarrow> commitmentsFromPoly (rv_B E) (map Some cs) = Inr com \<Longrightarrow> evalPolyAt (rv_B E) (map Some cs) (dc_Index (rv_cfg E)) = Inr s
      \<Longrightarrow> P (r\<lparr>ru_coeffs := cs, ru_self := com, ru_commitments := (ru_commitments r)(dc_Index (rv_cfg E) \<mapsto> com),
               ru_shares := (ru_shares r)(dc_Index (rv_cfg E) \<mapsto> s), ru_epochStart := now\<rparr>)"
    and disq: "P r \<Longrightarrow> \<not> ru_done r \<Longrightarrow> d \<in> A \<Longrightarrow> P (r\<lparr>ru_bad := finsert d (ru_bad r), ru_complaints := c\<rparr>)"
    and commit: "P r \<Longrightarrow> \<not> ru_done r \<Longrightarrow> d \<in> A \<Longrightarrow> d \<noteq> dc_Index (rv_cfg E) \<Longrightarrow> ru_commitments r d = None
      \<Longrightarrow> int (length com) = dc_Threshold (rv_cfg E) \<Longrightarrow> com \<noteq> [] \<Longrightarrow> P (r\<lparr>ru_commitments := (ru_commitments r)(d \<mapsto> com)\<rparr>)"
    and share: "P r \<Longrightarrow> \<not> ru_done r \<Longrightarrow> ru_commitments r d = Some com \<Longrightarrow> com \<noteq> [] \<Longrightarrow> ru_shares r d = None
      \<Longrightarrow> verifyFeldmanShare (rv_B E) (Some sc) (dc_Index (rv_cfg E)) com = Inr True \<Longrightarrow> P (r\<lparr>ru_shares := (ru_shares r)(d \<mapsto> sc)\<rparr>)"
    and pending: "P r \<Longrightarrow> wd_FromIndex m = d \<Longrightarrow> P (r\<lparr>ru_pendingShare := (ru_pendingShare r)(d \<mapsto> m)\<rparr>)"
      "P r \<Longrightarrow> P (r\<lparr>ru_pendingShare := (ru_pendingShare r)(d := None)\<rparr>)"
      "P r \<Longrightarrow> wd_FromIndex m = d \<Longrightarrow> P (r\<lparr>ru_pendingOpen := (ru_pendingOpen r)(d \<mapsto> m)\<rparr>)"
      "P r \<Longrightarrow> P (r\<lparr>ru_pendingOpen := (ru_pendingOpen r)(d := None)\<rparr>)"
    and from_key: "P r \<Longrightarrow> ru_pendingShare r d = Some m \<Longrightarrow> wd_FromIndex m = d"
      "P r \<Longrightarrow> ru_pendingOpen r d = Some m \<Longrightarrow> wd_FromIndex m = d"
    and gossip: "P r \<Longrightarrow> \<not> ru_done r \<Longrightarrow> P (r\<lparr>ru_acks := a\<rparr>)" "P r \<Longrightarrow> \<not> ru_done r \<Longrightarrow> P (r\<lparr>ru_complaints := c\<rparr>)"
    and final: "P r \<Longrightarrow> \<not> ru_done r \<Longrightarrow> qual_dealers E r (dealer_list E) = Some qual \<Longrightarrow> dc_Threshold (rv_cfg E) \<le> int (length qual)
      \<Longrightarrow> sum_points (rv_B E) (map (\<lambda>d. the (ru_commitments r d)) qual) 0 = Some acc
      \<Longrightarrow> sum_scalars (rv_B E) (map (\<lambda>d. the (ru_shares r d)) qual) (scalarFromInt (rv_B E) 0) = Some sm
      \<Longrightarrow> P (r\<lparr>ru_finalizing := True, ru_done := True, ru_result := \<lparr>dr_Index = dc_Index (rv_cfg E), dr_Threshold = dc_Threshold (rv_cfg E),
               dr_GroupPubKey = p1_Compress (rv_B E) acc, dr_ShareScalar = sc_Serialize (rv_B E) sm\<rparr>\<rparr>)"
begin

abbreviation live :: "'f runner \<Rightarrow> bool" where
  "live \<equiv> live_with P"

lemma live_out: "live r \<Longrightarrow> live (r\<lparr>ru_out := x\<rparr>)"
  by (simp add: live_with_def out)

lemma live_emit: "live r \<Longrightarrow> live (emit e r)"
  by (simp add: emit_def live_out)

lemma live_persist: "live r \<Longrightarrow> live (persistLocked E r)"
  using persist_out [of E r] live_out by metis

lemma live_send: "live r \<Longrightarrow> live (send E m r)"
  using send_out [of E m r] live_out by metis

lemma live_rng: "live r \<Longrightarrow> live (r\<lparr>ru_rng := k\<rparr>)"
  by (simp add: live_with_def rng)

lemma live_send_share: "live r \<Longrightarrow> live (send_share E i r)"
  by (auto simp: send_share_def Let_def live_send live_rng split: sum.split option.split prod.split)

lemma live_missing: "live r \<Longrightarrow> live (broadcastMissingShares E r)"
proof -
  have "live r \<Longrightarrow> live (fold (send_share E) is r)" for "is"
    by (induction "is" arbitrary: r) (simp_all add: live_send_share)
  then show "live r \<Longrightarrow> live (broadcastMissingShares E r)" by (simp add: broadcastMissingShares_def)
qed

lemma live_commitments: "live r \<Longrightarrow> live (broadcastCommitments E r)"
  by (simp add: broadcastCommitments_def live_send)

lemma live_poly: "live r \<Longrightarrow> live (snd (ensureLocalPoly E now r))"
proof -
  assume r: "live r"
  let ?r = "r\<lparr>ru_rng := ru_rng r + nat (dc_Threshold (rv_cfg E))\<rparr>"
  have "live (persistLocked E (?r\<lparr>ru_coeffs := cs, ru_self := com, ru_commitments := (ru_commitments ?r)(dc_Index (rv_cfg E) \<mapsto> com),
      ru_shares := (ru_shares ?r)(dc_Index (rv_cfg E) \<mapsto> s), ru_epochStart := now\<rparr>))"
    if "ru_coeffs r = [] \<or> ru_self r = []" "draw_coeffs (rv_B E) rd [0 ..< nat (dc_Threshold (rv_cfg E))] = Inr cs"
      "commitmentsFromPoly (rv_B E) (map Some cs) = Inr com" "evalPolyAt (rv_B E) (map Some cs) (dc_Index (rv_cfg E)) = Inr s" for rd cs com s
    using live_rng [OF r] draw_coeffs_length [OF that(2)] that(1,3,4) poly [of ?r cs com s]
    by (intro live_persist) (simp add: live_with_def)
  then show ?thesis
    using r live_rng [OF r] by (auto simp: ensureLocalPoly_def Let_def split: sum.split)
qed

lemma live_reset: "live r \<Longrightarrow> ru_epoch r < ep \<Longrightarrow> live (resetForEpochLocked now ep r)"
  by (simp add: live_with_def reset) (simp add: resetForEpochLocked_def)

lemma live_bump: "live r \<Longrightarrow> live (bumpEpoch E now ep r)"
  by (auto simp: bumpEpoch_def Let_def not_le intro!: live_commitments live_poly live_emit live_persist live_reset)

lemma P_emit: "P r \<Longrightarrow> P (emit e r)"
  by (simp add: emit_def out)

lemma P_persist: "P r \<Longrightarrow> P (persistLocked E r)"
  using persist_out [of E r] out by metis

lemma live_P: "live r \<Longrightarrow> P r"
  by (simp add: live_with_def)

lemma P_finalize: "live r \<Longrightarrow> P (maybeFinalize E now r)"
proof -
  assume r: "live r"
  have fin: "P (emit (dkg_metric ''ok'') (persistLocked E ((emit (SaveKey i gpk share) (r\<lparr>ru_finalizing := True\<rparr>))
      \<lparr>ru_done := True, ru_result := res\<rparr>)))"
    if "P (r\<lparr>ru_finalizing := True, ru_done := True, ru_result := res\<rparr>)" for i gpk share res
  proof -
    have "(emit (SaveKey i gpk share) (r\<lparr>ru_finalizing := True\<rparr>))\<lparr>ru_done := True, ru_result := res\<rparr>
        = (r\<lparr>ru_finalizing := True, ru_done := True, ru_result := res\<rparr>)\<lparr>ru_out := ru_out r @ [SaveKey i gpk share]\<rparr>"
      by (simp add: emit_def)
    then show ?thesis using out [OF that] P_emit P_persist by simp
  qed
  show ?thesis
    using r live_P [OF r] live_P [OF live_bump [OF r]] final [of r] fin
    by (auto simp: maybeFinalize_def Let_def live_with_def not_less split: option.split)
qed

end

context runner_invariant
begin

lemma live_gossip: "live r \<Longrightarrow> live (r\<lparr>ru_acks := a\<rparr>)" "live r \<Longrightarrow> live (r\<lparr>ru_complaints := c\<rparr>)"
  by (simp_all add: live_with_def gossip)

lemma live_clear: "live r \<Longrightarrow> live (clear_complaint d i r)"
  by (simp add: clear_complaint_def live_gossip)

lemma live_ack: "live r \<Longrightarrow> live (broadcastAck E d r)"
  by (simp add: broadcastAck_def Let_def live_send live_persist live_clear live_gossip)

lemma live_complaint: "live r \<Longrightarrow> live (broadcastComplaint E d r)"
  by (auto simp: broadcastComplaint_def Let_def live_persist live_gossip live_emit split: option.split)

lemma live_disqualify: "live r \<Longrightarrow> d \<in> A \<Longrightarrow> live (disqualify E d r)"
proof -
  assume "live r" "d \<in> A"
  then have "live (r\<lparr>ru_bad := finsert d (ru_bad r), ru_complaints := (ru_complaints r)(d := {||})\<rparr>)"
    using disq by (simp add: live_with_def)
  then show ?thesis
    using \<open>live r\<close> by (simp add: disqualify_def disqualifyDealerLocked_def live_persist live_emit)
qed

lemma live_onCommitments:
  assumes "live r" and "wd_FromIndex m \<in> A" and "wd_FromIndex m \<noteq> dc_Index (rv_cfg E)"
  shows "live (onCommitments E m r)"
proof -
  have "live (r\<lparr>ru_commitments := (ru_commitments r)(wd_FromIndex m \<mapsto> wd_Commitments m)\<rparr>)"
    if "wd_Commitments m \<noteq> []" "int (length (wd_Commitments m)) = dc_Threshold (rv_cfg E)" "ru_commitments r (wd_FromIndex m) = None"
    using assms commit that by (simp add: live_with_def)
  then show ?thesis
    using assms by (simp add: onCommitments_def live_disqualify live_persist)
qed

lemma live_share:
  assumes "live r" and "getz [] (ru_commitments r) d \<noteq> []" and "ru_shares r d = None"
    and "verifyFeldmanShare (rv_B E) (Some sc) (dc_Index (rv_cfg E)) (getz [] (ru_commitments r) d) = Inr True"
  shows "live (r\<lparr>ru_shares := (ru_shares r)(d \<mapsto> sc)\<rparr>)"
  using assms share [of r d] by (auto simp: live_with_def getz_def split: option.splits)

lemma live_pending:
  "live r \<Longrightarrow> wd_FromIndex m = d \<Longrightarrow> live (r\<lparr>ru_pendingShare := (ru_pendingShare r)(d \<mapsto> m)\<rparr>)"
  "live r \<Longrightarrow> live (r\<lparr>ru_pendingShare := (ru_pendingShare r)(d := None)\<rparr>)"
  "live r \<Longrightarrow> wd_FromIndex m = d \<Longrightarrow> live (r\<lparr>ru_pendingOpen := (ru_pendingOpen r)(d \<mapsto> m)\<rparr>)"
  "live r \<Longrightarrow> live (r\<lparr>ru_pendingOpen := (ru_pendingOpen r)(d := None)\<rparr>)"
  by (simp_all add: live_with_def pending)

lemma live_onShare: "live r \<Longrightarrow> live (onShare E m r)"
proof -
  assume r: "live r"
  let ?d = "wd_FromIndex m"
  have ok: "live (broadcastAck E ?d (persistLocked E (r\<lparr>ru_pendingShare := (ru_pendingShare r)(?d := None), ru_shares := (ru_shares r)(?d \<mapsto> sc)\<rparr>)))"
    if "getz [] (ru_commitments r) ?d \<noteq> []" "ru_shares r ?d = None"
      "verifyFeldmanShare (rv_B E) (Some sc) (dc_Index (rv_cfg E)) (getz [] (ru_commitments r) ?d) = Inr True" for sc
    using live_share [OF live_pending(2) [OF r], of ?d ?d sc] that by (intro live_ack live_persist) simp
  show ?thesis
    using r ok
    by (auto simp: onShare_def Let_def live_complaint live_pending split: option.split)
qed

lemma live_onShareOpen: "live r \<Longrightarrow> wd_FromIndex m \<in> A \<Longrightarrow> live (onShareOpen E m r)"
proof -
  assume r: "live r" and A: "wd_FromIndex m \<in> A"
  let ?d = "wd_FromIndex m" and ?i = "dc_Index (rv_cfg E)"
  define s where "s = clear_complaint ?d (wd_ToIndex m) (r\<lparr>ru_pendingOpen := (ru_pendingOpen r)(?d := None)\<rparr>)"
  have s: "live s" "ru_commitments s = ru_commitments r" "ru_shares s = ru_shares r"
    unfolding s_def by (simp_all add: live_clear live_pending r) (simp_all add: clear_complaint_def)
  have sh: "live (s\<lparr>ru_shares := (ru_shares r)(?d \<mapsto> sc)\<rparr>)"
    if "getz [] (ru_commitments r) ?d \<noteq> []" "ru_shares r ?d = None"
      "verifyFeldmanShare (rv_B E) (Some sc) ?i (getz [] (ru_commitments r) ?d) = Inr True" for sc
    using live_share [OF s(1), of ?d sc] that s(2,3) by simp
  show ?thesis
    unfolding onShareOpen_def Let_def s_def [symmetric] s(3)
    using r A s(1) sh
    by (auto simp: live_disqualify live_pending live_persist live_ack split: option.split)
qed

lemma live_tryProcessPending: "live r \<Longrightarrow> d \<in> A \<Longrightarrow> live (tryProcessPending E d r)"
proof -
  assume r: "live r" and d: "d \<in> A"
  define s where "s = (case ru_pendingShare r d of None \<Rightarrow> r | Some msg \<Rightarrow> onShare E msg r)"
  have s: "live s" unfolding s_def using r live_onShare by (auto split: option.split)
  have "wd_FromIndex m = d" if "ru_pendingOpen s d = Some m" for m
    using from_key(2) [of s d m] that s by (simp add: live_with_def)
  then show ?thesis
    unfolding tryProcessPending_def Let_def s_def [symmetric] using s d live_onShareOpen by (auto split: option.split)
qed

lemma live_onAck: "live r \<Longrightarrow> live (onAck E m r)"
  by (simp add: onAck_def Let_def live_persist live_clear live_gossip)

lemma live_onComplaint: "live r \<Longrightarrow> live (onComplaint E m r)"
  by (auto simp: onComplaint_def Let_def live_persist live_gossip broadcastShareOpen_def live_send split: sum.split)

lemma P_dispatch:
  assumes "live r" and "wd_FromIndex m \<in> A" and "wd_FromIndex m \<noteq> dc_Index (rv_cfg E)"
  shows "P (dispatch_dkg E now m r)"
  unfolding dispatch_dkg_def
  using assms live_P P_finalize live_missing live_tryProcessPending live_onCommitments live_onShare live_onShareOpen live_onAck live_onComplaint
  by simp

lemma P_OnMessage:
  assumes "P r" and "wd_FromIndex m \<in> A"
  shows "P (runner_OnMessage E now m r)"
proof (cases "ru_done r")
  case True
  with assms(1) show ?thesis by (simp add: runner_OnMessage_def P_emit)
next
  case False
  then have r: "live r" using assms(1) by (simp add: live_with_def)
  have 1: "P (dispatch_dkg E now m s)" if "live s" "wd_FromIndex m \<noteq> dc_Index (rv_cfg E)" for s
    by (rule P_dispatch) (use that assms in auto)
  have 2: "P (bumpEpoch E now ep r)" "live (bumpEpoch E now ep r)" for ep using live_bump [OF r] live_P by auto
  show ?thesis
    unfolding runner_OnMessage_def Let_def using assms(1) P_emit [OF assms(1)] 1 [OF r] 1 [OF 2(2)] 2(1) by simp
qed

lemma P_tick: "P r \<Longrightarrow> P (retry_tick E now r)"
  using live_bump live_missing live_commitments live_P by (auto simp: retry_tick_def live_with_def)


lemma P_run:
  assumes "P r" and "\<forall>op \<in> set ops. \<forall>now m. op = RMessage now m \<longrightarrow> wd_FromIndex m \<in> A"
  shows "P (runner_run E ops r)"
  using assms
proof (induction ops arbitrary: r)
  case (Cons op ops)
  have "P (runner_step E op r)" using Cons.prems P_OnMessage P_tick by (cases op) simp_all
  with Cons show ?case by (simp add: runner_run_def)
qed (simp add: runner_run_def)

end

section \<open>Every share is verified\<close>

lemma qual_dealers_Some:
  "qual_dealers E r ds = Some qual \<Longrightarrow> qual = filter (\<lambda>d. d |\<notin>| ru_bad r) ds
     \<and> (\<forall>d \<in> set qual. ru_commitments r d \<noteq> None \<and> ru_shares r d \<noteq> None \<and> ru_complaints r d = {||}
          \<and> dc_N (rv_cfg E) - 1 \<le> int (fcard (ru_acks r d)))"
  by (induction ds arbitrary: qual) (auto simp: getz_def split: if_splits option.splits)

definition pending_ok :: "'f runner \<Rightarrow> bool" where
  "pending_ok r \<longleftrightarrow> (\<forall>d m. ru_pendingShare r d = Some m \<longrightarrow> wd_FromIndex m = d) \<and> (\<forall>d m. ru_pendingOpen r d = Some m \<longrightarrow> wd_FromIndex m = d)"

text \<open>
  What a finished run stands on: every dealer that was not disqualified has commitments, a
  verified share, \<open>n - 1\<close> acknowledgements and no open complaint, and the result sums them up.
\<close>

definition final_ok :: "('f, 'p1 :: ab_group_add, 'p2, 'gt) renv \<Rightarrow> 'f runner \<Rightarrow> bool" where
  "final_ok E r \<longleftrightarrow> (\<exists>qual acc sm. qual = filter (\<lambda>d. d |\<notin>| ru_bad r) (dealer_list E)
     \<and> dc_Threshold (rv_cfg E) \<le> int (length qual)
     \<and> (\<forall>d \<in> set qual. ru_commitments r d \<noteq> None \<and> ru_shares r d \<noteq> None \<and> ru_complaints r d = {||}
          \<and> dc_N (rv_cfg E) - 1 \<le> int (fcard (ru_acks r d)))
     \<and> sum_points (rv_B E) (map (\<lambda>d. the (ru_commitments r d)) qual) 0 = Some acc
     \<and> sum_scalars (rv_B E) (map (\<lambda>d. the (ru_shares r d)) qual) (scalarFromInt (rv_B E) 0) = Some sm
     \<and> ru_result r = \<lparr>dr_Index = dc_Index (rv_cfg E), dr_Threshold = dc_Threshold (rv_cfg E),
          dr_GroupPubKey = p1_Compress (rv_B E) acc, dr_ShareScalar = sc_Serialize (rv_B E) sm\<rparr>)"

definition verified :: "('f, 'p1 :: ab_group_add, 'p2, 'gt) renv \<Rightarrow> 'f runner \<Rightarrow> bool" where
  "verified E r \<longleftrightarrow> pending_ok r
     \<and> (\<forall>d com. ru_commitments r d = Some com \<longrightarrow> com \<noteq> [] \<and> int (length com) = dc_Threshold (rv_cfg E))
     \<and> (\<forall>d s. ru_shares r d = Some s \<longrightarrow> (\<exists>com. ru_commitments r d = Some com
          \<and> verifyFeldmanShare (rv_B E) (Some s) (dc_Index (rv_cfg E)) com = Inr True))
     \<and> (ru_done r \<longrightarrow> final_ok E r)"

definition crypto_ok :: "nat \<Rightarrow> ('f :: field, 'p1 :: ab_group_add, 'p2, 'gt) renv \<Rightarrow> bool" where
  "crypto_ok N E \<longleftrightarrow> scalar_ok N (rv_B E) \<and> g1_ok (rv_B E) \<and> 1 \<le> N \<and> idx_ok N (dc_Index (rv_cfg E))"

lemma verified_poly:
  assumes "crypto_ok N E" and "verified E r" and "\<not> ru_done r" and "length cs = nat (dc_Threshold (rv_cfg E))"
    and "commitmentsFromPoly (rv_B E) (map Some cs) = Inr com" and "evalPolyAt (rv_B E) (map Some cs) (dc_Index (rv_cfg E)) = Inr s"
  shows "verified E (r\<lparr>ru_coeffs := cs, ru_self := com, ru_commitments := (ru_commitments r)(dc_Index (rv_cfg E) \<mapsto> com),
     ru_shares := (ru_shares r)(dc_Index (rv_cfg E) \<mapsto> s), ru_epochStart := now\<rparr>)"
proof -
  have "cs \<noteq> []" "length com = length cs" using assms(5) by (auto simp: commitmentsFromPoly_def split: if_splits)
  moreover from this have "int (length com) = dc_Threshold (rv_cfg E)" using assms(4) by (cases cs) auto
  moreover have "verifyFeldmanShare (rv_B E) (Some s) (dc_Index (rv_cfg E)) com = Inr True"
    using verify_iff [OF _ _ _ _ assms(5)] evalPolyAt_value [OF _ _ _ assms(6)] assms(1) by (auto simp: crypto_ok_def)
  ultimately show ?thesis using assms(2,3) by (auto simp: verified_def pending_ok_def)
qed

lemma verified_final:
  assumes "verified E r" and "qual_dealers E r (dealer_list E) = Some qual" and "dc_Threshold (rv_cfg E) \<le> int (length qual)"
    and "sum_points (rv_B E) (map (\<lambda>d. the (ru_commitments r d)) qual) 0 = Some acc"
    and "sum_scalars (rv_B E) (map (\<lambda>d. the (ru_shares r d)) qual) (scalarFromInt (rv_B E) 0) = Some sm"
  shows "verified E (r\<lparr>ru_finalizing := True, ru_done := True, ru_result := \<lparr>dr_Index = dc_Index (rv_cfg E),
     dr_Threshold = dc_Threshold (rv_cfg E), dr_GroupPubKey = p1_Compress (rv_B E) acc, dr_ShareScalar = sc_Serialize (rv_B E) sm\<rparr>\<rparr>)"
  using assms qual_dealers_Some [OF assms(2)] by (simp add: verified_def pending_ok_def final_ok_def)

lemma verified_frame:
  "verified E r \<Longrightarrow> verified E (r\<lparr>ru_out := x\<rparr>)" "verified E r \<Longrightarrow> verified E (r\<lparr>ru_rng := k\<rparr>)"
  "verified E r \<Longrightarrow> wd_FromIndex m = d \<Longrightarrow> verified E (r\<lparr>ru_pendingShare := (ru_pendingShare r)(d \<mapsto> m)\<rparr>)"
  "verified E r \<Longrightarrow> verified E (r\<lparr>ru_pendingShare := (ru_pendingShare r)(d := None)\<rparr>)"
  "verified E r \<Longrightarrow> wd_FromIndex m = d \<Longrightarrow> verified E (r\<lparr>ru_pendingOpen := (ru_pendingOpen r)(d \<mapsto> m)\<rparr>)"
  "verified E r \<Longrightarrow> verified E (r\<lparr>ru_pendingOpen := (ru_pendingOpen r)(d := None)\<rparr>)"
  "verified E r \<Longrightarrow> \<not> ru_done r \<Longrightarrow> verified E (r\<lparr>ru_acks := a\<rparr>)"
  "verified E r \<Longrightarrow> \<not> ru_done r \<Longrightarrow> verified E (r\<lparr>ru_complaints := c\<rparr>)"
  "verified E r \<Longrightarrow> \<not> ru_done r \<Longrightarrow> verified E (r\<lparr>ru_bad := b, ru_complaints := c\<rparr>)"
  by (simp_all add: verified_def pending_ok_def final_ok_def)

lemma verified_commit:
  assumes "verified E r" and "\<not> ru_done r" and "ru_commitments r d = None" and "int (length com) = dc_Threshold (rv_cfg E)" and "com \<noteq> []"
  shows "verified E (r\<lparr>ru_commitments := (ru_commitments r)(d \<mapsto> com)\<rparr>)"
proof -
  have "\<forall>s. ru_shares r d = Some s \<longrightarrow> (\<exists>com. ru_commitments r d = Some com)" using assms(1) unfolding verified_def by blast
  then have "ru_shares r d = None" using assms(3) by (cases "ru_shares r d") simp_all
  with assms show ?thesis by (auto simp: verified_def pending_ok_def)
qed

lemma verified_share:
  assumes "verified E r" and "\<not> ru_done r" and "ru_commitments r d = Some com"
    and "verifyFeldmanShare (rv_B E) (Some sc) (dc_Index (rv_cfg E)) com = Inr True"
  shows "verified E (r\<lparr>ru_shares := (ru_shares r)(d \<mapsto> sc)\<rparr>)"
  using assms by (simp add: verified_def pending_ok_def)

lemma verified_reset: "verified E r \<Longrightarrow> verified E (resetForEpochLocked now ep r)"
  by (simp add: verified_def pending_ok_def resetForEpochLocked_def)

lemma pending_frame:
  "pending_ok r \<Longrightarrow> pending_ok (r\<lparr>ru_out := x\<rparr>)" "pending_ok r \<Longrightarrow> pending_ok (r\<lparr>ru_rng := k\<rparr>)"
  "pending_ok r \<Longrightarrow> pending_ok (resetForEpochLocked now ep r)"
  "pending_ok r \<Longrightarrow> pending_ok (r\<lparr>ru_coeffs := cs, ru_self := com, ru_commitments := cm, ru_shares := sh, ru_epochStart := t\<rparr>)"
  "pending_ok r \<Longrightarrow> pending_ok (r\<lparr>ru_bad := b, ru_complaints := c\<rparr>)"
  "pending_ok r \<Longrightarrow> pending_ok (r\<lparr>ru_commitments := cm\<rparr>)" "pending_ok r \<Longrightarrow> pending_ok (r\<lparr>ru_shares := sh\<rparr>)"
  "pending_ok r \<Longrightarrow> wd_FromIndex m = d \<Longrightarrow> pending_ok (r\<lparr>ru_pendingShare := (ru_pendingShare r)(d \<mapsto> m)\<rparr>)"
  "pending_ok r \<Longrightarrow> pending_ok (r\<lparr>ru_pendingShare := (ru_pendingShare r)(d := None)\<rparr>)"
  "pending_ok r \<Longrightarrow> wd_FromIndex m = d \<Longrightarrow> pending_ok (r\<lparr>ru_pendingOpen := (ru_pendingOpen r)(d \<mapsto> m)\<rparr>)"
  "pending_ok r \<Longrightarrow> pending_ok (r\<lparr>ru_pendingOpen := (ru_pendingOpen r)(d := None)\<rparr>)"
  "pending_ok r \<Longrightarrow> pending_ok (r\<lparr>ru_acks := a\<rparr>)" "pending_ok r \<Longrightarrow> pending_ok (r\<lparr>ru_complaints := c\<rparr>)"
  "pending_ok r \<Longrightarrow> pending_ok (r\<lparr>ru_finalizing := f, ru_done := dn, ru_result := res\<rparr>)"
  by (simp_all add: pending_ok_def resetForEpochLocked_def)

interpretation shares: runner_invariant E UNIV "\<lambda>r. pending_ok r \<and> (crypto_ok N E \<longrightarrow> verified E r)" for N E
  by unfold_locales
     (use verified_poly [where N = N and E = E] in \<open>simp_all add: pending_frame verified_frame verified_reset verified_commit verified_share verified_final,
        simp_all add: pending_ok_def\<close>)

section \<open>The key that is generated\<close>

lemma sum_points_value:
  assumes "g1_ok B" and "\<forall>d \<in> set ds. commitmentsFromPoly B (map Some (cs d)) = Inr (f d)" and "sum_points B (map f ds) (g1 B a) = Some acc"
  shows "acc = g1 B (a + (\<Sum>d \<leftarrow> ds. horner (cs d) 0))"
  using assms(2,3)
proof (induction ds arbitrary: a)
  case (Cons d ds)
  have "commitmentsFromPoly B (map Some (cs d)) = Inr (f d)" using Cons.prems(1) by simp
  then have "cs d \<noteq> []" "f d = map (\<lambda>c. p1_Compress B (g1 B c)) (cs d)"
    by (auto simp: commitmentsFromPoly_def comp_def split: if_splits)
  then obtain c rest where c: "cs d = c # rest" "f d ! 0 = p1_Compress B (g1 B c)" by (cases "cs d") auto
  then have "sum_points B (map f ds) (g1 B (a + c)) = Some acc"
    using Cons.prems(2) by (simp add: g1_okD(2,4) [OF assms(1)])
  from Cons.IH [OF _ this] Cons.prems(1) c(1) show ?case by (simp add: add.assoc)
qed simp

lemma sum_scalars_value:
  assumes "scalar_ok N B" and "sum_scalars B ss a = Some v"
  shows "v = a + sum_list ss"
  using assms(2)
proof (induction ss arbitrary: a)
  case (Cons s ss)
  then obtain a' where a': "sc_Add B a s = Some a'" "sum_scalars B ss a' = Some v" by (auto split: option.splits)
  with Cons.IH [OF a'(2)] checked_Some [OF scalar_okD(1) [OF assms(1)] a'(1)] show ?case by (simp add: add.assoc)
qed simp

definition qual :: "('f, 'p1, 'p2, 'gt) renv \<Rightarrow> 'f runner \<Rightarrow> int list" where
  "qual E r = filter (\<lambda>d. d |\<notin>| ru_bad r) (dealer_list E)"

lemma final_result:
  assumes "crypto_ok N (E :: ('f :: field, 'p1 :: ab_group_add, 'p2, 'gt) renv)" and "verified E r" and "ru_done r"
    and "\<forall>d \<in> set (qual E r). \<forall>com. ru_commitments r d = Some com \<longrightarrow> commitmentsFromPoly (rv_B E) (map Some (cs d)) = Inr com"
  shows "dc_Threshold (rv_cfg E) \<le> int (length (qual E r))
    \<and> dr_GroupPubKey (ru_result r) = p1_Compress (rv_B E) (g1 (rv_B E) (\<Sum>d \<leftarrow> qual E r. horner (cs d) 0))
    \<and> dr_ShareScalar (ru_result r) = sc_Serialize (rv_B E) (\<Sum>d \<leftarrow> qual E r. horner (cs d) (of_int (dc_Index (rv_cfg E))))"
proof -
  let ?B = "rv_B E" and ?q = "qual E r" and ?i = "dc_Index (rv_cfg E)"
  have ok: "scalar_ok N ?B" "g1_ok ?B" "1 \<le> N" "idx_ok N ?i" using assms(1) by (simp_all add: crypto_ok_def)
  obtain acc sm where fin: "dc_Threshold (rv_cfg E) \<le> int (length ?q)"
      "\<forall>d \<in> set ?q. ru_commitments r d \<noteq> None \<and> ru_shares r d \<noteq> None"
      "sum_points ?B (map (\<lambda>d. the (ru_commitments r d)) ?q) 0 = Some acc"
      "sum_scalars ?B (map (\<lambda>d. the (ru_shares r d)) ?q) (scalarFromInt ?B 0) = Some sm"
      "dr_GroupPubKey (ru_result r) = p1_Compress ?B acc" "dr_ShareScalar (ru_result r) = sc_Serialize ?B sm"
    using assms(2,3) unfolding verified_def final_ok_def qual_def [symmetric] by force
  have com: "commitmentsFromPoly ?B (map Some (cs d)) = Inr (the (ru_commitments r d))" if "d \<in> set ?q" for d
    using that assms(4) fin(2) by auto
  have share: "the (ru_shares r d) = horner (cs d) (of_int ?i)" if d: "d \<in> set ?q" for d
  proof -
    obtain s where s: "ru_shares r d = Some s" using fin(2) d by blast
    then obtain c where c: "ru_commitments r d = Some c" "verifyFeldmanShare ?B (Some s) ?i c = Inr True"
      using assms(2) unfolding verified_def by blast
    with verify_iff [OF ok com [OF d], of s] s show ?thesis by simp
  qed
  have "sm = 0 + sum_list (map (\<lambda>d. the (ru_shares r d)) ?q)"
    using sum_scalars_value [OF ok(1) fin(4)] scalar_consts(1) [OF ok(1,3)] by simp
  also have "\<dots> = (\<Sum>d \<leftarrow> ?q. horner (cs d) (of_int ?i))"
    using share by (simp cong: map_cong)
  finally have sm: "sm = (\<Sum>d \<leftarrow> ?q. horner (cs d) (of_int ?i))" .
  have "acc = g1 ?B (0 + (\<Sum>d \<leftarrow> ?q. horner (cs d) 0))"
    by (rule sum_points_value [OF ok(2), where f = "\<lambda>d. the (ru_commitments r d)"])
       (use com fin(3) in \<open>simp_all add: pgroup_zero [OF g1_group [OF ok(2)]]\<close>)
  with fin sm show ?thesis by simp
qed

text \<open>A node that starts without a key share and without a stored session.\<close>

definition fresh_start :: "('f, 'p1, 'p2, 'gt) renv \<Rightarrow> 'f runner \<Rightarrow> bool" where
  "fresh_start E r \<longleftrightarrow> (\<exists>now r0. NewBeastDKGRunner now E = Inr r0 \<and> runner_Start E now None None r0 = (True, r))"

lemma fresh_start_invariant:
  assumes "runner_invariant E A P" and "fresh_start E r" and "\<And>now r0. NewBeastDKGRunner now E = Inr r0 \<Longrightarrow> P r0"
    and "\<And>r0 now. P r0 \<Longrightarrow> P (r0\<lparr>ru_epochStart := now\<rparr>)"
  shows "P r \<and> \<not> ru_done r"
proof -
  obtain now r0 where r0: "NewBeastDKGRunner now E = Inr r0" "runner_Start E now None None r0 = (True, r)"
    using assms(2) by (auto simp: fresh_start_def)
  then have "\<not> ru_done r0" by (auto simp: NewBeastDKGRunner_def split: sum.splits)
  with assms(3) [OF r0(1)] have live0: "live_with P r0"
    by (simp add: live_with_def)
  then have live: "live_with P (snd (ensureLocalPoly E now r0))"
    by (rule runner_invariant.live_poly [OF assms(1)])
  obtain r1 where r1: "ensureLocalPoly E now r0 = (True, r1)"
      "r = broadcastCommitments E (if ru_epochStart r1 = 0 then r1\<lparr>ru_epochStart := now\<rparr> else r1)"
    using r0(2) by (auto simp: runner_Start_def runner_Start_body_def Let_def split: prod.splits bool.splits if_splits)
  have "live_with P (if ru_epochStart r1 = 0 then r1\<lparr>ru_epochStart := now\<rparr> else r1)"
    using live r1(1) assms(4) by (simp add: live_with_def)
  from runner_invariant.live_commitments [OF assms(1) this] r1(2) show ?thesis
    by (simp add: live_with_def)
qed

lemma fresh_pending: "NewBeastDKGRunner now E = Inr r0 \<Longrightarrow> pending_ok r0 \<and> verified E r0"
  by (auto simp: NewBeastDKGRunner_def pending_ok_def verified_def split: sum.splits)

lemma started_verified:
  assumes "crypto_ok N E" and "fresh_start E r"
  shows "verified E (runner_run E ops r)"
proof -
  let ?P = "\<lambda>r. pending_ok r \<and> (crypto_ok N E \<longrightarrow> verified E r)"
  have "?P r \<and> \<not> ru_done r"
    by (rule fresh_start_invariant [OF shares.runner_invariant_axioms assms(2)])
       (simp_all add: fresh_pending, simp add: verified_def pending_ok_def final_ok_def)
  then have "?P (runner_run E ops r)" by (intro shares.P_run) simp_all
  with assms(1) show ?thesis by simp
qed


section \<open>A silent member\<close>

text \<open>
  A member whose messages never arrive: no commitments of it are known and it is never
  disqualified, since only a member's own messages disqualify it.
\<close>

definition silent :: "('f, 'p1, 'p2, 'gt) renv \<Rightarrow> int \<Rightarrow> 'f runner \<Rightarrow> bool" where
  "silent E x r \<longleftrightarrow> pending_ok r \<and> (x \<in> set (dealer_list E) \<longrightarrow> x \<noteq> dc_Index (rv_cfg E) \<longrightarrow>
     ru_commitments r x = None \<and> x |\<notin>| ru_bad r \<and> \<not> ru_done r)"

lemma qual_needs_commitments:
  assumes "qual_dealers E r ds = Some q" and "x \<in> set ds" and "x |\<notin>| ru_bad r"
  shows "ru_commitments r x \<noteq> None"
  using qual_dealers_Some [OF assms(1)] assms(2,3) by auto

interpretation silent: runner_invariant E "- {x}" "silent E x" for E x
proof unfold_locales
  fix r qual' acc sm
  assume "silent E x r" "qual_dealers E r (dealer_list E) = Some qual'"
  moreover from this have "\<not> (x \<in> set (dealer_list E) \<and> x \<noteq> dc_Index (rv_cfg E))"
    using qual_needs_commitments [of E r "dealer_list E" qual' x] by (auto simp: silent_def)
  ultimately show "silent E x (r\<lparr>ru_finalizing := True, ru_done := True, ru_result := \<lparr>dr_Index = dc_Index (rv_cfg E),
      dr_Threshold = dc_Threshold (rv_cfg E), dr_GroupPubKey = p1_Compress (rv_B E) acc, dr_ShareScalar = sc_Serialize (rv_B E) sm\<rparr>\<rparr>)"
    by (auto simp: silent_def pending_ok_def)
qed (auto simp: silent_def pending_frame, auto simp: pending_ok_def resetForEpochLocked_def)

text \<open>
  C37: Key generation needs every member: as long as one member of the committee stays silent, no
  other node ever reports a result, whatever the threshold is and however often epochs are
  restarted.
\<close>

theorem silent_member_blocks:
  fixes E :: "('f :: field, 'p1 :: ab_group_add, 'p2, 'gt) renv"
  assumes "fresh_start E r" and "x \<in> set (dealer_list E)" and "x \<noteq> dc_Index (rv_cfg E)"
    and "\<forall>op \<in> set ops. \<forall>now m. op = RMessage now m \<longrightarrow> wd_FromIndex m \<noteq> x"
  shows "runner_Result (runner_run E ops r) = None"
proof -
  have "silent E x r \<and> \<not> ru_done r"
    by (rule fresh_start_invariant [OF silent.runner_invariant_axioms assms(1)])
       (auto simp: silent_def pending_ok_def NewBeastDKGRunner_def split: sum.splits)
  then have "silent E x (runner_run E ops r)" using assms(4) by (intro silent.P_run) simp_all
  with assms(2,3) show ?thesis by (simp add: silent_def runner_Result_def)
qed

section \<open>Epochs only grow\<close>

interpretation epochs: runner_invariant E UNIV "\<lambda>r. pending_ok r \<and> e \<le> ru_epoch r" for E e
  by unfold_locales (simp_all add: pending_frame, auto simp: resetForEpochLocked_def pending_ok_def)

lemma epoch_run:
  fixes E :: "('f :: field, 'p1 :: ab_group_add, 'p2, 'gt) renv"
  assumes "pending_ok r"
  shows "ru_epoch r \<le> ru_epoch (runner_run E ops r)"
proof -
  have "pending_ok (runner_run E ops r) \<and> ru_epoch r \<le> ru_epoch (runner_run E ops r)"
    by (rule epochs.P_run) (simp_all add: assms)
  then show ?thesis by simp
qed

lemma ensureLocalPoly_epoch: "ru_epoch (snd (ensureLocalPoly E now r)) = ru_epoch r" "ru_done (snd (ensureLocalPoly E now r)) = ru_done r"
  by (auto simp: ensureLocalPoly_def Let_def persistLocked_def emit_def split: sum.splits)

lemma bumpEpoch_epoch:
  assumes "ep \<noteq> 0" and "\<not> ru_done r" and "ru_epoch r < ep"
  shows "ru_epoch (bumpEpoch E now ep r) = ep" and "\<not> ru_done (bumpEpoch E now ep r)"
proof -
  let ?s = "emit (dkg_metric ''epoch_bump'') (persistLocked E (resetForEpochLocked now ep r))"
  have s: "ru_epoch ?s = ep" "\<not> ru_done ?s" by (simp_all add: emit_def persistLocked_def resetForEpochLocked_def)
  have b: "bumpEpoch E now ep r = broadcastCommitments E (snd (ensureLocalPoly E now ?s))"
    using assms by (simp add: bumpEpoch_def Let_def)
  have send: "ru_epoch (broadcastCommitments E t) = ru_epoch t" "ru_done (broadcastCommitments E t) = ru_done t" for t
    by (auto simp: broadcastCommitments_def send_def emit_def split: option.splits)
  show "ru_epoch (bumpEpoch E now ep r) = ep" "\<not> ru_done (bumpEpoch E now ep r)"
    using s by (simp_all only: b send ensureLocalPoly_epoch simp_thms)
qed

text \<open>
  C38: One signed message pins the epoch. A member that names the largest epoch takes every node
  that has not finished to it; all progress is dropped, and since the next epoch number wraps
  to zero, neither a timeout nor a shortage of dealers ever restarts the generation there.
\<close>

theorem last_epoch_pinned:
  fixes E :: "('f :: field, 'p1 :: ab_group_add, 'p2, 'gt) renv"
  assumes "verifySig E m" and "wd_Epoch m = - 1" and "wd_SessionID m = dc_SessionID (rv_cfg E)"
    and "0 < wd_FromIndex m" and "wd_FromIndex m \<le> dc_N (rv_cfg E)" and "wd_FromIndex m \<noteq> dc_Index (rv_cfg E)" and "wd_Type m \<noteq> []"
    and "pending_ok r" and "\<not> ru_done r"
  shows "ru_epoch (runner_run E ops (runner_OnMessage E now m r)) = - 1"
proof -
  define s where "s = (if wd_Epoch m > ru_epoch r then bumpEpoch E now (wd_Epoch m) r else r)"
  have max: "ep \<le> (- 1 :: u64)" for ep by (rule word_n1_ge)
  have s: "ru_epoch s = - 1" "pending_ok s"
  proof -
    show "ru_epoch s = - 1"
      using bumpEpoch_epoch(1) [of "- 1" r E now] assms(2,9) order_antisym [OF max [of "ru_epoch r"]] by (auto simp: s_def not_less)
    have "live_with (\<lambda>r. pending_ok r \<and> 0 \<le> ru_epoch r) r" using assms(8,9) by (simp add: live_with_def)
    then show "pending_ok s"
      using epochs.live_bump [of 0 r E now "wd_Epoch m"] assms(8) by (auto simp: s_def live_with_def)
  qed
  have "runner_OnMessage E now m r = dispatch_dkg E now m s"
    unfolding runner_OnMessage_def Let_def s_def [symmetric] using assms s(1) max [of "ru_epoch r"] by (simp add: not_less)
  moreover have "pending_ok (runner_OnMessage E now m r) \<and> - 1 \<le> ru_epoch (runner_OnMessage E now m r)"
  proof (cases "ru_epoch r = - 1")
    case True
    then show ?thesis using assms(8) by (intro epochs.P_OnMessage) simp_all
  next
    case False
    then have lt: "ru_epoch r < - 1" using max [of "ru_epoch r"] by (meson order_less_le)
    have "\<not> ru_done s" using bumpEpoch_epoch(2) [of "- 1" r E now] assms(2,9) lt by (simp add: s_def)
    then have "live_with (\<lambda>r. pending_ok r \<and> - 1 \<le> ru_epoch r) s" using s by (simp add: live_with_def)
    from epochs.P_dispatch [OF this] assms(6) calculation show ?thesis by simp
  qed
  ultimately have "- 1 \<le> ru_epoch (runner_run E ops (runner_OnMessage E now m r))"
    using epoch_run by (meson order_trans)
  then show ?thesis using max by (meson order_antisym)
qed

section \<open>Resuming\<close>

lemma deserialize_serialize:
  assumes "scalar_ok N B" and "\<forall>c \<in> set cs. c \<noteq> 0"
  shows "deserialize_all B (map (sc_Serialize B) cs) = Some cs"
  using assms(2) by (induction cs) (simp_all add: checked_nonzero [OF scalar_okD(5) [OF assms(1)]])

text \<open>
  A restart. A node that finds the session it last stored, and no finished key, continues
  with the same polynomial, commitments, verified shares, acknowledgements, complaints and
  disqualified dealers; only shares and opened shares that were waiting for commitments are
  forgotten. Scalars that are zero would be refused on reading.
\<close>

theorem runner_resumes:
  fixes E :: "('f :: field, 'p1, 'p2, 'gt) renv"
  assumes "scalar_ok N (rv_B E)" and "\<And>s. set (rv_order E s) = fset s" and "NewBeastDKGRunner now E = Inr r0"
    and "\<not> ru_done r" and "ru_epoch r \<noteq> 0" and "ru_coeffs r \<noteq> []" and "\<forall>c \<in> set (ru_coeffs r). c \<noteq> 0"
    and "ru_self r \<noteq> []" and "ru_commitments r (dc_Index (rv_cfg E)) = Some (ru_self r)"
    and "ru_shares r (dc_Index (rv_cfg E)) \<noteq> None" and "\<forall>d s. ru_shares r d = Some s \<longrightarrow> s \<noteq> 0" and "\<forall>d \<in> fset (ru_bad r). 0 < d"
  shows "runner_restore E (session_of E r) r0 = r0\<lparr>ru_epoch := ru_epoch r, ru_coeffs := ru_coeffs r, ru_self := ru_self r,
     ru_commitments := ru_commitments r, ru_shares := ru_shares r, ru_acks := ru_acks r, ru_complaints := ru_complaints r, ru_bad := ru_bad r\<rparr>"
proof -
  let ?B = "rv_B E"
  have cs: "deserialize_all ?B (map (sc_Serialize ?B) (ru_coeffs r)) = Some (ru_coeffs r)"
    by (rule deserialize_serialize [OF assms(1,7)])
  have sh: "Option.bind (map_option (sc_Serialize ?B) (ru_shares r d)) (sc_Deserialize ?B) = ru_shares r d" for d
    using assms(11) by (cases "ru_shares r d") (auto simp: checked_nonzero [OF scalar_okD(5) [OF assms(1)]])
  have ord: "fset_of_list (rv_order E s) = s" for s using assms(2) by (simp add: fset_of_list.rep_eq fset_inject [symmetric])
  have bad: "ffilter ((<) 0) (ru_bad r) = ru_bad r"
    using assms(12) by (auto simp: fset_eq_iff)
  have com: "[dc_Index (rv_cfg E) \<mapsto> ru_self r] ++ ru_commitments r = ru_commitments r"
    using assms(9) by (auto simp: fun_eq_iff map_add_def split: option.splits)
  have r0: "ru_commitments r0 = Map.empty" "ru_shares r0 = Map.empty" "ru_acks r0 = (\<lambda>_. {||})" "ru_complaints r0 = (\<lambda>_. {||})" "ru_bad r0 = {||}"
    using assms(3) by (auto simp: NewBeastDKGRunner_def split: sum.splits)
  obtain own where "ru_shares r (dc_Index (rv_cfg E)) = Some own" using assms(10) by blast
  then show ?thesis
    using assms(4-6,8)
    by (simp add: runner_restore_def session_of_def restore_gossip_def Let_def cs sh ord bad com r0 comp_def)
qed

section \<open>A committee of two\<close>

text \<open>The environment of node \<open>i\<close> in a committee of two on the small instance.\<close>

definition pair_cfg :: "int \<Rightarrow> BeastDKGConfig" where
  "pair_cfg i = \<lparr>dc_SessionID = ''s'', dc_Epoch = 1, dc_N = 2, dc_Threshold = 2, dc_Index = i, dc_KeySharePath = ''k'',
     dc_SessionDir = [], dc_SigPriv = replicate 64 0, dc_EncPriv = replicate 32 0,
     dc_Committee = [\<lparr>bm_Index = 1, bm_SigPub = replicate 32 0, bm_EncPub = replicate 32 0\<rparr>,
                     \<lparr>bm_Index = 2, bm_SigPub = replicate 32 0, bm_EncPub = replicate 32 0\<rparr>]\<rparr>"

definition pair_env :: "int \<Rightarrow> (f5, f5, f5, f5) renv" where
  "pair_env i = \<lparr>rv_B = small_blst, rv_cfg = pair_cfg i, rv_sha = (\<lambda>_. replicate 32 0), rv_aes = (\<lambda>_. Some demo_aead),
     rv_sign = (\<lambda>_ _. []), rv_verify = (\<lambda>_ _ _. True), rv_x25519 = (\<lambda>_ _. Some []), rv_json = (\<lambda>_. Some []),
     rv_rand = (\<lambda>_. Some [1]), rv_order = sorted_list_of_fset\<rparr>"

text \<open>Both nodes deal \<open>1 + x\<close>; the messages node \<open>i\<close> sends to node \<open>j\<close>.\<close>

definition pair_msg :: "string \<Rightarrow> int \<Rightarrow> int \<Rightarrow> TSSDKG" where
  "pair_msg ty i j = \<lparr>wd_SessionID = ''s'', wd_Epoch = 1, wd_Type = ty, wd_FromIndex = i, wd_ToIndex = j, wd_Commitments = [],
     wd_Nonce = [], wd_Ciphertext = [], wd_Share = [], wd_Sig = []\<rparr>"

definition pair_ops :: "int \<Rightarrow> int \<Rightarrow> f5 \<Rightarrow> runner_op list" where
  "pair_ops i j s = [RMessage 1 ((pair_msg ''commitments'' j 0)\<lparr>wd_Commitments := [f5_bytes 48 F1, f5_bytes 48 F1]\<rparr>),
     RMessage 2 ((pair_msg ''share'' j i)\<lparr>wd_Nonce := replicate 12 5, wd_Ciphertext := seal demo_aead (replicate 12 5) (f5_bytes 32 s)\<rparr>),
     RMessage 3 (pair_msg ''ack'' j i)]"

lemma pair_cfg_simps [simp]:
  "dc_SessionID (pair_cfg i) = ''s''" "dc_N (pair_cfg i) = 2" "dc_Threshold (pair_cfg i) = 2" "dc_Index (pair_cfg i) = i"
  "dc_SessionDir (pair_cfg i) = []" "length (dc_SigPriv (pair_cfg i)) = 64" "length (dc_EncPriv (pair_cfg i)) = 32" "dc_Epoch (pair_cfg i) = 1"
  by (simp_all add: pair_cfg_def)

lemma pair_env_simps [simp]:
  "rv_B (pair_env i) = small_blst" "rv_cfg (pair_env i) = pair_cfg i" "rv_sha (pair_env i) b = replicate 32 0"
  "rv_aes (pair_env i) b = Some demo_aead" "rv_verify (pair_env i) b c d" "rv_x25519 (pair_env i) b c = Some []"
  "rv_json (pair_env i) m = Some []" "rv_rand (pair_env i) n = Some [1]"
  by (simp_all add: pair_env_def)

definition pair_started :: "int \<Rightarrow> f5 runner" where
  "pair_started i = snd (runner_Start (pair_env i) 1 None None (projr (NewBeastDKGRunner 1 (pair_env i))))"

lemma pair_fresh: "fresh_start (pair_env 1) (pair_started 1)" "fresh_start (pair_env 2) (pair_started 2)"
proof -
  have new: "NewBeastDKGRunner 1 (pair_env i) = Inr (projr (NewBeastDKGRunner 1 (pair_env i)))"
    if "\<not> isl (NewBeastDKGRunner 1 (pair_env i))" for i
    using that by (metis sum.collapse(2))
  have start: "runner_Start (pair_env i) 1 None None (projr (NewBeastDKGRunner 1 (pair_env i))) = (True, pair_started i)"
    if "fst (runner_Start (pair_env i) 1 None None (projr (NewBeastDKGRunner 1 (pair_env i))))" for i
    using that by (simp add: pair_started_def prod_eq_iff)
  have "\<not> isl (NewBeastDKGRunner 1 (pair_env 1))" "\<not> isl (NewBeastDKGRunner 1 (pair_env 2))"
    "fst (runner_Start (pair_env 1) 1 None None (projr (NewBeastDKGRunner 1 (pair_env 1))))"
    "fst (runner_Start (pair_env 2) 1 None None (projr (NewBeastDKGRunner 1 (pair_env 2))))" by code_simp+
  then show "fresh_start (pair_env 1) (pair_started 1)" "fresh_start (pair_env 2) (pair_started 2)"
    unfolding fresh_start_def using new start by blast+
qed

definition pair_ended :: "int \<Rightarrow> f5 runner" where
  "pair_ended i = runner_run (pair_env i) (if i = 1 then pair_ops 1 2 F2 else pair_ops 2 1 F3) (pair_started i)"

definition pair_final :: "int \<Rightarrow> f5 \<Rightarrow> f5 runner \<Rightarrow> bool" where
  "pair_final i s r \<longleftrightarrow> runner_Result r = Some \<lparr>dr_Index = i, dr_Threshold = 2, dr_GroupPubKey = f5_bytes 48 F2, dr_ShareScalar = f5_bytes 32 s\<rparr>
     \<and> qual (pair_env i) r = [1, 2] \<and> ru_commitments r 1 = Some [f5_bytes 48 F1, f5_bytes 48 F1]
     \<and> ru_commitments r 2 = Some [f5_bytes 48 F1, f5_bytes 48 F1]"

lemma pair_finished: "pair_final 1 F4 (pair_ended 1)" "pair_final 2 F1 (pair_ended 2)"
  by code_simp+

lemma pair_crypto: "crypto_ok 4 (pair_env 1)" "crypto_ok 4 (pair_env 2)"
  by (simp_all add: crypto_ok_def small_ok idx_ok_def)

lemma small_commitments: "commitmentsFromPoly small_blst [Some F1, Some F1] = Inr [f5_bytes 48 F1, f5_bytes 48 F1]"
  by (simp add: commitmentsFromPoly_def small_points)


theorem silent_member_blocks_witness:
  "runner_Result (runner_run (pair_env 1) [RTick 5, RTick 100, RMessage 101 (pair_msg ''ack'' 1 1)] (pair_started 1)) = None"
  by (rule silent_member_blocks [OF pair_fresh(1), of 2]) (auto simp: dealer_list_def pair_msg_def)

theorem last_epoch_pinned_witness:
  "ru_epoch (runner_run (pair_env 1) [RTick 100, RTick 200]
     (runner_OnMessage (pair_env 1) 2 ((pair_msg ''ack'' 2 1)\<lparr>wd_Epoch := - 1\<rparr>) (pair_started 1))) = - 1"
proof -
  have "verified (pair_env 1) (pair_started 1)"
    using started_verified [OF pair_crypto(1) pair_fresh(1), of "[]"] by (simp add: runner_run_def)
  then have pending: "pending_ok (pair_started 1)" by (simp add: verified_def)
  have "verifySig (pair_env 1) ((pair_msg ''ack'' 2 1)\<lparr>wd_Epoch := - 1\<rparr>)" "\<not> ru_done (pair_started 1)" by code_simp+
  from last_epoch_pinned [OF this(1) _ _ _ _ _ _ pending this(2)] show ?thesis
    by (simp add: pair_msg_def)
qed

text \<open>A state after its own dealing, written out.\<close>

definition pair_state :: "f5 runner" where
  "pair_state = \<lparr>ru_epoch = 1, ru_coeffs = [F1, F1], ru_self = [f5_bytes 48 F1, f5_bytes 48 F1],
     ru_commitments = [1 \<mapsto> [f5_bytes 48 F1, f5_bytes 48 F1]], ru_shares = [1 \<mapsto> F2],
     ru_pendingShare = Map.empty, ru_pendingOpen = Map.empty, ru_acks = (\<lambda>_. {||})(2 := {|1|}), ru_complaints = (\<lambda>_. {||}), ru_bad = {|2|},
     ru_done = False, ru_finalizing = False, ru_result = no_result, ru_retryInterval = 2, ru_epochTimeout = 60, ru_epochStart = 1,
     ru_rng = 2, ru_out = []\<rparr>"

theorem runner_resumes_witness:
  "ru_shares (runner_restore (pair_env 1) (session_of (pair_env 1) pair_state) (projr (NewBeastDKGRunner 1 (pair_env 1)))) 1 = Some F2"
proof -
  have "NewBeastDKGRunner 1 (pair_env 1) = Inr (projr (NewBeastDKGRunner 1 (pair_env 1)))"
    using pair_fresh(1) by (auto simp: fresh_start_def NewBeastDKGRunner_def split: sum.splits)
  from runner_resumes [OF _ _ this, of 4 pair_state] show ?thesis
    by (simp add: small_ok pair_env_def pair_state_def zero_f5_def pair_cfg_def)
qed

end
