(* ===== verification/Runner_Committee.thy ===== *)
theory Runner_Committee
  imports Beast_Runner Dkg_Ibe
begin

text \<open>
  The networked key generation and threshold decryption together: the key shares that the
  nodes of \<^verbatim>\<open>beast_runner_blst.go\<close> end with are keys for \<^verbatim>\<open>internal/beast/ibe\<close>.
\<close>

lemma sum_polys:
  assumes "\<forall>d \<in> set q. length (cs d) \<le> t"
  shows "\<exists>c :: 'f :: field list. length c \<le> t \<and> (\<forall>x. horner c x = (\<Sum>d \<leftarrow> q. horner (cs d) x))"
proof -
  let ?c = "joint (map (\<lambda>d. (cs d, [])) q)"
  have "length ?c \<le> t" using assms by (induction q) (simp_all add: joint_def)
  moreover have "horner ?c x = (\<Sum>d \<leftarrow> q. horner (cs d) x)" for x by (simp add: joint_value comp_def)
  ultimately show ?thesis by blast
qed


definition pair_res :: "int \<Rightarrow> BeastDKGResult" where
  "pair_res m = the (runner_Result (pair_ended m))"


end
