(* ===== verification/Metrics.thy ===== *)
theory Metrics
  imports Aequa_Prelude "HOL-Library.Char_ord" "HOL-Library.List_Lexorder"
begin

text \<open>
  The metric store of \<^verbatim>\<open>pkg/metrics/metrics.go\<close>: counters, gauges and summaries under a name
  and a label key, and their text exposition. A label set is the association list of the Go
  map literal, keys distinct. Operations are atomic, as the mutexes and atomics make them;
  the two-step look-up and creation of a counter is also modelled under interleaving. The
  addresses the store hands out and the conversion of a float to \<^verbatim>\<open>uint64\<close> are arguments.
\<close>

section \<open>Label keys\<close>

fun join :: "string \<Rightarrow> string list \<Rightarrow> string" where
  "join sep [] = []"
| "join sep [s] = s"
| "join sep (s # t # ts) = s @ sep @ join sep (t # ts)"

definition labelsKey :: "labels \<Rightarrow> string" where
  "labelsKey m =
     (if m = [] then []
      else join '','' (map (\<lambda>k. k @ ''='' @ the (map_of m k)) (sort (map fst m))))"

section \<open>The store\<close>

type_synonym mkey = "string \<times> string"

record registry =
  rg_counters :: "mkey \<rightharpoonup> u64"
  rg_gauges :: "mkey \<rightharpoonup> u64"
  rg_summaries :: "mkey \<rightharpoonup> u64 \<times> u64"

text \<open>Gauges are signed: a word read by \<open>sint\<close>.\<close>

definition metrics_Inc :: "string \<Rightarrow> labels \<Rightarrow> registry \<Rightarrow> registry" where
  "metrics_Inc name ls r =
     (let key = (name, labelsKey ls)
      in r\<lparr>rg_counters := (rg_counters r)(key \<mapsto> getz 0 (rg_counters r) key + 1)\<rparr>)"

definition metrics_AddGauge :: "string \<Rightarrow> labels \<Rightarrow> int \<Rightarrow> registry \<Rightarrow> registry" where
  "metrics_AddGauge name ls delta r =
     (let key = (name, labelsKey ls)
      in r\<lparr>rg_gauges := (rg_gauges r)(key \<mapsto> getz 0 (rg_gauges r) key + word_of_int delta)\<rparr>)"

definition metrics_SetGauge :: "string \<Rightarrow> labels \<Rightarrow> int \<Rightarrow> registry \<Rightarrow> registry" where
  "metrics_SetGauge name ls v r = r\<lparr>rg_gauges := (rg_gauges r)((name, labelsKey ls) \<mapsto> word_of_int v)\<rparr>"

datatype float64 = NotFinite | Finite rat

definition metrics_ObserveSummary :: "(rat \<Rightarrow> u64) \<Rightarrow> string \<Rightarrow> labels \<Rightarrow> float64 \<Rightarrow> registry \<Rightarrow> registry" where
  "metrics_ObserveSummary conv name ls value r =
     (case value of NotFinite \<Rightarrow> r
      | Finite x \<Rightarrow>
          let key = (name, labelsKey ls); (sm, n) = getz (0, 0) (rg_summaries r) key
          in r\<lparr>rg_summaries := (rg_summaries r)(key \<mapsto> (sm + conv x, n + 1))\<rparr>)"

definition metrics_Reset :: registry where
  "metrics_Reset = \<lparr>rg_counters = Map.empty, rg_gauges = Map.empty, rg_summaries = Map.empty\<rparr>"

text \<open>The events that the models of the components emit, applied to the store.\<close>

fun apply_metric :: "(rat \<Rightarrow> u64) \<Rightarrow> metric \<Rightarrow> registry \<Rightarrow> registry" where
  "apply_metric conv (Inc n ls) r = metrics_Inc n ls r"
| "apply_metric conv (AddGauge n ls d) r = metrics_AddGauge n ls d r"
| "apply_metric conv (SetGauge n ls v) r = metrics_SetGauge n ls v r"
| "apply_metric conv (ObserveSummary n ls v) r = metrics_ObserveSummary conv n ls (Finite (of_nat v)) r"

definition apply_metrics :: "(rat \<Rightarrow> u64) \<Rightarrow> metric list \<Rightarrow> registry \<Rightarrow> registry" where
  "apply_metrics conv ms r = fold (apply_metric conv) ms r"

section \<open>Exposition\<close>

text \<open>\<open>None\<close> is the index panic of \<^verbatim>\<open>p[1]\<close> on a part without an equals sign.\<close>

definition render_pair :: "string \<Rightarrow> string option" where
  "render_pair kv =
     (if CHR ''='' \<in> set kv
      then Some (takeWhile (\<lambda>c. c \<noteq> CHR ''='') kv @ ''=\"'' @ tl (dropWhile (\<lambda>c. c \<noteq> CHR ''='') kv) @ ''\"'')
      else None)"

definition render_labels :: "string \<Rightarrow> string option" where
  "render_labels l =
     (if l = [] then Some []
      else map_option (\<lambda>ps. ''{'' @ join '','' ps @ ''}'') (those (map render_pair (split_on (CHR '','') l))))"

definition decimal_int :: "int \<Rightarrow> string" where
  "decimal_int v = (if v < 0 then ''-'' @ decimal (nat (- v)) else decimal (nat v))"

definition key_less :: "mkey \<Rightarrow> mkey \<Rightarrow> bool" where
  "key_less a b \<longleftrightarrow> (if fst a \<noteq> fst b then fst a < fst b else snd a < snd b)"

definition nl :: string where
  "nl = [char_of (10 :: nat)]"

definition counter_line :: "registry \<Rightarrow> mkey \<Rightarrow> string option" where
  "counter_line r k =
     map_option (\<lambda>l. fst k @ l @ '' '' @ decimal (unat (getz 0 (rg_counters r) k)) @ nl) (render_labels (snd k))"

definition gauge_line :: "registry \<Rightarrow> mkey \<Rightarrow> string option" where
  "gauge_line r k =
     map_option (\<lambda>l. fst k @ l @ '' '' @ decimal_int (sint (getz 0 (rg_gauges r) k)) @ nl) (render_labels (snd k))"

definition summary_lines :: "registry \<Rightarrow> mkey \<Rightarrow> string option" where
  "summary_lines r k =
     (let (sm, n) = getz (0, 0) (rg_summaries r) k in
      map_option (\<lambda>l. fst k @ ''_sum'' @ l @ '' '' @ decimal (unat sm) @ nl
                    @ fst k @ ''_count'' @ l @ '' '' @ decimal (unat n) @ nl) (render_labels (snd k)))"

definition dump_header :: string where
  "dump_header = ''# HELP dvt_up 1'' @ nl @ ''# TYPE dvt_up gauge'' @ nl @ ''dvt_up 1'' @ nl"

text \<open>The three lists are the orders in which the maps are ranged over.\<close>

definition DumpProm :: "mkey list \<Rightarrow> mkey list \<Rightarrow> mkey list \<Rightarrow> registry \<Rightarrow> string option" where
  "DumpProm cs gs ss r =
     map_option (\<lambda>ls. dump_header @ concat ls)
       (those (map (counter_line r) (slice_stable key_less cs) @ map (gauge_line r) (slice_stable key_less gs)
               @ map (summary_lines r) (slice_stable key_less ss)))"

section \<open>Plain labels\<close>

lemma split_on_joined: "ps \<noteq> [] \<Longrightarrow> \<forall>p \<in> set ps. c \<notin> set p \<Longrightarrow> split_on c (join [c] ps) = ps"
  by (induction "[c]" ps rule: join.induct) (simp_all add: split_on_single split_on_join)

text \<open>Labels without the separators of the label key.\<close>

definition plain_labels :: "labels \<Rightarrow> bool" where
  "plain_labels ls \<longleftrightarrow> distinct (map fst ls)
     \<and> list_all (\<lambda>(k, v). CHR '','' \<notin> set k \<and> CHR ''='' \<notin> set k \<and> CHR '','' \<notin> set v) ls"

definition label_parts :: "labels \<Rightarrow> string list" where
  "label_parts ls = map (\<lambda>k. k @ ''='' @ the (map_of ls k)) (sort (map fst ls))"

lemma plain_value: "plain_labels ls \<Longrightarrow> k \<in> fst ` set ls \<Longrightarrow> CHR '','' \<notin> set k \<and> CHR ''='' \<notin> set k \<and> CHR '','' \<notin> set (the (map_of ls k))"
  by (force simp: plain_labels_def list_all_iff)

lemma label_parts_plain: "plain_labels ls \<Longrightarrow> \<forall>p \<in> set (label_parts ls). CHR '','' \<notin> set p"
  using plain_value by (fastforce simp: label_parts_def)

lemma label_parts_empty [simp]: "label_parts ls = [] \<longleftrightarrow> ls = []"
  by (simp add: label_parts_def) (metis list.size(3) length_0_conv length_map length_sort)

lemma labelsKey_parts: "labelsKey ls = join '','' (label_parts ls)"
  by (simp add: labelsKey_def label_parts_def)

lemma split_labelsKey: "plain_labels ls \<Longrightarrow> ls \<noteq> [] \<Longrightarrow> split_on (CHR '','') (labelsKey ls) = label_parts ls"
  unfolding labelsKey_parts by (rule split_on_joined [OF _ label_parts_plain]) simp_all

lemma join_nonempty: "ps \<noteq> [] \<Longrightarrow> hd ps \<noteq> [] \<Longrightarrow> join sep ps \<noteq> []"
  by (induction sep ps rule: join.induct) simp_all

lemma label_parts_hd: "ls \<noteq> [] \<Longrightarrow> hd (label_parts ls) \<noteq> []"
  using label_parts_empty [of ls] by (simp add: label_parts_def hd_map)

lemma labelsKey_nonempty [simp]: "labelsKey ls = [] \<longleftrightarrow> ls = []"
proof (cases "ls = []")
  case False
  then have "join '','' (label_parts ls) \<noteq> []" by (intro join_nonempty label_parts_hd) simp
  with False show ?thesis by (simp add: labelsKey_parts)
qed (simp add: labelsKey_def)

text \<open>The key of plain labels determines them.\<close>

lemma pair_eq:
  assumes "CHR ''='' \<notin> set a" and "CHR ''='' \<notin> set b" and "a @ ''='' @ v = b @ ''='' @ w"
  shows "a = b \<and> v = w"
proof -
  have "takeWhile (\<lambda>c. c \<noteq> CHR ''='') (x @ ''='' @ y) = x" if "CHR ''='' \<notin> set x" for x y
    using that by (induction x) auto
  with assms have "a = b" by metis
  with assms(3) show ?thesis by simp
qed

lemma labelsKey_inj:
  assumes "plain_labels ls" and "plain_labels ls'" and "labelsKey ls = labelsKey ls'"
  shows "map_of ls = map_of ls'"
proof (cases "ls = [] \<or> ls' = []")
  case True
  then show ?thesis using assms(3) by (metis labelsKey_nonempty)
next
  case False
  then have parts: "label_parts ls = label_parts ls'"
    using split_labelsKey [OF assms(1)] split_labelsKey [OF assms(2)] assms(3) by simp
  let ?f = "\<lambda>l k. k @ ''='' @ the (map_of l k)"
  have len: "length (sort (map fst ls)) = length (sort (map fst ls'))"
    using arg_cong [OF parts, of length] by (simp add: label_parts_def)
  have nth: "sort (map fst ls) ! i = sort (map fst ls') ! i \<and> the (map_of ls (sort (map fst ls) ! i)) = the (map_of ls' (sort (map fst ls') ! i))"
    if i: "i < length ls" for i
  proof -
    have "sort (map fst ls) ! i \<in> fst ` set ls" "sort (map fst ls') ! i \<in> fst ` set ls'"
      using i len nth_mem [of i "sort (map fst ls)"] nth_mem [of i "sort (map fst ls')"] by simp_all
    moreover have "?f ls (sort (map fst ls) ! i) = ?f ls' (sort (map fst ls') ! i)"
      using i len arg_cong [OF parts, of "\<lambda>p. p ! i"] by (simp add: label_parts_def)
    ultimately show ?thesis
      using pair_eq plain_value [OF assms(1)] plain_value [OF assms(2)] by blast
  qed
  have keys: "sort (map fst ls) = sort (map fst ls')" using len nth by (intro nth_equalityI) simp_all
  have "map_of ls k = map_of ls' k" for k
  proof (cases "k \<in> fst ` set ls")
    case True
    then obtain i where i: "i < length ls" "sort (map fst ls) ! i = k"
      by (metis (no_types, lifting) in_set_conv_nth length_map length_sort list.set_map set_sort)
    then have "the (map_of ls k) = the (map_of ls' k)" using nth [OF i(1)] keys by simp
    moreover have "k \<in> fst ` set ls'" using True keys by (metis list.set_map set_sort)
    ultimately show ?thesis using True by (metis map_of_eq_None_iff option.expand)
  next
    case False
    then have "k \<notin> fst ` set ls'" using keys by (metis list.set_map set_sort)
    with False show ?thesis by (metis map_of_eq_None_iff)
  qed
  then show ?thesis by blast
qed

lemma labelsKey_cong: "distinct (map fst ls) \<Longrightarrow> distinct (map fst ls') \<Longrightarrow> map_of ls = map_of ls' \<Longrightarrow> labelsKey ls = labelsKey ls'"
proof -
  assume *: "distinct (map fst ls)" "distinct (map fst ls')" "map_of ls = map_of ls'"
  then have "set (map fst ls) = set (map fst ls')" by (metis dom_map_of_conv_image_fst list.set_map)
  then have "sort (map fst ls) = sort (map fst ls')" using * by (metis sorted_distinct_set_unique distinct_sort sorted_sort set_sort)
  moreover have "ls = [] \<longleftrightarrow> ls' = []" using \<open>set (map fst ls) = set (map fst ls')\<close> by auto
  ultimately show ?thesis using *(3) by (simp add: labelsKey_def)
qed

lemma labelsKey_iff: "plain_labels ls \<Longrightarrow> plain_labels ls' \<Longrightarrow> labelsKey ls = labelsKey ls' \<longleftrightarrow> map_of ls = map_of ls'"
  using labelsKey_inj labelsKey_cong plain_labels_def by blast

section \<open>Counting\<close>

definition same_inc :: "string \<Rightarrow> labels \<Rightarrow> metric \<Rightarrow> bool" where
  "same_inc n ls m = (case m of Inc n' ls' \<Rightarrow> n' = n \<and> map_of ls' = map_of ls | _ \<Rightarrow> False)"

fun labels_of :: "metric \<Rightarrow> labels" where
  "labels_of (Inc n ls) = ls" | "labels_of (AddGauge n ls d) = ls" | "labels_of (SetGauge n ls v) = ls"
| "labels_of (ObserveSummary n ls v) = ls"

lemma counters_other [simp]:
  "rg_counters (metrics_AddGauge n ls d r) = rg_counters r" "rg_counters (metrics_SetGauge n ls v r) = rg_counters r"
  "rg_counters (metrics_ObserveSummary conv n ls x r) = rg_counters r"
  by (simp_all add: metrics_AddGauge_def metrics_SetGauge_def metrics_ObserveSummary_def Let_def split: float64.splits prod.splits)

lemma apply_metrics_simps [simp]:
  "apply_metrics conv [] r = r"
  "apply_metrics conv (m # ms) r = apply_metrics conv ms (apply_metric conv m r)"
  by (simp_all add: apply_metrics_def)

lemma counter_step:
  assumes "plain_labels (labels_of m)" and "plain_labels ls"
  shows "getz 0 (rg_counters (apply_metric conv m r)) (n, labelsKey ls)
    = getz 0 (rg_counters r) (n, labelsKey ls) + (if same_inc n ls m then 1 else 0)"
proof (cases m)
  case (Inc n' ls')
  then have "labelsKey ls' = labelsKey ls \<longleftrightarrow> map_of ls' = map_of ls" using assms by (intro labelsKey_iff) simp_all
  with Inc show ?thesis by (auto simp: same_inc_def metrics_Inc_def Let_def)
qed (simp_all add: same_inc_def)

lemma counter_run:
  assumes "\<forall>m \<in> set ms. plain_labels (labels_of m)" and "plain_labels ls"
  shows "getz 0 (rg_counters (apply_metrics conv ms r)) (n, labelsKey ls)
    = getz 0 (rg_counters r) (n, labelsKey ls) + of_nat (length (filter (same_inc n ls) ms))"
  using assms by (induction ms arbitrary: r) (simp_all add: counter_step)

section \<open>The exposition of plain labels\<close>

interpretation keys: weak_order UNIV key_less
  by unfold_locales (auto simp: key_less_def split: if_splits dest: order.strict_trans)

lemma key_sorted_unique:
  assumes "mset xs = mset ys"
  shows "slice_stable key_less xs = slice_stable key_less ys"
proof (rule keys.ordered_unique)
  show "\<forall>a \<in> set (slice_stable key_less xs). \<forall>b \<in> set (slice_stable key_less xs). \<not> key_less a b \<longrightarrow> \<not> key_less b a \<longrightarrow> a = b"
    by (auto simp: key_less_def prod_eq_iff not_less order.antisym split: if_splits)
qed (use assms in \<open>simp_all add: keys.sorted_slice_stable\<close>)

lemma those_map_Some: "(\<And>x. x \<in> set xs \<Longrightarrow> f x = Some (g x)) \<Longrightarrow> those (map f xs) = Some (map g xs)"
  by (induction xs) simp_all

lemma those_Some_iff: "(\<exists>ys. those xs = Some ys) \<longleftrightarrow> None \<notin> set xs"
  by (induction xs) (auto split: option.splits)

lemma render_pair_label: "CHR ''='' \<notin> set k \<Longrightarrow> render_pair (k @ ''='' @ v) = Some (k @ ''=\"'' @ v @ ''\"'')"
  by (induction k) (auto simp: render_pair_def)

lemma render_plain:
  assumes "plain_labels ls"
  shows "render_labels (labelsKey ls) =
    Some (if ls = [] then [] else ''{'' @ join '','' (map (\<lambda>k. k @ ''=\"'' @ the (map_of ls k) @ ''\"'') (sort (map fst ls))) @ ''}'')"
proof (cases "ls = []")
  case False
  have "those (map render_pair (label_parts ls)) = Some (map (\<lambda>k. k @ ''=\"'' @ the (map_of ls k) @ ''\"'') (sort (map fst ls)))"
    unfolding label_parts_def map_map comp_def
    by (rule those_map_Some) (use plain_value [OF assms] in \<open>auto intro!: render_pair_label simp del: append.simps append_Cons\<close>)
  with False show ?thesis by (simp add: render_labels_def split_labelsKey [OF assms])
qed (simp add: render_labels_def labelsKey_def)

definition plain_keys :: "registry \<Rightarrow> bool" where
  "plain_keys r \<longleftrightarrow> (\<forall>k \<in> dom (rg_counters r) \<union> dom (rg_gauges r) \<union> dom (rg_summaries r). \<exists>ls. plain_labels ls \<and> snd k = labelsKey ls)"

lemma plain_step: "plain_keys r \<Longrightarrow> plain_labels (labels_of m) \<Longrightarrow> plain_keys (apply_metric conv m r)"
  by (cases m) (auto simp: plain_keys_def metrics_Inc_def metrics_AddGauge_def metrics_SetGauge_def metrics_ObserveSummary_def Let_def
      split: prod.splits)

lemma plain_run: "plain_keys r \<Longrightarrow> \<forall>m \<in> set ms. plain_labels (labels_of m) \<Longrightarrow> plain_keys (apply_metrics conv ms r)"
  by (induction ms arbitrary: r) (simp_all add: plain_step)

lemma line_total:
  assumes "plain_keys r"
  shows "k \<in> dom (rg_counters r) \<Longrightarrow> counter_line r k \<noteq> None" "k \<in> dom (rg_gauges r) \<Longrightarrow> gauge_line r k \<noteq> None"
    "k \<in> dom (rg_summaries r) \<Longrightarrow> summary_lines r k \<noteq> None"
proof -
  have "render_labels (snd k) \<noteq> None" if k: "k \<in> dom (rg_counters r) \<union> dom (rg_gauges r) \<union> dom (rg_summaries r)"
  proof -
    obtain ls where "plain_labels ls" "snd k = labelsKey ls" using bspec [OF assms [unfolded plain_keys_def] k] by blast
    then show ?thesis by (simp only: render_plain) simp
  qed
  then show "k \<in> dom (rg_counters r) \<Longrightarrow> counter_line r k \<noteq> None" "k \<in> dom (rg_gauges r) \<Longrightarrow> gauge_line r k \<noteq> None"
    "k \<in> dom (rg_summaries r) \<Longrightarrow> summary_lines r k \<noteq> None"
    by (auto simp: counter_line_def gauge_line_def summary_lines_def split: prod.splits)
qed

definition dump_orders :: "registry \<Rightarrow> mkey list \<Rightarrow> mkey list \<Rightarrow> mkey list \<Rightarrow> bool" where
  "dump_orders r cs gs ss \<longleftrightarrow> range_order (rg_counters r) cs \<and> range_order (rg_gauges r) gs \<and> range_order (rg_summaries r) ss"

lemma dump_order_irrelevant:
  assumes "dump_orders r cs gs ss" and "dump_orders r cs' gs' ss'"
  shows "DumpProm cs gs ss r = DumpProm cs' gs' ss' r"
  using assms key_sorted_unique [OF range_order_mset] unfolding dump_orders_def DumpProm_def by metis

lemma plain_dump:
  assumes "plain_keys r" and "dump_orders r cs gs ss"
  shows "\<exists>t. DumpProm cs gs ss r = Some t"
proof -
  note total = line_total [OF assms(1)]
  have sets: "set cs = dom (rg_counters r)" "set gs = dom (rg_gauges r)" "set ss = dom (rg_summaries r)"
    using assms(2) by (simp_all add: dump_orders_def range_order_def)
  have "None \<notin> counter_line r ` set cs \<union> gauge_line r ` set gs \<union> summary_lines r ` set ss"
    using total unfolding sets by (metis (no_types, lifting) Un_iff imageE)
  then have "None \<notin> set (map (counter_line r) (slice_stable key_less cs) @ map (gauge_line r) (slice_stable key_less gs)
               @ map (summary_lines r) (slice_stable key_less ss))" by simp
  then show ?thesis
    unfolding those_Some_iff [symmetric] DumpProm_def by auto
qed

text \<open>
  The metric store, over any sequence of events whose labels hold no separator: a counter
  holds, modulo \<open>2 ^ 64\<close>, the number of increments with its name and an equal label map, in
  whatever order the labels were written; and the exposition never panics and does not
  depend on the order in which the maps are ranged over.
\<close>

theorem metrics_store_exact:
  assumes "\<forall>m \<in> set ms. plain_labels (labels_of m)" and "plain_labels ls"
    and "r = apply_metrics conv ms metrics_Reset" and "dump_orders r cs gs ss" and "dump_orders r cs' gs' ss'"
  shows "getz 0 (rg_counters r) (n, labelsKey ls) = of_nat (length (filter (same_inc n ls) ms))
    \<and> (\<exists>t. DumpProm cs gs ss r = Some t \<and> DumpProm cs' gs' ss' r = Some t)"
proof
  show "getz 0 (rg_counters r) (n, labelsKey ls) = of_nat (length (filter (same_inc n ls) ms))"
    using counter_run [OF assms(1,2)] by (simp add: assms(3) metrics_Reset_def)
  have "plain_keys r" unfolding assms(3) by (rule plain_run [OF _ assms(1)]) (simp add: plain_keys_def metrics_Reset_def)
  then obtain t where "DumpProm cs gs ss r = Some t" using plain_dump assms(4) by blast
  then show "\<exists>t. DumpProm cs gs ss r = Some t \<and> DumpProm cs' gs' ss' r = Some t"
    using dump_order_irrelevant [OF assms(4,5)] by simp
qed

theorem metrics_store_exact_witness:
  "getz 0 (rg_counters (apply_metrics (\<lambda>_. 0) [Inc ''n'' [(''b'', ''2''), (''a'', ''1'')], Inc ''n'' [(''a'', ''1''), (''b'', ''2'')]]
     metrics_Reset)) (''n'', ''a=1,b=2'') = 2"
proof -
  let ?ms = "[Inc ''n'' [(''b'', ''2''), (''a'', ''1'')], Inc ''n'' [(''a'', ''1''), (''b'', ''2'')]]"
  let ?r = "apply_metrics (\<lambda>_. 0) ?ms metrics_Reset"
  have key: "labelsKey [(''a'', ''1''), (''b'', ''2'')] = ''a=1,b=2''" "labelsKey [(''b'', ''2''), (''a'', ''1'')] = ''a=1,b=2''"
    by code_simp+
  have ord: "dump_orders ?r [(''n'', ''a=1,b=2'')] [] []"
    by (auto simp: dump_orders_def range_order_def metrics_Inc_def Let_def key metrics_Reset_def split: if_splits)
  have "same_inc ''n'' [(''a'', ''1''), (''b'', ''2'')] (Inc ''n'' [(''b'', ''2''), (''a'', ''1'')])"
    "same_inc ''n'' [(''a'', ''1''), (''b'', ''2'')] (Inc ''n'' [(''a'', ''1''), (''b'', ''2'')])"
    by (auto simp: same_inc_def fun_eq_iff)
  then have "length (filter (same_inc ''n'' [(''a'', ''1''), (''b'', ''2'')]) ?ms) = 2" by (simp only: filter.simps list.size if_True)
  moreover have "\<forall>m \<in> set ?ms. plain_labels (labels_of m)" "plain_labels [(''a'', ''1''), (''b'', ''2'')]"
    by (simp_all add: plain_labels_def)
  moreover note metrics_store_exact [OF this refl ord ord, of "''n''"]
  ultimately show ?thesis by (simp only: key) simp
qed

text \<open>
  A label value with a comma breaks the exposition: as long as the counter exists, every
  request for the metrics panics, whatever else the store holds.
\<close>

theorem comma_label_panics:
  assumes "CHR '','' \<notin> set v" and "CHR ''='' \<notin> set v" and "(n, labelsKey [(k, u @ '','' @ v)]) \<in> set cs"
  shows "DumpProm cs gs ss (metrics_Inc n [(k, u @ '','' @ v)] r) = None"
proof -
  have "v \<in> set (tl (split_on (CHR '','') (s @ '','' @ v)))" for s
    using assms(1) by (induction s) (auto simp: split_on_single dest: list.set_sel(2) [OF split_on_nonempty])
  then have split: "v \<in> set (split_on (CHR '','') (s @ '','' @ v))" for s
    by (rule list.set_sel(2) [OF split_on_nonempty])
  have "v \<in> set (split_on (CHR '','') (labelsKey [(k, u @ '','' @ v)]))"
    using split [of "k @ ''='' @ u"] by (simp add: labelsKey_def)
  moreover have "render_pair v = None" using assms(2) by (simp add: render_pair_def)
  ultimately have "None \<in> set (map render_pair (split_on (CHR '','') (labelsKey [(k, u @ '','' @ v)])))"
    by (metis image_eqI list.set_map)
  then have "those (map render_pair (split_on (CHR '','') (labelsKey [(k, u @ '','' @ v)]))) = None"
    using those_Some_iff by (metis not_None_eq)
  then have "counter_line r' (n, labelsKey [(k, u @ '','' @ v)]) = None" for r'
    by (simp add: counter_line_def render_labels_def labelsKey_def)
  then have *: "None \<in> set (map (counter_line r') (slice_stable key_less cs))" for r'
    using assms(3) by (metis image_eqI list.set_map set_slice_stable)
  have "those (map (counter_line r') (slice_stable key_less cs) @ xs) = None" for r' xs
    using those_Some_iff [of "map (counter_line r') (slice_stable key_less cs) @ xs"] * [of r'] by (metis UnCI not_None_eq set_append)
  then show ?thesis by (simp only: DumpProm_def option.map)
qed

theorem comma_label_panics_witness:
  "DumpProm [(''tss_msgs_total'', ''type=a,b'')] [] [] (metrics_Inc ''tss_msgs_total'' [(''type'', ''a'' @ '','' @ ''b'')] metrics_Reset) = None"
proof -
  have "labelsKey [(''type'', ''a'' @ '','' @ ''b'')] = ''type=a,b''" by code_simp
  then show ?thesis using comma_label_panics [of "''b''" "''tss_msgs_total''" "''type''" "''a''"] by simp
qed

section \<open>Concurrent increments\<close>

text \<open>
  \<^verbatim>\<open>Inc\<close> looks the counter up under the read lock, creates it under the write lock when it
  was missing and is still missing, and then adds one atomically. A thread is at one of
  these points; counters are cells of a heap, and a new cell is one no counter uses.
\<close>

datatype inc_pc = IncLookup | IncCreate | IncAdd nat | IncDone

type_synonym 'k inc_state = "('k \<rightharpoonup> nat) \<times> (nat \<Rightarrow> u64) \<times> (nat \<Rightarrow> inc_pc)"

inductive inc_step :: "(nat \<Rightarrow> 'k) \<Rightarrow> 'k inc_state \<Rightarrow> 'k inc_state \<Rightarrow> bool" for key where
  hit: "pc t = IncLookup \<Longrightarrow> c (key t) = Some a \<Longrightarrow> inc_step key (c, h, pc) (c, h, pc(t := IncAdd a))"
| miss: "pc t = IncLookup \<Longrightarrow> c (key t) = None \<Longrightarrow> inc_step key (c, h, pc) (c, h, pc(t := IncCreate))"
| create: "pc t = IncCreate \<Longrightarrow> c (key t) = None \<Longrightarrow> a \<notin> ran c
    \<Longrightarrow> inc_step key (c, h, pc) (c(key t \<mapsto> a), h(a := 0), pc(t := IncAdd a))"
| created: "pc t = IncCreate \<Longrightarrow> c (key t) = Some a \<Longrightarrow> inc_step key (c, h, pc) (c, h, pc(t := IncAdd a))"
| add: "pc t = IncAdd a \<Longrightarrow> inc_step key (c, h, pc) (c, h(a := h a + 1), pc(t := IncDone))"

definition incs_done :: "(nat \<Rightarrow> 'k) \<Rightarrow> (nat \<Rightarrow> inc_pc) \<Rightarrow> 'k \<Rightarrow> nat set" where
  "incs_done key pc k = {t. key t = k \<and> pc t = IncDone}"

definition inc_value :: "'k inc_state \<Rightarrow> 'k \<Rightarrow> u64" where
  "inc_value s k = (case fst s k of None \<Rightarrow> 0 | Some a \<Rightarrow> fst (snd s) a)"

fun inc_inv :: "(nat \<Rightarrow> 'k) \<Rightarrow> 'k inc_state \<Rightarrow> bool" where
  "inc_inv key (c, h, pc) \<longleftrightarrow> inj_on c (dom c) \<and> (\<forall>t a. pc t = IncAdd a \<longrightarrow> c (key t) = Some a)
     \<and> (\<forall>k. finite (incs_done key pc k) \<and> inc_value (c, h, pc) k = of_nat (card (incs_done key pc k)))"

lemma incs_done_upd [simp]:
  "pc t \<noteq> IncDone \<Longrightarrow> incs_done key (pc(t := p)) k = (if p = IncDone \<and> key t = k then insert t (incs_done key pc k) else incs_done key pc k)"
  by (auto simp: incs_done_def)

lemma inc_value_upd [simp]: "inc_value (c, h, pc) k = (case c k of None \<Rightarrow> 0 | Some a \<Rightarrow> h a)"
  by (simp add: inc_value_def cong: option.case_cong)

lemma inc_inv_step: "inc_step key s s' \<Longrightarrow> inc_inv key s \<Longrightarrow> inc_inv key s'"
proof (induction rule: inc_step.induct)
  case (create pc t c a h)
  have "inj_on (c(key t \<mapsto> a)) (dom (c(key t \<mapsto> a)))"
    using create by (auto simp: inj_on_def ran_def)
  moreover have "inc_value (c(key t \<mapsto> a), h(a := 0), pc(t := IncAdd a)) k = inc_value (c, h, pc) k" for k
    using create(2,3) by (auto simp: ran_def split: option.splits)
  moreover have "(c(key t \<mapsto> a)) (key u) = Some b" if "(pc(t := IncAdd a)) u = IncAdd b" for u b
  proof (cases "u = t")
    case False
    then have "c (key u) = Some b" using that create(4) by simp
    with create(2) show ?thesis by (cases "key u = key t") simp_all
  qed (use that in simp)
  ultimately show ?case using create(1,4) by (simp del: inc_value_upd)
next
  case (add pc t a c h)
  then have c: "c (key t) = Some a" and inj: "inj_on c (dom c)" by auto
  have other: "c k \<noteq> Some a" if "k \<noteq> key t" for k
    using inj_onD [OF inj, of k "key t"] c that by (metis domI)
  have new: "t \<notin> incs_done key pc (key t)" using add(1) by (simp add: incs_done_def)
  have val: "finite (incs_done key pc k)" "(case c k of None \<Rightarrow> 0 | Some b \<Rightarrow> h b) = of_nat (card (incs_done key pc k))" for k
    using add(2) by simp_all
  have "inc_value (c, h(a := h a + 1), pc(t := IncDone)) k = of_nat (card (incs_done key (pc(t := IncDone)) k))" for k
  proof (cases "k = key t")
    case True
    then show ?thesis using val [of "key t"] new c add(1) by simp
  next
    case False
    then have "(case c k of None \<Rightarrow> 0 | Some b \<Rightarrow> (h(a := h a + 1)) b) = (case c k of None \<Rightarrow> 0 | Some b \<Rightarrow> h b)"
      using other [OF False] by (cases "c k") auto
    then show ?thesis using val [of k] False add(1) by simp
  qed
  with add val(1) show ?case by (simp del: inc_value_upd)
qed auto

text \<open>
  No increment is lost: after any interleaving of any number of threads, a counter holds the
  number of finished increments of its key, modulo \<open>2 ^ 64\<close>.
\<close>

theorem increments_not_lost:
  assumes "(inc_step key)\<^sup>*\<^sup>* (Map.empty, h0, \<lambda>_. IncLookup) s"
  shows "inc_value s k = of_nat (card (incs_done key (snd (snd s)) k))"
proof -
  have "inc_inv key (Map.empty, h0, \<lambda>_. IncLookup)" by (simp add: incs_done_def)
  with assms have "inc_inv key s" by (induction rule: rtranclp_induct) (auto intro: inc_inv_step)
  then show ?thesis by (cases s) simp
qed

theorem increments_not_lost_witness:
  "inc_value ([(''n'', '''') \<mapsto> 7], (\<lambda>_. 0)(7 := 2), (\<lambda>_. IncLookup)(0 := IncDone, 1 := IncDone)) (''n'', '''') = 2"
proof -
  let ?k = "(''n'', '''') :: mkey" and ?st = "inc_step (\<lambda>_. (''n'', ''''))"
  define P :: "nat \<Rightarrow> inc_pc" where "P = (\<lambda>_. IncLookup)"
  have s1: "?st (Map.empty, \<lambda>_. 0, P) (Map.empty, \<lambda>_. 0, P(0 := IncCreate))" by (rule miss) (simp_all add: P_def)
  have s2: "?st (Map.empty, \<lambda>_. 0, P(0 := IncCreate)) (Map.empty, \<lambda>_. 0, P(0 := IncCreate, 1 := IncCreate))"
    by (rule miss) (simp_all add: P_def)
  have s3: "?st (Map.empty, \<lambda>_. 0, P(0 := IncCreate, 1 := IncCreate)) ([?k \<mapsto> 7], (\<lambda>_. 0)(7 := 0), P(0 := IncCreate, 1 := IncAdd 7))"
    using create [of "P(0 := IncCreate, 1 := IncCreate)" 1 Map.empty "\<lambda>_. ?k" 7 "\<lambda>_. 0"] by (simp add: fun_upd_twist)
  have s4: "?st ([?k \<mapsto> 7], (\<lambda>_. 0)(7 := 0), P(0 := IncCreate, 1 := IncAdd 7)) ([?k \<mapsto> 7], (\<lambda>_. 0)(7 := 0), P(0 := IncAdd 7, 1 := IncAdd 7))"
    using created [of "P(0 := IncCreate, 1 := IncAdd 7)" 0 "[?k \<mapsto> 7]" "\<lambda>_. ?k" 7 "(\<lambda>_. 0)(7 := 0)"] by (simp add: fun_upd_twist)
  have s5: "?st ([?k \<mapsto> 7], (\<lambda>_. 0)(7 := 0), P(0 := IncAdd 7, 1 := IncAdd 7)) ([?k \<mapsto> 7], (\<lambda>_. 0)(7 := 1), P(0 := IncDone, 1 := IncAdd 7))"
    using add [of "P(0 := IncAdd 7, 1 := IncAdd 7)" 0 7 "\<lambda>_. ?k" "[?k \<mapsto> 7]" "(\<lambda>_. 0)(7 := 0)"] by (simp add: fun_upd_twist)
  have s6: "?st ([?k \<mapsto> 7], (\<lambda>_. 0)(7 := 1), P(0 := IncDone, 1 := IncAdd 7)) ([?k \<mapsto> 7], (\<lambda>_. 0)(7 := 2), P(0 := IncDone, 1 := IncDone))"
    using add [of "P(0 := IncDone, 1 := IncAdd 7)" 1 7 "\<lambda>_. ?k" "[?k \<mapsto> 7]" "(\<lambda>_. 0)(7 := 1)"] by (simp add: fun_upd_twist)
  have run: "?st\<^sup>*\<^sup>* (Map.empty, \<lambda>_. 0, P) ([?k \<mapsto> 7], (\<lambda>_. 0)(7 := 2), P(0 := IncDone, 1 := IncDone))"
    by (rule converse_rtranclp_into_rtranclp, rule s1, rule converse_rtranclp_into_rtranclp, rule s2, rule converse_rtranclp_into_rtranclp, rule s3,
        rule converse_rtranclp_into_rtranclp, rule s4, rule converse_rtranclp_into_rtranclp, rule s5, rule r_into_rtranclp, rule s6)
  have "incs_done (\<lambda>_. ?k) ((\<lambda>_. IncLookup)(0 := IncDone, 1 := IncDone)) ?k = {0, 1}" by (auto simp: incs_done_def)
  with increments_not_lost [OF run [unfolded P_def], of ?k] show ?thesis by simp
qed

end
