(* ===== verification/Api.thy ===== *)
theory Api
  imports Wire Event_Bus
begin

text \<open>
  \<^verbatim>\<open>internal/api/service.go\<close> and \<^verbatim>\<open>pkg/trace/trace.go\<close>: the HTTP handlers as functions from a
  request to a response, the metrics and the calls they make. JSON decoding, the parsing of
  the upstream URL, the upstream itself, the clock and the latency are arguments. Log records
  and the listening server are left out; \<^verbatim>\<open>http.ServeMux\<close> routes an exact path to its handler.
\<close>

section \<open>Trace ids\<close>

text \<open>The context carries at most one trace id; an empty id is not stored.\<close>

definition WithTraceID :: "string option \<Rightarrow> string \<Rightarrow> string option" where
  "WithTraceID ctx i = (if i = [] then ctx else Some i)"

definition trace_FromContext :: "string option \<Rightarrow> string \<times> bool" where
  "trace_FromContext ctx = (case ctx of Some s \<Rightarrow> if s \<noteq> [] then (s, True) else ([], False) | None \<Rightarrow> ([], False))"

section \<open>Requests and effects\<close>

text \<open>
  The body of a request: absent, or its bytes; reading may also fail by itself.
\<close>

record request =
  rq_Method :: string
  rq_Path :: string
  rq_Trace :: string
  rq_Body :: "bytes option"
  rq_readable :: bool

record response =
  rs_code :: nat
  rs_body :: string

datatype api_effect =
    OnPublish "string option" bytes
  | OnPublishTx "string option" payload
  | ApiBroadcastTx payload

record api_service =
  as_srv :: bool
  as_onPublish :: bool
  as_upstream :: string
  as_txb :: bool
  as_onPublishTx :: bool

definition api_New :: "string \<Rightarrow> api_service" where
  "api_New upstream = \<lparr>as_srv = False, as_onPublish = True, as_upstream = upstream, as_txb = False, as_onPublishTx = False\<rparr>"

definition SetTxBroadcaster :: "api_service \<Rightarrow> api_service" where
  "SetTxBroadcaster s = s\<lparr>as_txb := True\<rparr>"

definition SetTxPublisher :: "api_service \<Rightarrow> api_service" where
  "SetTxPublisher s = s\<lparr>as_onPublishTx := True\<rparr>"

text \<open>
  Starting creates the server and never fails; the error of stopping is that of the server's
  shutdown, \<open>err\<close>. The server stays set.
\<close>

definition service_op :: "string \<Rightarrow> nat \<Rightarrow> metric" where
  "service_op op ms = ObserveSummary ''service_op_ms'' [(''service'', ''api''), (''op'', op)] ms"

definition api_Start :: "nat \<Rightarrow> api_service \<Rightarrow> api_service \<times> metric list" where
  "api_Start ms s = (s\<lparr>as_srv := True\<rparr>, [service_op ''start'' ms])"

definition api_Stop :: "bool \<Rightarrow> nat \<Rightarrow> api_service \<Rightarrow> bool \<times> metric list" where
  "api_Stop err ms s = (if \<not> as_srv s then (True, [service_op ''stop'' ms]) else (\<not> err, [service_op ''stop'' ms]))"

text \<open>The header, or the clock in nanoseconds.\<close>

definition traceID :: "nat \<Rightarrow> request \<Rightarrow> string" where
  "traceID now r = (if rq_Trace r \<noteq> [] then rq_Trace r else decimal now)"

definition api_metrics :: "string \<Rightarrow> nat \<Rightarrow> nat \<Rightarrow> metric list" where
  "api_metrics route code ms =
     [Inc ''api_requests_total'' [(''route'', route), (''code'', decimal code)], ObserveSummary ''api_latency_ms'' [(''route'', route)] ms]"

type_synonym reply = "response \<times> metric list \<times> api_effect list"

text \<open>The status text is only used for an empty message, which no handler passes.\<close>

definition logAPI :: "string \<Rightarrow> nat \<Rightarrow> nat \<Rightarrow> string \<Rightarrow> reply" where
  "logAPI route code ms err = (\<lparr>rs_code = code, rs_body = err @ [char_of (10 :: nat)]\<rparr>, api_metrics route code ms, [])"

definition accepted :: "string \<Rightarrow> nat \<Rightarrow> api_effect list \<Rightarrow> reply" where
  "accepted route ms eff = (\<lparr>rs_code = 202, rs_body = []\<rparr>, api_metrics route 202 ms, eff)"

text \<open>\<^verbatim>\<open>io.ReadAll\<close> behind \<^verbatim>\<open>http.MaxBytesReader\<close>.\<close>

definition max_body :: nat where
  "max_body = 2 ^ 20"

definition read_body :: "request \<Rightarrow> bytes \<Rightarrow> bytes option" where
  "read_body r b = (if rq_readable r \<and> length b \<le> max_body then Some b else None)"

section \<open>Duties\<close>

record dutyEnvelope =
  du_Type :: string
  du_Height :: u64
  du_Round :: u64

definition validateDutyJSON :: "(bytes \<Rightarrow> dutyEnvelope option) \<Rightarrow> bytes \<Rightarrow> string + unit" where
  "validateDutyJSON unjson b =
     (if length b = 0 then Inl ''empty''
      else if length b > max_body then Inl ''too large''
      else case unjson b of None \<Rightarrow> Inl ''invalid json''
      | Some d \<Rightarrow>
          if du_Type d \<notin> {''attester'', ''proposer'', ''sync''} then Inl ''invalid type''
          else if du_Height d > 2 ^ 62 then Inl ''height out of range''
          else if du_Round d > 2 ^ 40 then Inl ''round out of range''
          else Inr ())"

definition handleDuty :: "(bytes \<Rightarrow> dutyEnvelope option) \<Rightarrow> nat \<Rightarrow> nat \<Rightarrow> api_service \<Rightarrow> request \<Rightarrow> reply" where
  "handleDuty unjson now ms s r =
     (let tid = traceID now r; route = ''/v1/duty'' in
      if rq_Method r \<noteq> ''POST'' then logAPI route 405 ms ''method not allowed''
      else case rq_Body r of None \<Rightarrow> logAPI route 400 ms ''empty body''
      | Some body \<Rightarrow>
     (case read_body r body of None \<Rightarrow> logAPI route 400 ms ''read error''
      | Some b \<Rightarrow>
     (case validateDutyJSON unjson b of Inl e \<Rightarrow> logAPI route 400 ms e
      | Inr _ \<Rightarrow> accepted route ms (if as_onPublish s then [OnPublish (WithTraceID None tid) b] else []))))"

section \<open>Transactions\<close>

text \<open>\<open>beast\<close> is whether \<^verbatim>\<open>AEQUA_ENABLE_BEAST\<close> is set.\<close>

definition handleTxPlain :: "(bytes \<Rightarrow> TxEnvelope option) \<Rightarrow> bool \<Rightarrow> nat \<Rightarrow> nat \<Rightarrow> api_service \<Rightarrow> request \<Rightarrow> reply" where
  "handleTxPlain unjson beast now ms s r =
     (let tid = traceID now r; route = ''/v1/tx/plain'' in
      if rq_Method r \<noteq> ''POST'' then logAPI route 405 ms ''method not allowed''
      else case rq_Body r of None \<Rightarrow> logAPI route 400 ms ''empty body''
      | Some body \<Rightarrow>
     (case read_body r body of None \<Rightarrow> logAPI route 400 ms ''read error''
      | Some b \<Rightarrow>
     (case ParseTx unjson b of None \<Rightarrow> logAPI route 400 ms ''invalid json''
      | Some None \<Rightarrow> logAPI route 400 ms ''invalid tx''
      | Some (Some pl) \<Rightarrow>
          if Type_of pl = ''private_v1'' \<and> \<not> beast then logAPI route 503 ms ''beast disabled''
          else if \<not> Validate pl then logAPI route 400 ms ''invalid tx''
          else accepted route ms
                 ((if as_onPublishTx s then [OnPublishTx (WithTraceID None tid) pl] else [])
                  @ (if as_txb s then [ApiBroadcastTx pl] else [])))))"

section \<open>Other routes\<close>

definition handleHealth :: "nat \<Rightarrow> reply" where
  "handleHealth ms = (\<lparr>rs_code = 200, rs_body = ''ok''\<rparr>, api_metrics ''/health'' 200 ms, [])"

text \<open>
  \<open>url_ok\<close> is whether the upstream parses; \<open>up\<close> is the upstream's response, \<open>None\<close> when it
  cannot be reached. A missing upstream is not counted.
\<close>

definition api_proxy :: "(string \<Rightarrow> bool) \<Rightarrow> (request \<Rightarrow> response option) \<Rightarrow> nat \<Rightarrow> api_service \<Rightarrow> request \<Rightarrow> reply" where
  "api_proxy url_ok up ms s r =
     (if as_upstream s = [] then (\<lparr>rs_code = 404, rs_body = ''404 page not found'' @ [char_of (10 :: nat)]\<rparr>, [], [])
      else if \<not> url_ok (as_upstream s) then (\<lparr>rs_code = 502, rs_body = ''bad upstream'' @ [char_of (10 :: nat)]\<rparr>, [], [])
      else case up r of
        Some resp \<Rightarrow> (resp, api_metrics ''proxy'' (rs_code resp) ms, [])
      | None \<Rightarrow> (\<lparr>rs_code = 502, rs_body = ''upstream error'' @ [char_of (10 :: nat)]\<rparr>, api_metrics ''proxy'' 502 ms, []))"

record api_env =
  ae_unduty :: "bytes \<Rightarrow> dutyEnvelope option"
  ae_untx :: "bytes \<Rightarrow> TxEnvelope option"
  ae_txapi :: bool
  ae_beast :: bool
  ae_url_ok :: "string \<Rightarrow> bool"
  ae_up :: "request \<Rightarrow> response option"
  ae_now :: nat
  ae_ms :: nat

text \<open>The routes that \<^verbatim>\<open>Start\<close> registers; \<^verbatim>\<open>AEQUA_ENABLE_TX_API\<close> is read there.\<close>

definition serve :: "api_env \<Rightarrow> api_service \<Rightarrow> request \<Rightarrow> reply" where
  "serve e s r =
     (if rq_Path r = ''/health'' then handleHealth (ae_ms e)
      else if rq_Path r = ''/v1/duty'' then handleDuty (ae_unduty e) (ae_now e) (ae_ms e) s r
      else if rq_Path r = ''/v1/tx/plain'' \<and> ae_txapi e then handleTxPlain (ae_untx e) (ae_beast e) (ae_now e) (ae_ms e) s r
      else api_proxy (ae_url_ok e) (ae_up e) (ae_ms e) s r)"

section \<open>Admission\<close>

definition duty_ok :: "(bytes \<Rightarrow> dutyEnvelope option) \<Rightarrow> request \<Rightarrow> bytes \<Rightarrow> bool" where
  "duty_ok unjson r b \<longleftrightarrow> rq_Method r = ''POST'' \<and> rq_Body r = Some b \<and> rq_readable r \<and> b \<noteq> [] \<and> length b \<le> max_body
     \<and> (\<exists>d. unjson b = Some d \<and> du_Type d \<in> {''attester'', ''proposer'', ''sync''} \<and> du_Height d \<le> 2 ^ 62 \<and> du_Round d \<le> 2 ^ 40)"

definition tx_ok :: "(bytes \<Rightarrow> TxEnvelope option) \<Rightarrow> bool \<Rightarrow> request \<Rightarrow> payload \<Rightarrow> bool" where
  "tx_ok unjson beast r pl \<longleftrightarrow> rq_Method r = ''POST''
     \<and> (\<exists>b. rq_Body r = Some b \<and> rq_readable r \<and> length b \<le> max_body \<and> ParseTx unjson b = Some (Some pl))
     \<and> Validate pl \<and> (Type_of pl = ''private_v1'' \<longrightarrow> beast)"

lemma traceID_nonempty: "traceID now r \<noteq> []"
  by (simp add: traceID_def)

lemma validateDutyJSON_iff:
  "validateDutyJSON unjson b = Inr () \<longleftrightarrow> b \<noteq> [] \<and> length b \<le> max_body
     \<and> (\<exists>d. unjson b = Some d \<and> du_Type d \<in> {''attester'', ''proposer'', ''sync''} \<and> du_Height d \<le> 2 ^ 62 \<and> du_Round d \<le> 2 ^ 40)"
  by (auto simp: validateDutyJSON_def not_less split: option.splits if_splits)

lemma handleDuty_accept:
  "rs_code (fst (handleDuty unjson now ms s r)) = 202 \<longleftrightarrow> (\<exists>b. duty_ok unjson r b)"
  "duty_ok unjson r b \<Longrightarrow> snd (snd (handleDuty unjson now ms s r)) = (if as_onPublish s then [OnPublish (Some (traceID now r)) b] else [])"
  "rs_code (fst (handleDuty unjson now ms s r)) \<noteq> 202 \<Longrightarrow> snd (snd (handleDuty unjson now ms s r)) = []"
proof -
  have v: "duty_ok unjson r b \<longleftrightarrow> rq_Method r = ''POST'' \<and> rq_Body r = Some b \<and> read_body r b = Some b \<and> validateDutyJSON unjson b = Inr ()" for b
    by (auto simp: duty_ok_def validateDutyJSON_iff read_body_def)
  show "rs_code (fst (handleDuty unjson now ms s r)) = 202 \<longleftrightarrow> (\<exists>b. duty_ok unjson r b)"
    unfolding v by (auto simp: handleDuty_def logAPI_def accepted_def read_body_def Let_def split: option.splits sum.splits if_splits)
  show "duty_ok unjson r b \<Longrightarrow> snd (snd (handleDuty unjson now ms s r)) = (if as_onPublish s then [OnPublish (Some (traceID now r)) b] else [])"
    unfolding v by (simp add: handleDuty_def accepted_def Let_def WithTraceID_def traceID_nonempty)
  show "rs_code (fst (handleDuty unjson now ms s r)) \<noteq> 202 \<Longrightarrow> snd (snd (handleDuty unjson now ms s r)) = []"
    by (auto simp: handleDuty_def logAPI_def accepted_def Let_def split: option.splits sum.splits if_splits)
qed

lemma handleTxPlain_accept:
  "rs_code (fst (handleTxPlain unjson beast now ms s r)) = 202 \<longleftrightarrow> (\<exists>pl. tx_ok unjson beast r pl)"
  "tx_ok unjson beast r pl \<Longrightarrow> snd (snd (handleTxPlain unjson beast now ms s r)) =
     (if as_onPublishTx s then [OnPublishTx (Some (traceID now r)) pl] else []) @ (if as_txb s then [ApiBroadcastTx pl] else [])"
  "rs_code (fst (handleTxPlain unjson beast now ms s r)) \<noteq> 202 \<Longrightarrow> snd (snd (handleTxPlain unjson beast now ms s r)) = []"
proof -
  show "rs_code (fst (handleTxPlain unjson beast now ms s r)) = 202 \<longleftrightarrow> (\<exists>pl. tx_ok unjson beast r pl)"
    by (auto simp: handleTxPlain_def logAPI_def accepted_def read_body_def tx_ok_def Let_def split: option.splits if_splits)
  show "tx_ok unjson beast r pl \<Longrightarrow> snd (snd (handleTxPlain unjson beast now ms s r)) =
     (if as_onPublishTx s then [OnPublishTx (Some (traceID now r)) pl] else []) @ (if as_txb s then [ApiBroadcastTx pl] else [])"
    by (auto simp: tx_ok_def handleTxPlain_def accepted_def read_body_def Let_def WithTraceID_def traceID_nonempty)
  show "rs_code (fst (handleTxPlain unjson beast now ms s r)) \<noteq> 202 \<Longrightarrow> snd (snd (handleTxPlain unjson beast now ms s r)) = []"
    by (auto simp: handleTxPlain_def logAPI_def accepted_def Let_def split: option.splits if_splits)
qed

lemma reply_metrics:
  "fst (snd (handleDuty unduty now ms s r)) = api_metrics ''/v1/duty'' (rs_code (fst (handleDuty unduty now ms s r))) ms"
  "fst (snd (handleTxPlain untx beast now ms s r)) = api_metrics ''/v1/tx/plain'' (rs_code (fst (handleTxPlain untx beast now ms s r))) ms"
  by (auto simp: handleDuty_def handleTxPlain_def logAPI_def accepted_def Let_def split: option.splits sum.splits)


definition demo_api :: api_env where
  "demo_api = \<lparr>ae_unduty = (\<lambda>_. Some \<lparr>du_Type = ''sync'', du_Height = 3, du_Round = 1\<rparr>), ae_untx = (\<lambda>_. None), ae_txapi = True,
     ae_beast = False, ae_url_ok = (\<lambda>_. True), ae_up = (\<lambda>_. None), ae_now = 5, ae_ms = 1\<rparr>"

definition demo_request :: request where
  "demo_request = \<lparr>rq_Method = ''POST'', rq_Path = ''/v1/duty'', rq_Trace = ''t'', rq_Body = Some [1, 2], rq_readable = True\<rparr>"


end
