(* ===== verification/Monitoring.thy ===== *)
theory Monitoring
  imports Metrics Api
begin

text \<open>
  \<^verbatim>\<open>internal/monitoring/service.go\<close>: the service that exposes the metric store, and what the
  store holds of the API's requests. The exposition takes the read lock of the counters and
  releases it without \<^verbatim>\<open>defer\<close>; the HTTP server recovers a panic of a handler, so a panicking
  exposition leaves its read lock behind. The locks of gauges and summaries are taken after
  the counters were written out.
\<close>

section \<open>The service\<close>

record mon_service =
  mo_srv :: bool

definition mon_New :: mon_service where
  "mon_New = \<lparr>mo_srv = False\<rparr>"

definition mon_op :: "string \<Rightarrow> nat \<Rightarrow> metric" where
  "mon_op op ms = ObserveSummary ''service_op_ms'' [(''service'', ''monitoring''), (''op'', op)] ms"

definition mon_Start :: "nat \<Rightarrow> mon_service \<Rightarrow> mon_service \<times> metric list" where
  "mon_Start ms s = (s\<lparr>mo_srv := True\<rparr>, [mon_op ''start'' ms])"

definition mon_Stop :: "bool \<Rightarrow> nat \<Rightarrow> mon_service \<Rightarrow> bool \<times> metric list" where
  "mon_Stop err ms s = (if \<not> mo_srv s then (True, [mon_op ''stop'' ms]) else (\<not> err, [mon_op ''stop'' ms]))"

text \<open>The orders are those in which the maps are ranged over; \<open>None\<close> is a panic.\<close>

definition handleMetrics :: "mkey list \<Rightarrow> mkey list \<Rightarrow> mkey list \<Rightarrow> nat \<Rightarrow> registry \<Rightarrow> (string \<times> metric list) option" where
  "handleMetrics cs gs ss ms r = map_option (\<lambda>body. (body, api_metrics ''/metrics'' 200 ms)) (DumpProm cs gs ss r)"

section \<open>Locks\<close>

text \<open>
  The counters' lock: read locks that nobody will release, and whether a writer waits. A
  waiting writer keeps new readers out. \<open>None\<close> is a call that does not return.
\<close>

record counter_lock =
  cl_readers :: nat
  cl_waiting :: bool

definition RLock :: "counter_lock \<Rightarrow> bool" where
  "RLock l \<longleftrightarrow> \<not> cl_waiting l"

definition Lock :: "counter_lock \<Rightarrow> bool" where
  "Lock l \<longleftrightarrow> \<not> cl_waiting l \<and> cl_readers l = 0"

definition locked_Inc :: "string \<Rightarrow> labels \<Rightarrow> registry \<times> counter_lock \<Rightarrow> unit option \<times> registry \<times> counter_lock" where
  "locked_Inc name ls x = (case x of (r, l) \<Rightarrow>
     if \<not> RLock l then (None, r, l)
     else if rg_counters r (name, labelsKey ls) \<noteq> None then (Some (), metrics_Inc name ls r, l)
     else if \<not> Lock l then (None, r, l\<lparr>cl_waiting := True\<rparr>)
     else (Some (), metrics_Inc name ls r, l))"

text \<open>A scrape that returns a body, panics (\<open>Some None\<close>), or does not return.\<close>

definition locked_scrape :: "mkey list \<Rightarrow> mkey list \<Rightarrow> mkey list \<Rightarrow> registry \<times> counter_lock \<Rightarrow> string option option \<times> registry \<times> counter_lock" where
  "locked_scrape cs gs ss x = (case x of (r, l) \<Rightarrow>
     if \<not> RLock l then (None, r, l)
     else case DumpProm cs gs ss r of
       Some body \<Rightarrow> (Some (Some body), r, l)
     | None \<Rightarrow> (Some None, r, if \<exists>k \<in> set cs. counter_line r k = None then l\<lparr>cl_readers := Suc (cl_readers l)\<rparr> else l))"

section \<open>Counters of the API\<close>

text \<open>The route under which a request is counted, if it is.\<close>

definition route_label :: "api_env \<Rightarrow> api_service \<Rightarrow> request \<Rightarrow> string option" where
  "route_label e s r =
     (if rq_Path r = ''/health'' then Some ''/health''
      else if rq_Path r = ''/v1/duty'' then Some ''/v1/duty''
      else if rq_Path r = ''/v1/tx/plain'' \<and> ae_txapi e then Some ''/v1/tx/plain''
      else if as_upstream s = [] \<or> \<not> ae_url_ok e (as_upstream s) then None
      else Some ''proxy'')"

lemma serve_metrics:
  "fst (snd (serve e s r)) = (case route_label e s r of None \<Rightarrow> [] | Some l \<Rightarrow> api_metrics l (rs_code (fst (serve e s r))) (ae_ms e))"
  by (auto simp: serve_def route_label_def reply_metrics handleHealth_def api_proxy_def split: option.splits)

definition served_metrics :: "api_service \<Rightarrow> (api_env \<times> request) list \<Rightarrow> metric list" where
  "served_metrics s reqs = concat (map (\<lambda>(e, r). fst (snd (serve e s r))) reqs)"

definition counted :: "string \<Rightarrow> nat \<Rightarrow> api_service \<Rightarrow> api_env \<times> request \<Rightarrow> bool" where
  "counted route code s x \<longleftrightarrow> (case x of (e, r) \<Rightarrow> route_label e s r = Some route \<and> rs_code (fst (serve e s r)) = code)"

lemma digit_not_comma: "n < 10 \<Longrightarrow> digit n \<noteq> CHR '',''"
proof
  assume n: "n < 10" and d: "digit n = CHR '',''"
  have "of_char (CHR '','') = (44 :: nat)" by simp
  with of_char_digit [OF n] d show False by simp
qed

lemma decimal_plain: "CHR '','' \<notin> set (decimal n)"
  by (induction n rule: decimal.induct) (subst decimal.simps, auto simp: digit_not_comma dest: sym)

definition plain_route :: "string \<Rightarrow> bool" where
  "plain_route route \<longleftrightarrow> CHR '','' \<notin> set route"

lemma request_labels_plain: "plain_route route \<Longrightarrow> plain_labels [(''route'', route), (''code'', decimal code)]"
  by (simp add: plain_labels_def plain_route_def decimal_plain)

lemma route_label_plain: "route_label e s r = Some l \<Longrightarrow> plain_route l"
proof -
  have "plain_route ''/health''" "plain_route ''/v1/duty''" "plain_route ''/v1/tx/plain''" "plain_route ''proxy''" by (simp_all add: plain_route_def)
  then show "route_label e s r = Some l \<Longrightarrow> plain_route l" by (auto simp: route_label_def split: if_splits)
qed

lemma same_request:
  "same_inc ''api_requests_total'' [(''route'', route), (''code'', decimal code)] (Inc ''api_requests_total'' [(''route'', l), (''code'', decimal c)])
     \<longleftrightarrow> l = route \<and> c = code"
proof -
  have "l = route \<and> decimal c = decimal code" if "map_of [(''route'', l), (''code'', decimal c)] = map_of [(''route'', route), (''code'', decimal code)]"
    using fun_cong [OF that, of "''route''"] fun_cong [OF that, of "''code''"] by simp
  then show ?thesis by (auto simp: same_inc_def decimal_inj)
qed

lemma served_metrics_plain: "m \<in> set (served_metrics s reqs) \<Longrightarrow> plain_labels (labels_of m)"
  by (auto simp: served_metrics_def serve_metrics api_metrics_def request_labels_plain plain_labels_def route_label_plain [unfolded plain_route_def]
      decimal_plain split: option.splits)

lemma served_counts:
  "length (filter (same_inc ''api_requests_total'' [(''route'', route), (''code'', decimal code)]) (served_metrics s reqs))
     = length (filter (counted route code s) reqs)"
proof (induction reqs)
  case (Cons x reqs)
  obtain e r where x: "x = (e, r)" by (cases x)
  have "length (filter (same_inc ''api_requests_total'' [(''route'', route), (''code'', decimal code)]) (fst (snd (serve e s r))))
      = (if counted route code s x then 1 else 0)"
  proof (cases "route_label e s r")
    case None
    then show ?thesis by (simp add: serve_metrics counted_def x)
  next
    case (Some l)
    have "\<not> same_inc n ls (ObserveSummary a b c)" for n ls a b c by (simp add: same_inc_def)
    then show ?thesis using Some same_request [of route code l "rs_code (fst (serve e s r))"]
      by (simp add: serve_metrics counted_def x api_metrics_def)
  qed
  then show ?case using Cons.IH by (simp add: served_metrics_def x)
qed (simp add: served_metrics_def)

text \<open>
  C28: The counters of the API are exact. After any sequence of requests the counter of a route and
  a status code holds, modulo \<open>2 ^ 64\<close>, the number of requests of that route that were answered
  with that code, and the exposition does not panic.
\<close>

theorem api_counters_exact:
  assumes "reg = apply_metrics conv (served_metrics s reqs) metrics_Reset" and "plain_route route" and "dump_orders reg cs gs ss"
  shows "getz 0 (rg_counters reg) (''api_requests_total'', labelsKey [(''route'', route), (''code'', decimal code)])
      = of_nat (length (filter (counted route code s) reqs))
    \<and> (\<exists>body. handleMetrics cs gs ss ms reg = Some (body, api_metrics ''/metrics'' 200 ms))"
proof
  have plain: "\<forall>m \<in> set (served_metrics s reqs). plain_labels (labels_of m)" by (blast intro: served_metrics_plain)
  show "getz 0 (rg_counters reg) (''api_requests_total'', labelsKey [(''route'', route), (''code'', decimal code)])
      = of_nat (length (filter (counted route code s) reqs))"
    unfolding assms(1) counter_run [OF plain request_labels_plain [OF assms(2)]] served_counts by (simp add: metrics_Reset_def)
  have "plain_keys reg" unfolding assms(1) by (rule plain_run [OF _ plain]) (simp add: plain_keys_def metrics_Reset_def)
  then show "\<exists>body. handleMetrics cs gs ss ms reg = Some (body, api_metrics ''/metrics'' 200 ms)"
    using plain_dump [OF _ assms(3)] by (auto simp: handleMetrics_def)
qed

text \<open>
  One panicking scrape stops the node's counters. When a label value with a comma makes the
  exposition of a counter panic, the read lock stays taken: the next increment of a counter
  that does not exist yet never returns, and after it no increment and no scrape does.
\<close>

theorem panic_freezes_counters:
  assumes "counter_line r k = None" and "k \<in> set cs" and "\<not> cl_waiting l" and "rg_counters r (name, labelsKey ls) = None"
  shows "\<exists>l' l''. locked_scrape cs gs ss (r, l) = (Some None, r, l') \<and> locked_Inc name ls (r, l') = (None, r, l'')
    \<and> (\<forall>r' n' ls'. fst (locked_Inc n' ls' (r', l'')) = None \<and> snd (locked_Inc n' ls' (r', l'')) = (r', l''))
    \<and> (\<forall>r' cs' gs' ss'. fst (locked_scrape cs' gs' ss' (r', l'')) = None)"
proof -
  have "DumpProm cs gs ss r = None"
    using assms(1,2) those_Some_iff [of "map (counter_line r) (slice_stable key_less cs) @ map (gauge_line r) (slice_stable key_less gs)
        @ map (summary_lines r) (slice_stable key_less ss)"] by (force simp: DumpProm_def)
  then show ?thesis using assms by (auto simp: locked_scrape_def locked_Inc_def RLock_def Lock_def)
qed

theorem api_counters_exact_witness:
  "getz 0 (rg_counters (apply_metrics (\<lambda>_. 0) (served_metrics (api_New '''') [(demo_api, demo_request\<lparr>rq_Path := ''/health''\<rparr>)]) metrics_Reset))
     (''api_requests_total'', labelsKey [(''route'', ''/health''), (''code'', decimal 200)]) = 1"
proof -
  let ?reqs = "[(demo_api, demo_request\<lparr>rq_Path := ''/health''\<rparr>)]"
  let ?reg = "apply_metrics (\<lambda>_. 0) (served_metrics (api_New '''') ?reqs) metrics_Reset"
  have ms: "served_metrics (api_New '''') ?reqs = api_metrics ''/health'' 200 1"
    by (simp add: served_metrics_def serve_def handleHealth_def demo_api_def)
  have "dump_orders ?reg [(''api_requests_total'', labelsKey [(''route'', ''/health''), (''code'', decimal 200)])] []
      [(''api_latency_ms'', labelsKey [(''route'', ''/health'')])]"
    by (simp add: ms api_metrics_def dump_orders_def range_order_def metrics_Inc_def metrics_ObserveSummary_def metrics_Reset_def Let_def)
  moreover have "plain_route ''/health''" by (simp add: plain_route_def)
  moreover have "length (filter (counted ''/health'' 200 (api_New '''')) ?reqs) = 1"
    by (simp add: counted_def route_label_def serve_def handleHealth_def)
  ultimately show ?thesis using api_counters_exact [OF refl] by fastforce
qed

theorem panic_freezes_counters_witness:
  "\<exists>l''. locked_Inc ''new'' [] (metrics_Inc ''n'' [(''type'', ''a,b'')] metrics_Reset,
       snd (snd (locked_scrape [(''n'', ''type=a,b'')] [] [] (metrics_Inc ''n'' [(''type'', ''a,b'')] metrics_Reset, \<lparr>cl_readers = 0, cl_waiting = False\<rparr>))))
     = (None, metrics_Inc ''n'' [(''type'', ''a,b'')] metrics_Reset, l'')"
proof -
  let ?r = "metrics_Inc ''n'' [(''type'', ''a,b'')] metrics_Reset"
  have "counter_line ?r (''n'', ''type=a,b'') = None" by code_simp
  moreover have "rg_counters ?r (''new'', labelsKey []) = None" by (simp add: metrics_Inc_def metrics_Reset_def Let_def)
  ultimately show ?thesis
    using panic_freezes_counters [of ?r "(''n'', ''type=a,b'')" "[(''n'', ''type=a,b'')]" "\<lparr>cl_readers = 0, cl_waiting = False\<rparr>" "''new''" "[]" "[]" "[]"]
    by auto
qed

end
