(* ===== verification/Transport.thy ===== *)
theory Transport
  imports Wire
begin

text \<open>
  \<^verbatim>\<open>internal/p2p/factory_p2p.go\<close>, \<^verbatim>\<open>transport.go\<close>, \<^verbatim>\<open>transport_service.go\<close> and \<^verbatim>\<open>factory_stub.go\<close>:
  the gossip transport. libp2p and its pubsub are arguments: whether a call succeeds, what a
  topic delivers. A topic or subscription handle is the topic's name, present when it is not
  nil; the hosts that were created and not closed are kept beside the fields. A receive loop
  is the function applied to every message of its subscription. The connections to the
  bootnodes are best effort and have no result.
\<close>

section \<open>Configuration and state\<close>

record NetConfig =
  nc_Enable :: bool
  nc_Listen :: "string list"
  nc_Bootnodes :: "string list"
  nc_NAT :: bool
  nc_EnableBeast :: bool
  nc_EnableTSSDKG :: bool

definition TopicQBFT :: string where "TopicQBFT = ''aequa/qbft/v1''"
definition TopicTx :: string where "TopicTx = ''aequa/tx/v1''"
definition TopicTxPrivate :: string where "TopicTxPrivate = ''aequa/tx/private/v1''"
definition TopicBeastShare :: string where "TopicBeastShare = ''aequa/beast/share/v1''"
definition TopicTSSDKG :: string where "TopicTSSDKG = ''aequa/tss/dkg/v1''"

lemmas topics = TopicQBFT_def TopicTx_def TopicTxPrivate_def TopicBeastShare_def TopicTSSDKG_def

record libp2p =
  lp_addr :: "string \<Rightarrow> bool"
  lp_host :: "string list \<Rightarrow> bool \<Rightarrow> bool"
  lp_gossip :: bool
  lp_join :: "string \<Rightarrow> bool"
  lp_subscribe :: "string \<Rightarrow> bool"
  lp_publish :: "string \<Rightarrow> bytes \<Rightarrow> bool"
  lp_close :: bool

record Libp2pTransport =
  lt_cfg :: NetConfig
  lt_host :: "nat option"
  lt_topics :: "string set"
  lt_subs :: "string set"
  lt_loops :: "string set"
  lt_onQBFT :: bool
  lt_onTx :: bool
  lt_onShare :: bool
  lt_onDKG :: bool
  lt_open :: "nat set"
  lt_next :: nat
  lt_dialed :: "string list"

definition p2p_BuildTransport :: "NetConfig \<Rightarrow> Libp2pTransport" where
  "p2p_BuildTransport cfg = \<lparr>lt_cfg = cfg, lt_host = None, lt_topics = {}, lt_subs = {}, lt_loops = {}, lt_onQBFT = False,
     lt_onTx = False, lt_onShare = False, lt_onDKG = False, lt_open = {}, lt_next = 0, lt_dialed = []\<rparr>"

section \<open>Start and stop\<close>

text \<open>\<^verbatim>\<open>strings.TrimSpace\<close> on the addresses, of which only emptiness matters.\<close>

definition blank :: "string \<Rightarrow> bool" where
  "blank s = list_all (\<lambda>c. c \<in> set '' '' \<or> c \<in> {char_of (9 :: nat), char_of (10 :: nat), char_of (11 :: nat), char_of (12 :: nat), char_of (13 :: nat)}) s"

text \<open>\<open>None\<close> is an address that does not parse.\<close>

fun listen_addrs :: "libp2p \<Rightarrow> string list \<Rightarrow> string list option" where
  "listen_addrs L [] = Some []"
| "listen_addrs L (s # ss) =
     (if blank s then listen_addrs L ss
      else if \<not> lp_addr L s then None
      else map_option ((#) s) (listen_addrs L ss))"

datatype transport_error = ErrAddr | ErrHost | ErrGossip | ErrJoin string | ErrSubscribe string | ErrNotStarted | ErrEncode | ErrPublish | ErrClose

text \<open>A failed call leaves the handle nil.\<close>

definition join_topic :: "libp2p \<Rightarrow> string \<Rightarrow> Libp2pTransport \<Rightarrow> bool \<times> Libp2pTransport" where
  "join_topic L topic t = (if lp_join L topic then (True, t\<lparr>lt_topics := insert topic (lt_topics t)\<rparr>)
     else (False, t\<lparr>lt_topics := lt_topics t - {topic}\<rparr>))"

definition subscribe_topic :: "libp2p \<Rightarrow> string \<Rightarrow> Libp2pTransport \<Rightarrow> bool \<times> Libp2pTransport" where
  "subscribe_topic L topic t = (if lp_subscribe L topic then (True, t\<lparr>lt_subs := insert topic (lt_subs t)\<rparr>)
     else (False, t\<lparr>lt_subs := lt_subs t - {topic}\<rparr>))"

definition join_optional :: "libp2p \<Rightarrow> string \<Rightarrow> Libp2pTransport \<Rightarrow> Libp2pTransport" where
  "join_optional L topic t = (case join_topic L topic t of (False, t) \<Rightarrow> t | (True, t) \<Rightarrow> snd (subscribe_topic L topic t))"

text \<open>The part after the mandatory topics: it cannot fail.\<close>

definition start_optional :: "libp2p \<Rightarrow> Libp2pTransport \<Rightarrow> Libp2pTransport" where
  "start_optional L t =
     (let cfg = lt_cfg t;
          t = (if nc_EnableBeast cfg then join_optional L TopicBeastShare (join_optional L TopicTxPrivate t) else t);
          t = (if nc_EnableTSSDKG cfg then join_optional L TopicTSSDKG t else t);
          t = t\<lparr>lt_dialed := lt_dialed t @ filter (\<lambda>b. \<not> blank b) (nc_Bootnodes cfg)\<rparr>
      in t\<lparr>lt_loops := {TopicQBFT, TopicTx}
            \<union> (if nc_EnableBeast cfg then {TopicTxPrivate, TopicBeastShare} \<inter> lt_subs t else {})
            \<union> (if nc_EnableTSSDKG cfg then {TopicTSSDKG} \<inter> lt_subs t else {})\<rparr>)"

definition p2p_start_topics :: "libp2p \<Rightarrow> Libp2pTransport \<Rightarrow> transport_error option \<times> Libp2pTransport" where
  "p2p_start_topics L t =
     (case join_topic L TopicQBFT t of (False, t) \<Rightarrow> (Some (ErrJoin TopicQBFT), t)
      | (True, t) \<Rightarrow>
     (case join_topic L TopicTx t of (False, t) \<Rightarrow> (Some (ErrJoin TopicTx), t)
      | (True, t) \<Rightarrow>
     (case subscribe_topic L TopicQBFT t of (False, t) \<Rightarrow> (Some (ErrSubscribe TopicQBFT), t)
      | (True, t) \<Rightarrow>
     (case subscribe_topic L TopicTx t of (False, t) \<Rightarrow> (Some (ErrSubscribe TopicTx), t)
      | (True, t) \<Rightarrow> (None, start_optional L t)))))"

definition transport_Start :: "libp2p \<Rightarrow> Libp2pTransport \<Rightarrow> transport_error option \<times> Libp2pTransport" where
  "transport_Start L t =
     (if \<not> nc_Enable (lt_cfg t) then (None, t)
      else case listen_addrs L (nc_Listen (lt_cfg t)) of None \<Rightarrow> (Some ErrAddr, t)
      | Some addrs \<Rightarrow>
          if \<not> lp_host L addrs (nc_NAT (lt_cfg t)) then (Some ErrHost, t)
          else let h = lt_next t; t = t\<lparr>lt_host := Some h, lt_open := insert h (lt_open t), lt_next := Suc h\<rparr> in
            if \<not> lp_gossip L then (Some ErrGossip, t) else p2p_start_topics L t)"

text \<open>Cancelled subscriptions end their loops; the handles stay set.\<close>

definition transport_Stop :: "libp2p \<Rightarrow> Libp2pTransport \<Rightarrow> transport_error option \<times> Libp2pTransport" where
  "transport_Stop L t =
     (let t = t\<lparr>lt_loops := {}\<rparr> in
      case lt_host t of None \<Rightarrow> (None, t)
      | Some h \<Rightarrow> (if lp_close L then None else Some ErrClose, t\<lparr>lt_open := lt_open t - {h}\<rparr>))"

section \<open>Broadcasts\<close>

definition p2p_metric :: "string \<Rightarrow> string \<Rightarrow> string \<Rightarrow> metric" where
  "p2p_metric topic dir result = Inc ''p2p_msgs_total'' [(''topic'', topic), (''direction'', dir), (''result'', result)]"

definition p2p_bytes :: "string \<Rightarrow> string \<Rightarrow> metric" where
  "p2p_bytes topic dir = Inc ''p2p_bytes_total'' [(''topic'', topic), (''direction'', dir)]"

text \<open>The outcome of a broadcast: an error or what was published, if anything.\<close>

type_synonym sent = "(transport_error + (string \<times> bytes) option) \<times> metric list"

definition publish_on :: "libp2p \<Rightarrow> string \<Rightarrow> bytes \<Rightarrow> sent" where
  "publish_on L topic b =
     (if lp_publish L topic b then (Inr (Some (topic, b)), [p2p_metric topic ''tx'' ''ok'', p2p_bytes topic ''tx''])
      else (Inl ErrPublish, [p2p_metric topic ''tx'' ''error'']))"

definition encode_on :: "libp2p \<Rightarrow> string \<Rightarrow> ('a \<Rightarrow> bytes option) \<Rightarrow> 'a \<Rightarrow> sent" where
  "encode_on L topic json x = (case json x of None \<Rightarrow> (Inl ErrEncode, []) | Some b \<Rightarrow> publish_on L topic b)"

definition BroadcastQBFT :: "libp2p \<Rightarrow> (QBFT \<Rightarrow> bytes option) \<Rightarrow> Message \<Rightarrow> Libp2pTransport \<Rightarrow> sent" where
  "BroadcastQBFT L json msg t =
     (if TopicQBFT \<notin> lt_topics t then (Inl ErrNotStarted, []) else encode_on L TopicQBFT json (FromInternal msg))"

definition BroadcastTx :: "libp2p \<Rightarrow> (TxEnvelope \<Rightarrow> bytes option) \<Rightarrow> payload \<Rightarrow> Libp2pTransport \<Rightarrow> sent" where
  "BroadcastTx L json pl t =
     (if TopicTx \<notin> lt_topics t then (Inl ErrNotStarted, [])
      else case TxFromInternal pl of None \<Rightarrow> (Inr None, [])
      | Some w \<Rightarrow>
          encode_on L (if Type_of pl = ''private_v1'' \<and> TopicTxPrivate \<in> lt_topics t then TopicTxPrivate else TopicTx) json w)"

definition BroadcastBeastShare :: "libp2p \<Rightarrow> (BeastShare \<Rightarrow> bytes option) \<Rightarrow> BeastShare \<Rightarrow> Libp2pTransport \<Rightarrow> sent" where
  "BroadcastBeastShare L json msg t =
     (if TopicBeastShare \<notin> lt_topics t then (Inl ErrNotStarted, []) else encode_on L TopicBeastShare json msg)"

definition BroadcastTSSDKG :: "libp2p \<Rightarrow> (TSSDKG \<Rightarrow> bytes option) \<Rightarrow> TSSDKG \<Rightarrow> Libp2pTransport \<Rightarrow> sent" where
  "BroadcastTSSDKG L json msg t =
     (if TopicTSSDKG \<notin> lt_topics t then (Inl ErrNotStarted, []) else encode_on L TopicTSSDKG json msg)"

section \<open>Handlers and receive loops\<close>

definition OnQBFT :: "Libp2pTransport \<Rightarrow> Libp2pTransport" where "OnQBFT t = t\<lparr>lt_onQBFT := True\<rparr>"
definition OnTx :: "Libp2pTransport \<Rightarrow> Libp2pTransport" where "OnTx t = t\<lparr>lt_onTx := True\<rparr>"
definition OnBeastShare :: "Libp2pTransport \<Rightarrow> Libp2pTransport" where "OnBeastShare t = t\<lparr>lt_onShare := True\<rparr>"
definition OnTSSDKG :: "Libp2pTransport \<Rightarrow> Libp2pTransport" where "OnTSSDKG t = t\<lparr>lt_onDKG := True\<rparr>"

text \<open>One round of a loop: what is decoded, and the metrics.\<close>

definition recv :: "string \<Rightarrow> (bytes \<Rightarrow> 'a option) \<Rightarrow> bytes \<Rightarrow> 'a option \<times> metric list" where
  "recv topic unjson b =
     (case unjson b of None \<Rightarrow> (None, [p2p_metric topic ''rx'' ''decode_error''])
      | Some w \<Rightarrow> (Some w, [p2p_metric topic ''rx'' ''ok'', p2p_bytes topic ''rx'']))"

definition loopQBFT :: "(bytes \<Rightarrow> QBFT option) \<Rightarrow> bytes \<Rightarrow> Libp2pTransport \<Rightarrow> Message option \<times> metric list" where
  "loopQBFT unjson b t =
     (let (x, ms) = recv TopicQBFT unjson b in (if lt_onQBFT t then map_option qbft_ToInternal x else None, ms))"

definition loopTx :: "(bytes \<Rightarrow> TxEnvelope option) \<Rightarrow> bytes \<Rightarrow> Libp2pTransport \<Rightarrow> payload option \<times> metric list" where
  "loopTx unjson b t =
     (let (x, ms) = recv TopicTx unjson b in (if lt_onTx t then Option.bind x tx_ToInternal else None, ms))"

definition loopTxPriv :: "(bytes \<Rightarrow> TxEnvelope option) \<Rightarrow> bytes \<Rightarrow> Libp2pTransport \<Rightarrow> payload option \<times> metric list" where
  "loopTxPriv unjson b t =
     (let (x, ms) = recv TopicTxPrivate unjson b in (if lt_onTx t then Option.bind x tx_ToInternal else None, ms))"

definition loopBeastShare :: "(bytes \<Rightarrow> BeastShare option) \<Rightarrow> bytes \<Rightarrow> Libp2pTransport \<Rightarrow> BeastShare option \<times> metric list" where
  "loopBeastShare unjson b t = (let (x, ms) = recv TopicBeastShare unjson b in (if lt_onShare t then x else None, ms))"

definition loopTSSDKG :: "(bytes \<Rightarrow> TSSDKG option) \<Rightarrow> bytes \<Rightarrow> Libp2pTransport \<Rightarrow> TSSDKG option \<times> metric list" where
  "loopTSSDKG unjson b t = (let (x, ms) = recv TopicTSSDKG unjson b in (if lt_onDKG t then x else None, ms))"

section \<open>Builds without the transport\<close>

text \<open>
  The transports behind the interface. The stub build has the no-op one only, and its
  \<^verbatim>\<open>StartTransportIfEnabled\<close> returns it whatever the configuration says.
\<close>

datatype transport = NoopTransport | Libp2p Libp2pTransport

definition stub_BuildTransport :: "NetConfig \<Rightarrow> transport" where
  "stub_BuildTransport cfg = NoopTransport"

definition StartTransportIfEnabled :: "NetConfig \<Rightarrow> transport" where
  "StartTransportIfEnabled cfg = (if \<not> nc_Enable cfg then NoopTransport else stub_BuildTransport cfg)"

fun net_Start :: "libp2p \<Rightarrow> transport \<Rightarrow> transport_error option \<times> transport" where
  "net_Start L NoopTransport = (None, NoopTransport)"
| "net_Start L (Libp2p t) = (let (e, t') = transport_Start L t in (e, Libp2p t'))"

fun net_Stop :: "libp2p \<Rightarrow> transport \<Rightarrow> transport_error option \<times> transport" where
  "net_Stop L NoopTransport = (None, NoopTransport)"
| "net_Stop L (Libp2p t) = (let (e, t') = transport_Stop L t in (e, Libp2p t'))"

fun net_BroadcastQBFT :: "libp2p \<Rightarrow> (QBFT \<Rightarrow> bytes option) \<Rightarrow> Message \<Rightarrow> transport \<Rightarrow> sent" where
  "net_BroadcastQBFT L json msg NoopTransport = (Inr None, [])"
| "net_BroadcastQBFT L json msg (Libp2p t) = BroadcastQBFT L json msg t"

fun net_BroadcastTx :: "libp2p \<Rightarrow> (TxEnvelope \<Rightarrow> bytes option) \<Rightarrow> payload \<Rightarrow> transport \<Rightarrow> sent" where
  "net_BroadcastTx L json pl NoopTransport = (Inr None, [])"
| "net_BroadcastTx L json pl (Libp2p t) = BroadcastTx L json pl t"

section \<open>Starting\<close>

definition can_start :: "libp2p \<Rightarrow> NetConfig \<Rightarrow> bool" where
  "can_start L cfg \<longleftrightarrow> list_all (\<lambda>s. blank s \<or> lp_addr L s) (nc_Listen cfg)
     \<and> lp_host L (filter (\<lambda>s. \<not> blank s) (nc_Listen cfg)) (nc_NAT cfg) \<and> lp_gossip L
     \<and> list_all (\<lambda>topic. lp_join L topic \<and> lp_subscribe L topic) [TopicQBFT, TopicTx]"

lemma listen_addrs_iff:
  "listen_addrs L ss = (if list_all (\<lambda>s. blank s \<or> lp_addr L s) ss then Some (filter (\<lambda>s. \<not> blank s) ss) else None)"
  by (induction ss) auto

lemma optional_fields [simp]:
  "lt_open (start_optional L t) = lt_open t" "lt_host (start_optional L t) = lt_host t" "lt_next (start_optional L t) = lt_next t"
  "lt_cfg (start_optional L t) = lt_cfg t"
  "lt_onQBFT (start_optional L t) = lt_onQBFT t" "lt_onTx (start_optional L t) = lt_onTx t"
  by (simp_all add: start_optional_def join_optional_def join_topic_def subscribe_topic_def Let_def)

lemma optional_loops: "{TopicQBFT, TopicTx} \<subseteq> lt_loops (start_optional L t)"
  by (simp add: start_optional_def Let_def)

lemma optional_topics: "topic \<in> lt_topics t \<Longrightarrow> topic \<in> {TopicQBFT, TopicTx} \<Longrightarrow> topic \<in> lt_topics (start_optional L t)"
  by (auto simp: start_optional_def join_optional_def join_topic_def subscribe_topic_def Let_def topics)

lemma start_topics_fields:
  assumes "p2p_start_topics L t = (e, t')"
  shows "lt_open t' = lt_open t" "lt_host t' = lt_host t" "lt_next t' = lt_next t" "lt_cfg t' = lt_cfg t"
    "e = None \<longleftrightarrow> list_all (\<lambda>topic. lp_join L topic \<and> lp_subscribe L topic) [TopicQBFT, TopicTx]"
    "e = None \<Longrightarrow> {TopicQBFT, TopicTx} \<subseteq> lt_loops t' \<and> {TopicQBFT, TopicTx} \<subseteq> lt_topics t'"
    "e \<noteq> Some ErrAddr" "e \<noteq> Some ErrHost" "e \<noteq> None \<Longrightarrow> lt_loops t' = lt_loops t"
  using assms optional_loops optional_topics
  by (auto simp: p2p_start_topics_def join_topic_def subscribe_topic_def split: if_splits)

text \<open>A second start takes a new host and leaves the first one open.\<close>

lemma restart_keeps_host:
  assumes "nc_Enable (lt_cfg t)" and "can_start L (lt_cfg t)" and t': "lt_cfg t' = lt_cfg t" "lt_next t' = Suc (lt_next t)" "lt_next t \<in> lt_open t'"
  shows "\<exists>t'' t3. transport_Start L t' = (None, t'') \<and> transport_Stop L t'' = (if lp_close L then None else Some ErrClose, t3) \<and> lt_next t \<in> lt_open t3"
proof -
  let ?h = "t'\<lparr>lt_host := Some (lt_next t'), lt_open := insert (lt_next t') (lt_open t'), lt_next := Suc (lt_next t')\<rparr>"
  obtain e2 t2 where run: "p2p_start_topics L ?h = (e2, t2)" by fastforce
  note f = start_topics_fields [OF run]
  have "e2 = None" using f(5) assms(2) t' by (simp add: can_start_def)
  moreover have "transport_Start L t' = (e2, t2)"
    using assms(1,2) t' run by (simp add: transport_Start_def can_start_def listen_addrs_iff Let_def)
  moreover have "lt_next t \<in> lt_open t2 - {lt_next t'}" using f(1) t' by simp
  moreover have "lt_host t2 = Some (lt_next t')" using f(2) by simp
  ultimately show ?thesis by (simp add: transport_Stop_def Let_def)
qed

text \<open>
  Starting the transport. It succeeds exactly when the addresses, the host, the pubsub and the
  two mandatory topics succeed; then both loops run and both topics can be published to. But a
  start that fails after the host was created leaves the host open, and a transport that is
  started a second time, as the wrapper added to the lifecycle does, loses the first host: the
  stop closes only the last one.
\<close>

theorem transport_start_outcome:
  assumes "nc_Enable (lt_cfg t)" and "transport_Start L t = (e, t')"
  shows "(e = None \<longleftrightarrow> can_start L (lt_cfg t))
    \<and> (e = None \<longrightarrow> {TopicQBFT, TopicTx} \<subseteq> lt_loops t' \<and> {TopicQBFT, TopicTx} \<subseteq> lt_topics t')
    \<and> (e \<notin> {Some ErrAddr, Some ErrHost} \<longrightarrow> lt_next t \<in> lt_open t')
    \<and> (e = None \<longrightarrow> (\<exists>t'' t3. transport_Start L t' = (None, t'') \<and> transport_Stop L t'' = (if lp_close L then None else Some ErrClose, t3)
         \<and> lt_next t \<in> lt_open t3))"
proof -
  let ?cfg = "lt_cfg t"
  define h where "h = t\<lparr>lt_host := Some (lt_next t), lt_open := insert (lt_next t) (lt_open t), lt_next := Suc (lt_next t)\<rparr>"
  show ?thesis
  proof (cases "list_all (\<lambda>s. blank s \<or> lp_addr L s) (nc_Listen ?cfg) \<and> lp_host L (filter (\<lambda>s. \<not> blank s) (nc_Listen ?cfg)) (nc_NAT ?cfg)")
    case False
    then show ?thesis using assms by (auto simp: transport_Start_def listen_addrs_iff can_start_def split: if_splits)
  next
    case True
    show ?thesis
    proof (cases "lp_gossip L")
      case False
      then show ?thesis using assms True by (auto simp: transport_Start_def listen_addrs_iff can_start_def Let_def)
    next
      case gossip: True
      then have run: "p2p_start_topics L h = (e, t')"
        using assms True by (simp add: transport_Start_def listen_addrs_iff Let_def h_def)
      note f = start_topics_fields [OF run]
      have open_: "lt_next t \<in> lt_open t'" using f(1) by (simp add: h_def)
      have ok: "e = None \<longleftrightarrow> can_start L ?cfg" using f(5) True gossip by (simp add: can_start_def)
      then have "e = None \<longrightarrow> (\<exists>t'' t3. transport_Start L t' = (None, t'')
          \<and> transport_Stop L t'' = (if lp_close L then None else Some ErrClose, t3) \<and> lt_next t \<in> lt_open t3)"
        using restart_keeps_host [OF assms(1), of L t'] f(3,4) open_ by (simp add: h_def)
      then show ?thesis using open_ ok f(6) by blast
    qed
  qed
qed

section \<open>Gossip\<close>

text \<open>What the node relies on of \<^verbatim>\<open>encoding/json\<close>: decoding gives back what was encoded.\<close>

definition json_codec :: "('a \<Rightarrow> bytes option) \<Rightarrow> (bytes \<Rightarrow> 'a option) \<Rightarrow> bool" where
  "json_codec json unjson \<longleftrightarrow> (\<forall>w b. json w = Some b \<longrightarrow> unjson b = Some w)"

lemma encode_on_sent:
  "fst (encode_on L topic json x) = Inr (Some (topic', b)) \<Longrightarrow> topic' = topic \<and> json x = Some b"
  by (auto simp: encode_on_def publish_on_def split: option.splits if_splits)

lemma broadcast_tx_decodes:
  assumes "json_codec jt ut" and "lt_onTx u" and "fst (BroadcastTx L jt pl t) = Inr (Some (topic, b))"
  shows "topic = (if Type_of pl = ''private_v1'' \<and> TopicTxPrivate \<in> lt_topics t then TopicTxPrivate else TopicTx)"
    and "fst (loopTx ut b u) = Some pl" and "fst (loopTxPriv ut b u) = Some pl"
proof -
  obtain w where w: "TxFromInternal pl = Some w" using TxFromInternal_total by blast
  then have *: "topic = (if Type_of pl = ''private_v1'' \<and> TopicTxPrivate \<in> lt_topics t then TopicTxPrivate else TopicTx)" "ut b = Some w"
    using assms(1,3) by (auto simp: BroadcastTx_def json_codec_def dest!: encode_on_sent split: if_splits)
  then show "topic = (if Type_of pl = ''private_v1'' \<and> TopicTxPrivate \<in> lt_topics t then TopicTxPrivate else TopicTx)" by simp
  show "fst (loopTx ut b u) = Some pl" "fst (loopTxPriv ut b u) = Some pl"
    using assms(2) *(2) tx_roundtrip [OF w] by (simp_all add: loopTx_def loopTxPriv_def recv_def)
qed

text \<open>
  What one node broadcasts, another hands to its handler: if the encoded bytes of a message are
  published, the loop of that topic decodes them to the message that was sent, for consensus
  messages, transactions of every type, decryption shares and key generation messages. A
  private transaction goes to the private topic when the sender has joined it and to the public
  one otherwise.
\<close>

theorem gossip_delivers:
  assumes "json_codec jq uq" and "json_codec jt ut" and "json_codec js us" and "json_codec jd ud"
    and "lt_onQBFT u" and "lt_onTx u" and "lt_onShare u" and "lt_onDKG u" and "canonical_type (m_Type msg)"
  shows "(\<forall>topic b. fst (BroadcastQBFT L jq msg t) = Inr (Some (topic, b)) \<longrightarrow> topic = TopicQBFT \<and> fst (loopQBFT uq b u) = Some msg)
    \<and> (\<forall>topic b. fst (BroadcastTx L jt pl t) = Inr (Some (topic, b)) \<longrightarrow>
         topic = (if Type_of pl = ''private_v1'' \<and> TopicTxPrivate \<in> lt_topics t then TopicTxPrivate else TopicTx)
         \<and> fst (loopTx ut b u) = Some pl \<and> fst (loopTxPriv ut b u) = Some pl)
    \<and> (\<forall>topic b. fst (BroadcastBeastShare L js sh t) = Inr (Some (topic, b)) \<longrightarrow> topic = TopicBeastShare \<and> fst (loopBeastShare us b u) = Some sh)
    \<and> (\<forall>topic b. fst (BroadcastTSSDKG L jd dm t) = Inr (Some (topic, b)) \<longrightarrow> topic = TopicTSSDKG \<and> fst (loopTSSDKG ud b u) = Some dm)"
proof (intro conjI allI impI)
  { fix topic b assume "fst (BroadcastQBFT L jq msg t) = Inr (Some (topic, b))"
    then have "topic = TopicQBFT \<and> uq b = Some (FromInternal msg)"
      using assms(1) by (auto simp: BroadcastQBFT_def json_codec_def dest!: encode_on_sent split: if_splits)
    then show "topic = TopicQBFT" "fst (loopQBFT uq b u) = Some msg"
      using assms(5) qbft_roundtrip [OF assms(9)] by (simp_all add: loopQBFT_def recv_def) }
  { fix topic b assume "fst (BroadcastTx L jt pl t) = Inr (Some (topic, b))"
    note tx = broadcast_tx_decodes [OF assms(2,6) this]
    show "topic = (if Type_of pl = ''private_v1'' \<and> TopicTxPrivate \<in> lt_topics t then TopicTxPrivate else TopicTx)" by (rule tx(1))
    show "fst (loopTx ut b u) = Some pl" "fst (loopTxPriv ut b u) = Some pl" by (rule tx(2), rule tx(3)) }
  { fix topic b assume "fst (BroadcastBeastShare L js sh t) = Inr (Some (topic, b))"
    then have "topic = TopicBeastShare \<and> us b = Some sh" using assms(3) by (auto simp: BroadcastBeastShare_def json_codec_def dest!: encode_on_sent split: if_splits)
    then show "topic = TopicBeastShare" "fst (loopBeastShare us b u) = Some sh"
      using assms(7) by (simp_all add: loopBeastShare_def recv_def) }
  { fix topic b assume "fst (BroadcastTSSDKG L jd dm t) = Inr (Some (topic, b))"
    then have "topic = TopicTSSDKG \<and> ud b = Some dm" using assms(4) by (auto simp: BroadcastTSSDKG_def json_codec_def dest!: encode_on_sent split: if_splits)
    then show "topic = TopicTSSDKG" "fst (loopTSSDKG ud b u) = Some dm"
      using assms(8) by (simp_all add: loopTSSDKG_def recv_def) }
qed

definition demo_libp2p :: libp2p where
  "demo_libp2p = \<lparr>lp_addr = (\<lambda>_. True), lp_host = (\<lambda>_ _. True), lp_gossip = True, lp_join = (\<lambda>_. True), lp_subscribe = (\<lambda>_. True),
     lp_publish = (\<lambda>_ _. True), lp_close = True\<rparr>"

definition demo_net :: Libp2pTransport where
  "demo_net = p2p_BuildTransport \<lparr>nc_Enable = True, nc_Listen = [], nc_Bootnodes = [], nc_NAT = False, nc_EnableBeast = True, nc_EnableTSSDKG = True\<rparr>"

theorem transport_start_outcome_witness:
  "\<exists>t t' t''. transport_Start demo_libp2p demo_net = (None, t) \<and> transport_Start demo_libp2p t = (None, t')
     \<and> transport_Stop demo_libp2p t' = (None, t'') \<and> 0 \<in> lt_open t''"
proof -
  obtain e t where run: "transport_Start demo_libp2p demo_net = (e, t)" by fastforce
  have "nc_Enable (lt_cfg demo_net)" "can_start demo_libp2p (lt_cfg demo_net)" "lp_close demo_libp2p" "lt_next demo_net = 0"
    by (simp_all add: demo_net_def p2p_BuildTransport_def can_start_def demo_libp2p_def)
  with transport_start_outcome [OF _ run] run show ?thesis by auto
qed

definition demo_share_json :: "BeastShare \<Rightarrow> bytes option" where
  "demo_share_json w = (if w = \<lparr>wb_Height = 3, wb_Index = 1, wb_Share = [9]\<rparr> then Some [9] else None)"

definition demo_commit :: Message where
  "demo_commit = \<lparr>m_From = [], m_Height = 0, m_Round = 0, m_Type = MsgCommit, m_Payload = [], m_ID = [], m_TraceID = [], m_Sig = []\<rparr>"

theorem gossip_delivers_witness:
  "fst (BroadcastBeastShare demo_libp2p demo_share_json \<lparr>wb_Height = 3, wb_Index = 1, wb_Share = [9]\<rparr> (demo_net\<lparr>lt_topics := {TopicBeastShare}\<rparr>))
     = Inr (Some (TopicBeastShare, [9]))
   \<and> fst (loopBeastShare (\<lambda>b. Some \<lparr>wb_Height = 3, wb_Index = 1, wb_Share = [9]\<rparr>) [9] (demo_net\<lparr>lt_onShare := True\<rparr>))
     = Some \<lparr>wb_Height = 3, wb_Index = 1, wb_Share = [9]\<rparr>"
proof -
  let ?sh = "\<lparr>wb_Height = 3, wb_Index = 1, wb_Share = [9]\<rparr>"
  let ?u = "OnQBFT (OnTx (OnTSSDKG (OnBeastShare demo_net)))"
  have sent: "fst (BroadcastBeastShare demo_libp2p demo_share_json ?sh (demo_net\<lparr>lt_topics := {TopicBeastShare}\<rparr>)) = Inr (Some (TopicBeastShare, [9]))"
    by (simp add: BroadcastBeastShare_def encode_on_def publish_on_def demo_libp2p_def demo_share_json_def)
  have codec: "json_codec demo_share_json (\<lambda>b. Some ?sh)" by (simp add: json_codec_def demo_share_json_def)
  have none: "json_codec (\<lambda>_. None) (\<lambda>_. None)" by (simp add: json_codec_def)
  have u: "lt_onQBFT ?u" "lt_onTx ?u" "lt_onShare ?u" "lt_onDKG ?u"
    by (simp_all add: OnQBFT_def OnTx_def OnBeastShare_def OnTSSDKG_def)
  have "canonical_type (m_Type demo_commit)" by (simp add: demo_commit_def canonical_type_def type_of_string_def)
  from gossip_delivers [OF none none codec none u this, THEN conjunct2, THEN conjunct2, THEN conjunct1] sent
  have "fst (loopBeastShare (\<lambda>b. Some ?sh) [9] ?u) = Some ?sh" by blast
  then have "fst (loopBeastShare (\<lambda>b. Some ?sh) [9] (demo_net\<lparr>lt_onShare := True\<rparr>)) = Some ?sh"
    by (simp add: loopBeastShare_def recv_def)
  with sent show ?thesis by simp
qed

end
