(* ===== verification/Tools.thy ===== *)
theory Tools
  imports Threshold_Decrypt Wire
begin

text \<open>
  The command line tools of the BEAST path: \<^verbatim>\<open>cmd/beast-keygen\<close>, which deals a committee key,
  \<^verbatim>\<open>cmd/beast-encrypt\<close>, which wraps a transaction into a private one, and the generator of
  key generation configurations, \<^verbatim>\<open>.github/scripts/gen-beast-dkg-config.go\<close>. Flags are
  arguments; \<open>rd\<close> is the \<open>n\<close>-th read of the random source; JSON is an argument where a file
  is parsed. What a tool writes is its result; a tool that stops with an error may have written
  some of its files before, which is left out, as are failing writes. The envelope of a private transaction is the
  wire structure with its other fields omitted.
\<close>

section \<open>Key dealing\<close>

datatype keygen_error = KgArgs | KgRandom | KgBadRandomness | KgEmpty | KgMul | KgAdd

definition kg_randScalar :: "('f, 'p1, 'p2, 'gt) blst \<Rightarrow> bytes option \<Rightarrow> keygen_error + 'f" where
  "kg_randScalar B ikm =
     (case ikm of None \<Rightarrow> Inl KgRandom
      | Some b \<Rightarrow> (case sk_KeyGen B b of None \<Rightarrow> Inl KgBadRandomness | Some s \<Rightarrow> Inr s))"

text \<open>The loop from the second highest coefficient down.\<close>

fun poly_loop :: "('f, 'p1, 'p2, 'gt) blst \<Rightarrow> 'f \<Rightarrow> 'f list \<Rightarrow> 'f \<Rightarrow> keygen_error + 'f" where
  "poly_loop B xs [] res = Inr res"
| "poly_loop B xs (c # cs) res =
     (case sc_Mul B res xs of None \<Rightarrow> Inl KgMul
      | Some m \<Rightarrow> (case sc_Add B m c of None \<Rightarrow> Inl KgAdd | Some r \<Rightarrow> poly_loop B xs cs r))"

definition evalPoly :: "('f, 'p1, 'p2, 'gt) blst \<Rightarrow> 'f list \<Rightarrow> int \<Rightarrow> keygen_error + 'f" where
  "evalPoly B coeffs x =
     (if coeffs = [] then Inl KgEmpty
      else poly_loop B (scalarFromInt B x) (rev (butlast coeffs)) (last coeffs))"

fun kg_coeffs :: "('f, 'p1, 'p2, 'gt) blst \<Rightarrow> (nat \<Rightarrow> bytes option) \<Rightarrow> nat list \<Rightarrow> keygen_error + 'f list" where
  "kg_coeffs B rd [] = Inr []"
| "kg_coeffs B rd (j # js) =
     (case kg_randScalar B (rd j) of Inl e \<Rightarrow> Inl e
      | Inr s \<Rightarrow> (case kg_coeffs B rd js of Inl e \<Rightarrow> Inl e | Inr ss \<Rightarrow> Inr (s # ss)))"

record publicConfig =
  pub_GroupPubKey :: bytes
  pub_Threshold :: int
  pub_N :: int

definition node_config :: "int \<Rightarrow> int \<Rightarrow> bytes \<Rightarrow> int \<Rightarrow> bytes \<Rightarrow> private_config" where
  "node_config n t gpk i share = \<lparr>bc_Mode = ''threshold'', bc_GroupPubKey = gpk, bc_Committee = [], bc_Threshold = t,
     bc_Index = i, bc_Share = share, bc_BatchN = n\<rparr>"

fun node_configs :: "('f, 'p1, 'p2, 'gt) blst \<Rightarrow> int \<Rightarrow> int \<Rightarrow> bytes \<Rightarrow> 'f list \<Rightarrow> int list \<Rightarrow> keygen_error + private_config list" where
  "node_configs B n t gpk coeffs [] = Inr []"
| "node_configs B n t gpk coeffs (i # is) =
     (case evalPoly B coeffs i of Inl e \<Rightarrow> Inl e
      | Inr share \<Rightarrow>
          (case node_configs B n t gpk coeffs is of Inl e \<Rightarrow> Inl e
           | Inr cs \<Rightarrow> Inr (node_config n t gpk i (sc_Serialize B share) # cs)))"

text \<open>The public file and the file of every node.\<close>

definition beast_keygen :: "('f, 'p1, 'p2, 'gt) blst \<Rightarrow> (nat \<Rightarrow> bytes option) \<Rightarrow> int \<Rightarrow> int \<Rightarrow> keygen_error + publicConfig \<times> private_config list" where
  "beast_keygen B rd n t =
     (if n \<le> 0 \<or> t \<le> 0 \<or> t > n then Inl KgArgs
      else case kg_coeffs B rd [0 ..< nat t] of Inl e \<Rightarrow> Inl e
      | Inr coeffs \<Rightarrow>
          let gpk = p1_Compress B (p1_Mult B (p1_Generator B) (hd coeffs)) in
          case node_configs B n t gpk coeffs (map int [1 ..< nat n + 1]) of Inl e \<Rightarrow> Inl e
          | Inr cs \<Rightarrow> Inr (\<lparr>pub_GroupPubKey = gpk, pub_Threshold = t, pub_N = n\<rparr>, cs))"

section \<open>Encryption\<close>

datatype encrypt_error = EnArgs | EnRead | EnJson | EnMissingKey | EnKeyLength | EnInner | EnFrom | EnIbe ibe_error | EnN
  | EnPprf pprf_error | EnBte bte_error | EnMode

definition loadPublic :: "(bytes \<Rightarrow> publicConfig option) \<Rightarrow> bytes option \<Rightarrow> encrypt_error + publicConfig" where
  "loadPublic unjson pubfile =
     (case pubfile of None \<Rightarrow> Inl EnRead
      | Some b \<Rightarrow>
     (case unjson b of None \<Rightarrow> Inl EnJson
      | Some cfg \<Rightarrow>
          if length (pub_GroupPubKey cfg) = 0 then Inl EnMissingKey
          else if length (pub_GroupPubKey cfg) \<noteq> 48 then Inl EnKeyLength
          else Inr cfg))"

definition private_envelope :: "jsonEnvelope \<Rightarrow> u64 \<Rightarrow> bytes \<Rightarrow> bytes \<Rightarrow> u64 \<Rightarrow> bytes \<Rightarrow> TxEnvelope" where
  "private_envelope inner h ct eph idx kStar = zero_TxEnvelope\<lparr>te_Type := ''private_v1'', te_From := je_From inner, te_Nonce := je_Nonce inner,
     te_Ciphertext := ct, te_EphemeralKey := eph, te_TargetHeight := h, te_BatchIndex := idx, te_PuncturedKey := kStar\<rparr>"

definition encrypt_ibe :: "('f, 'p1, 'p2, 'gt) blst \<Rightarrow> (bytes \<Rightarrow> bytes) \<Rightarrow> (bytes \<Rightarrow> aead option) \<Rightarrow> (nat \<Rightarrow> bytes option) \<Rightarrow> publicConfig
    \<Rightarrow> u64 \<Rightarrow> jsonEnvelope \<Rightarrow> bytes \<Rightarrow> encrypt_error + TxEnvelope" where
  "encrypt_ibe B sha aes rd pub h inner pt =
     (case ibe_Encrypt B sha aes (rd 0) (rd 1) (pub_GroupPubKey pub) (IdentityForHeight h) pt of
        Inl e \<Rightarrow> Inl (EnIbe e)
      | Inr (eph, ct) \<Rightarrow> Inr (private_envelope inner h ct eph 0 []))"

definition encrypt_batched :: "('f, 'p1 :: ab_group_add, 'p2, 'gt) blst \<Rightarrow> (bytes \<Rightarrow> bytes) \<Rightarrow> (nat \<Rightarrow> bytes option) \<Rightarrow> publicConfig
    \<Rightarrow> u64 \<Rightarrow> jsonEnvelope \<Rightarrow> bytes \<Rightarrow> encrypt_error + TxEnvelope" where
  "encrypt_batched B sha rd pub h inner pt =
     (if pub_N pub \<le> 0 then Inl EnN
      else case SetupLinearDeterministic B sha (pub_N pub) (pub_GroupPubKey pub) of Inl e \<Rightarrow> Inl (EnPprf e)
      | Inr pp \<Rightarrow>
     (case pprf_KeyGen B (rd 0) of Inl e \<Rightarrow> Inl (EnPprf e)
      | Inr key \<Rightarrow>
          let idx = int (unat (je_Nonce inner mod word_of_int (pub_N pub))) + 1 in
          case Eval B pp key idx of Inl e \<Rightarrow> Inl (EnPprf e)
          | Inr v \<Rightarrow>
         (case EncryptKey B (rd 1) (pub_GroupPubKey pub) key of Inl e \<Rightarrow> Inl (EnBte e)
          | Inr ct \<Rightarrow>
         (case Puncture B pp key idx of Inl e \<Rightarrow> Inl (EnPprf e)
          | Inr kStar \<Rightarrow> Inr (private_envelope inner h (RecoverXOR sha pt v) (ct_C1 ct @ ct_C2 ct) (word_of_int idx) kStar)))))"

definition default_type :: "jsonEnvelope \<Rightarrow> jsonEnvelope" where
  "default_type inner = (if je_Type inner = [] then inner\<lparr>je_Type := ''plaintext_v1''\<rparr> else inner)"

text \<open>
  The whole tool; \<open>pubfile\<close> and \<open>infile\<close> are the two files read, \<open>unpub\<close> and \<open>uninner\<close> decode
  them, and \<open>json\<close> encodes the inner envelope.
\<close>

definition beast_encrypt :: "('f, 'p1 :: ab_group_add, 'p2, 'gt) blst \<Rightarrow> (bytes \<Rightarrow> bytes) \<Rightarrow> (bytes \<Rightarrow> aead option) \<Rightarrow> (nat \<Rightarrow> bytes option)
    \<Rightarrow> (bytes \<Rightarrow> publicConfig option) \<Rightarrow> (bytes \<Rightarrow> jsonEnvelope option) \<Rightarrow> (jsonEnvelope \<Rightarrow> bytes) \<Rightarrow> bytes option \<Rightarrow> bytes option
    \<Rightarrow> u64 \<Rightarrow> string \<Rightarrow> encrypt_error + TxEnvelope" where
  "beast_encrypt B sha aes rd unpub uninner json pubfile infile h mode =
     (if h = 0 then Inl EnArgs
      else case loadPublic unpub pubfile of Inl e \<Rightarrow> Inl e
      | Inr pub \<Rightarrow>
     (case infile of None \<Rightarrow> Inl EnRead
      | Some b \<Rightarrow>
     (case uninner b of None \<Rightarrow> Inl EnInner
      | Some inner \<Rightarrow>
          if je_From inner = [] then Inl EnFrom
          else let inner = default_type inner; pt = json inner in
            if mode = ''ibe'' then encrypt_ibe B sha aes rd pub h inner pt
            else if mode = ''batched'' then encrypt_batched B sha rd pub h inner pt
            else Inl EnMode)))"

section \<open>Key generation configurations\<close>

text \<open>
  \<open>keys i\<close> are the Ed25519 and X25519 pairs (public, private) drawn for member \<open>i\<close>; the tool
  stops when one of the draws fails, which is \<open>None\<close> in \<open>gen_dkg_config\<close>.
\<close>

definition gen_member :: "(int \<Rightarrow> (bytes \<times> bytes) \<times> (bytes \<times> bytes)) \<Rightarrow> int \<Rightarrow> BeastDKGMember" where
  "gen_member keys i = \<lparr>bm_Index = i, bm_SigPub = fst (fst (keys i)), bm_EncPub = fst (snd (keys i))\<rparr>"

definition gen_config :: "(int \<Rightarrow> (bytes \<times> bytes) \<times> (bytes \<times> bytes)) \<Rightarrow> string \<Rightarrow> u64 \<Rightarrow> int \<Rightarrow> int \<Rightarrow> string \<Rightarrow> string \<Rightarrow> int \<Rightarrow> BeastDKGConfig" where
  "gen_config keys sid epoch n t keyShare sessionDir i = \<lparr>dc_SessionID = sid, dc_Epoch = epoch, dc_N = n, dc_Threshold = t, dc_Index = i,
     dc_KeySharePath = keyShare, dc_SessionDir = sessionDir, dc_SigPriv = snd (fst (keys i)), dc_EncPriv = snd (snd (keys i)),
     dc_Committee = map (gen_member keys) (map int [1 ..< nat n + 1])\<rparr>"

datatype gen_error = GenArgs | GenKeys | GenValidate dkg_conf_error

fun validate_all :: "BeastDKGConfig list \<Rightarrow> gen_error + BeastDKGConfig list" where
  "validate_all [] = Inr []"
| "validate_all (c # cs) =
     (case dkg_Validate c of Inl e \<Rightarrow> Inl (GenValidate e)
      | Inr _ \<Rightarrow> (case validate_all cs of Inl e \<Rightarrow> Inl e | Inr xs \<Rightarrow> Inr (c # xs)))"

definition gen_dkg_config :: "(int \<Rightarrow> (bytes \<times> bytes) \<times> (bytes \<times> bytes)) option \<Rightarrow> string \<Rightarrow> u64 \<Rightarrow> int \<Rightarrow> int \<Rightarrow> string \<Rightarrow> string
    \<Rightarrow> gen_error + BeastDKGConfig list" where
  "gen_dkg_config keys sid epoch n t keyShare sessionDir =
     (if n \<le> 0 \<or> t \<le> 0 \<or> t > n then Inl GenArgs
      else case keys of None \<Rightarrow> Inl GenKeys
      | Some ks \<Rightarrow> validate_all (map (gen_config ks sid epoch n t keyShare sessionDir) (map int [1 ..< nat n + 1])))"

section \<open>Dealt keys are shares of one polynomial\<close>

lemma horner_last: "horner (as @ [c, d]) x = horner (as @ [c + x * d]) x"
  by (induction as) simp_all

lemma poly_loop_value:
  assumes "scalar_ok N B" and "poly_loop B x cs res = Inr v"
  shows "v = horner (rev cs @ [res]) x"
  using assms(2)
proof (induction cs arbitrary: res)
  case (Cons c cs)
  then obtain m r where *: "sc_Mul B res x = Some m" "sc_Add B m c = Some r" "poly_loop B x cs r = Inr v"
    by (auto split: option.splits)
  have "r = c + x * res"
    using checked_Some [OF scalar_okD(3) [OF assms(1)] *(1)] checked_Some [OF scalar_okD(1) [OF assms(1)] *(2)] by (simp add: ac_simps)
  then show ?case using Cons.IH [OF *(3)] horner_last [of "rev cs" c res x] by simp
qed simp

lemma evalPoly_value:
  assumes "scalar_ok N B" and "1 \<le> N" and "idx_ok N i" and "evalPoly B cs i = Inr v"
  shows "v = horner cs (of_int i)"
proof -
  have "cs \<noteq> []" using assms(4) by (auto simp: evalPoly_def)
  then have "v = horner (butlast cs @ [last cs]) (scalarFromInt B i)"
    using poly_loop_value [OF assms(1)] assms(4) by (fastforce simp: evalPoly_def)
  with \<open>cs \<noteq> []\<close> show ?thesis using scalar_consts(3) [OF assms(1,2,3)] by simp
qed

lemma node_configs_value:
  assumes "scalar_ok N B" and "1 \<le> N" and "\<forall>i \<in> set is. idx_ok N i" and "node_configs B n t gpk cs is = Inr confs"
  shows "confs = map (\<lambda>i. node_config n t gpk i (sc_Serialize B (horner cs (of_int i)))) is"
  using assms(3,4)
proof (induction "is" arbitrary: confs)
  case (Cons i "is")
  then obtain v cf where *: "evalPoly B cs i = Inr v" "node_configs B n t gpk cs is = Inr cf"
      "confs = node_config n t gpk i (sc_Serialize B v) # cf"
    by (auto split: sum.splits)
  have "v = horner cs (of_int i)" using evalPoly_value [OF assms(1,2) _ *(1)] Cons.prems(1) by simp
  with Cons.IH [OF _ *(2)] Cons.prems(1) *(3) show ?case by simp
qed simp

lemma kg_coeffs_length: "kg_coeffs B rd js = Inr cs \<Longrightarrow> length cs = length js"
  by (induction js arbitrary: cs) (auto split: sum.splits)

lemma keygen_outcome:
  assumes "scalar_ok N (B :: ('f :: field, 'p1 :: ab_group_add, 'p2, 'gt) blst)" and "g1_ok B" and "1 \<le> N" and "n \<le> int N" and "n < 2 ^ 63"
    and "beast_keygen B rd n t = Inr (pub, confs)"
  shows "\<exists>cs :: 'f list. int (length cs) = t \<and> 0 < t \<and> t \<le> n
     \<and> pub = \<lparr>pub_GroupPubKey = p1_Compress B (g1 B (horner cs 0)), pub_Threshold = t, pub_N = n\<rparr>
     \<and> confs = map (\<lambda>i. node_config n t (p1_Compress B (g1 B (horner cs 0))) i (sc_Serialize B (horner cs (of_int i)))) (map int [1 ..< nat n + 1])"
proof -
  obtain cs where cs: "0 < n" "0 < t" "t \<le> n" "kg_coeffs B rd [0 ..< nat t] = Inr cs"
      "node_configs B n t (p1_Compress B (p1_Mult B (p1_Generator B) (hd cs))) cs (map int [1 ..< nat n + 1]) = Inr confs"
      "pub = \<lparr>pub_GroupPubKey = p1_Compress B (p1_Mult B (p1_Generator B) (hd cs)), pub_Threshold = t, pub_N = n\<rparr>"
    using assms(6) by (auto simp: beast_keygen_def Let_def split: if_splits sum.splits)
  have len: "length cs = nat t" using kg_coeffs_length [OF cs(4)] by simp
  then have "cs \<noteq> []" using cs(2) by auto
  then have "horner cs 0 = hd cs" by (cases cs) simp_all
  moreover have "\<forall>i \<in> set (map int [1 ..< nat n + 1]). idx_ok N i" using assms(4,5) by (auto simp: idx_ok_def)
  note node_configs_value [OF assms(1,3) this cs(5)]
  ultimately show ?thesis using cs len by (intro exI [of _ cs]) (simp del: horner_zero)
qed

section \<open>From the tools to a decrypted transaction\<close>

text \<open>The transaction an inner envelope stands for.\<close>

definition inner_payload :: "jsonEnvelope \<Rightarrow> payload option" where
  "inner_payload e =
     (if je_Type e = [] \<or> je_Type e = ''plaintext_v1''
      then Some (Plaintext \<lparr>pt_From = je_From e, pt_Nonce = je_Nonce e, pt_Gas = je_Gas e, pt_Fee = je_Fee e, pt_Sig = []\<rparr>)
      else if je_Type e = ''auction_bid_v1''
      then Some (Auction \<lparr>at_From = je_From e, at_Nonce = je_Nonce e, at_Gas = je_Gas e, at_Bid = je_Bid e,
                   at_FeeRecipient = je_FeeRecipient e, at_Sig = []\<rparr>)
      else None)"

lemma encrypt_ibe_cases:
  assumes "beast_encrypt B sha aes rd unpub uninner json (Some pf) (Some inb) h ''ibe'' = Inr w"
    and "unpub pf = Some pub" and "uninner inb = Some inner"
  shows "\<exists>eph ct. h \<noteq> 0 \<and> inner_payload (default_type inner) = inner_payload inner
     \<and> ibe_Encrypt B sha aes (rd 0) (rd 1) (pub_GroupPubKey pub) (IdentityForHeight h) (json (default_type inner)) = Inr (eph, ct)
     \<and> tx_ToInternal w = Some (Private \<lparr>pv_From = je_From inner, pv_Nonce = je_Nonce inner, pv_Ciphertext = ct, pv_EphemeralKey = eph,
          pv_TargetHeight = h, pv_BatchIndex = 0, pv_PuncturedKey = []\<rparr>)"
proof -
  define inner' where "inner' = default_type inner"
  have "h \<noteq> 0" "encrypt_ibe B sha aes rd pub h inner' (json inner') = Inr w"
    using assms by (auto simp: beast_encrypt_def loadPublic_def inner'_def Let_def split: if_splits)
  moreover have "inner_payload inner' = inner_payload inner" "je_From inner' = je_From inner" "je_Nonce inner' = je_Nonce inner"
    by (simp_all add: inner'_def default_type_def inner_payload_def)
  ultimately show ?thesis unfolding inner'_def
    by (auto simp: encrypt_ibe_def private_envelope_def tx_ToInternal_def zero_TxEnvelope_def Let_def split: sum.splits)
qed


section \<open>Generated configurations\<close>

lemma upt_upto: "map int [1 ..< nat n + 1] = [1..n]"
  by (simp add: list_eq_iff_nth_eq nth_upto nth_append del: upt_Suc)

lemma validate_all_ok: "\<forall>c \<in> set cs. dkg_Validate c = Inr () \<Longrightarrow> validate_all cs = Inr cs"
  by (induction cs) auto

text \<open>
  The generator's configurations: with key material of the sizes Ed25519 and X25519 have and
  a session name, every configuration it writes passes the node's validation, one for each
  index, all of them with the same committee.
\<close>

theorem gen_dkg_config_valid:
  assumes "0 < t" and "t \<le> n" and "sid \<noteq> []"
    and "\<forall>i \<in> {1..n}. length (fst (fst (ks i))) = 32 \<and> length (snd (fst (ks i))) = 64 \<and> length (fst (snd (ks i))) = 32 \<and> length (snd (snd (ks i))) = 32"
  shows "\<exists>cs. gen_dkg_config (Some ks) sid epoch n t keyShare sessionDir = Inr cs \<and> map dc_Index cs = [1..n]
    \<and> (\<forall>c \<in> set cs. dkg_Validate c = Inr () \<and> dc_Committee c = map (gen_member ks) [1..n])"
proof -
  let ?cs = "map (gen_config ks sid epoch n t keyShare sessionDir) [1..n]"
  have "check_members n {} (map (gen_member ks) [1..n]) = Inr ()"
    using assms(4) by (simp add: check_members_iff gen_member_def comp_def)
  then have valid: "dkg_Validate (gen_config ks sid epoch n t keyShare sessionDir i) = Inr ()" if "i \<in> {1..n}" for i
    unfolding gen_config_def dkg_Validate_def upt_upto using that assms by simp
  then have "validate_all ?cs = Inr ?cs" by (intro validate_all_ok) simp
  then have "gen_dkg_config (Some ks) sid epoch n t keyShare sessionDir = Inr ?cs"
    unfolding gen_dkg_config_def upt_upto using assms(1,2) by simp
  moreover have "dc_Index (gen_config ks sid epoch n t keyShare sessionDir i) = i"
      "dc_Committee (gen_config ks sid epoch n t keyShare sessionDir i) = map (gen_member ks) [1..n]" for i
    unfolding gen_config_def upt_upto by simp_all
  ultimately show ?thesis using valid by (simp add: comp_def)
qed

theorem gen_dkg_config_valid_witness:
  "\<exists>cs. gen_dkg_config (Some (\<lambda>i. ((replicate 32 1, replicate 64 2), (replicate 32 3, replicate 32 4)))) ''s'' 1 2 2 [] [] = Inr cs \<and> map dc_Index cs = [1..2]"
  using gen_dkg_config_valid [of 2 2 "''s''" "\<lambda>i. ((replicate 32 1, replicate 64 2), (replicate 32 3, replicate 32 4))" 1 "[]" "[]"] by auto

lemma demo_keygen:
  "beast_keygen small_blst (\<lambda>_. Some [1]) 2 2 = Inr (\<lparr>pub_GroupPubKey = f5_bytes 48 F1, pub_Threshold = 2, pub_N = 2\<rparr>,
     [node_config 2 2 (f5_bytes 48 F1) 1 (f5_bytes 32 F2), node_config 2 2 (f5_bytes 48 F1) 2 (f5_bytes 32 F3)])"
  by code_simp

lemma demo_default [simp]: "default_type demo_envelope = demo_envelope"
  by (simp add: default_type_def demo_envelope_def)

lemma demo_from: "je_From demo_envelope \<noteq> []"
  by (simp add: demo_envelope_def)

definition demo_rd :: "nat \<Rightarrow> bytes option" where
  "demo_rd i = Some (if i = 0 then [1] else replicate 12 5)"


section \<open>The default mode of the encryption tool\<close>

lemma encrypt_batched_ephemeral:
  assumes "scalar_ok N B" and "g1_ok B" and "pub_GroupPubKey pub = p1_Compress B (g1 B s)"
    and "encrypt_batched B sha rd pub h inner pt = Inr w"
  shows "te_Type w = ''private_v1'' \<and> length (te_EphemeralKey w) = 96"
proof -
  obtain key ct where k: "pprf_KeyGen B (rd 0) = Inr key" "EncryptKey B (rd 1) (pub_GroupPubKey pub) key = Inr ct"
      "te_Type w = ''private_v1''" "te_EphemeralKey w = ct_C1 ct @ ct_C2 ct"
    using assms(4) by (auto simp: encrypt_batched_def private_envelope_def Let_def split: if_splits sum.splits)
  then obtain k0 where k0: "k0 \<noteq> 0" "key = sc_Serialize B k0"
    using scalar_okD(7) [OF assms(1)] by (auto simp: pprf_KeyGen_def pprf_randScalar_def split: sum.splits option.splits)
  obtain r where "ct = ct_for B s r k0" using EncryptKey_ct [OF assms(1,2) k0(1) k(2) [unfolded assms(3) k0(2)]] by blast
  then show ?thesis using k(3,4) g1_okD(5) [OF assms(2)] by (simp add: ct_for_def)
qed

lemma threshold_rejects_long_key:
  assumes "\<And>b. length b \<noteq> 48 \<Longrightarrow> p1_Uncompress (te_B E) b = None" and "bc_Mode conf = ''threshold''" and "length (pv_EphemeralKey tx) = 96"
  shows "\<exists>e. fst (blst_Decrypt E conf hdr (Private tx) s) = Inl e"
proof -
  have "\<exists>e. ibe_Decrypt (te_B E) (te_sha E) (te_aes E) pk (pv_EphemeralKey tx) (pv_Ciphertext tx) = Inl e" for pk
    using assms(1) [of "pv_EphemeralKey tx"] assms(3) by (auto simp: ibe_Decrypt_def split: option.splits)
  then obtain err where "ibe_Decrypt (te_B E) (te_sha E) (te_aes E) pk (pv_EphemeralKey tx) (pv_Ciphertext tx) = Inl (err pk)" for pk
    by metis
  then have "\<exists>e. fst (decryptThresholdIBE E tx s) = Inl e"
    by (auto simp: decryptThresholdIBE_def Let_def split: prod.splits option.splits)
  then show ?thesis using assms(2) by (auto simp: blst_Decrypt_def)
qed

text \<open>
  The two tools do not fit by default: what the encryption tool writes in its default mode,
  \<^verbatim>\<open>batched\<close>, for a dealt key is decrypted by no node that runs the dealt configuration,
  at no height and whatever shares it has heard, because the ephemeral key it carries is not
  a compressed point, and decompression refuses inputs that are not 48 bytes.
\<close>

theorem encrypt_default_mode_undecryptable:
  fixes E :: "('f :: field, 'p1 :: ab_group_add, 'p2 :: ab_group_add, 'gt) tenv"
  assumes "scalar_ok N (te_B E)" and "g1_ok (te_B E)" and "1 \<le> N" and "\<And>b. length b \<noteq> 48 \<Longrightarrow> p1_Uncompress (te_B E) b = None"
    and "beast_keygen (te_B E) rd n t = Inr (pub, confs)" and "n \<le> int N" and "n < 2 ^ 63"
    and "beast_encrypt (te_B E) (te_sha E) (te_aes E) rd' unpub uninner json (Some pf) (Some inb) h ''batched'' = Inr w"
    and "unpub pf = Some pub" and "conf \<in> set confs"
  shows "\<exists>tx. tx_ToInternal w = Some (Private tx) \<and> (\<forall>hdr s. \<exists>e. fst (blst_Decrypt E conf hdr (Private tx) s) = Inl e)"
proof -
  let ?B = "te_B E"
  obtain cs where cs: "pub_GroupPubKey pub = p1_Compress ?B (g1 ?B (horner cs 0))" "bc_Mode conf = ''threshold''"
    using keygen_outcome [OF assms(1,2,3,6,7,5)] assms(10) by (auto simp: node_config_def simp del: horner_zero)
  obtain inner' pt where "encrypt_batched ?B (te_sha E) rd' pub h inner' pt = Inr w"
    using assms(8,9) by (auto simp: beast_encrypt_def loadPublic_def Let_def split: if_splits option.splits)
  note w = encrypt_batched_ephemeral [OF assms(1,2) cs(1) this]
  then obtain tx where "tx_ToInternal w = Some (Private tx)" "pv_EphemeralKey tx = te_EphemeralKey w"
    by (simp add: tx_ToInternal_def)
  with w threshold_rejects_long_key [OF assms(4) cs(2)] show ?thesis by auto
qed

definition strict_blst :: "(f5, f5, f5, f5) blst" where
  "strict_blst = small_blst\<lparr>p1_Uncompress := (\<lambda>bs. if length bs = 48 then Some (bytes_f5 bs) else None)\<rparr>"

definition strict_te :: "(f5, f5, f5, f5) tenv" where
  "strict_te = demo_te\<lparr>te_B := strict_blst\<rparr>"

lemma strict_ok: "scalar_ok 4 strict_blst" "g1_ok strict_blst" "g2_ok strict_blst"
proof -
  show "scalar_ok 4 strict_blst" using small_scalar_ok by (simp add: strict_blst_def scalar_ok_def)
  show "g1_ok strict_blst" by (simp add: strict_blst_def g1_ok_def pgroup_ok_def small_blst_def inj_def distrib_left)
  show "g2_ok strict_blst" using small_g2_ok by (simp add: strict_blst_def g2_ok_def)
qed

lemma strict_keygen: "sk_KeyGen strict_blst [1] = Some F1" "sk_KeyGen strict_blst (f5_bytes 48 F1) = Some F1"
  using small_nonzero(1) by (simp_all add: strict_blst_def small_blst_def) (simp add: bytes_f5_def nat_f5_def zero_f5_def be_val_simps)

lemma strict_encrypts:
  "\<exists>w. encrypt_batched strict_blst id (\<lambda>_. Some [1]) \<lparr>pub_GroupPubKey = f5_bytes 48 F1, pub_Threshold = 2, pub_N = 2\<rparr> 7 demo_envelope [1] = Inr w"
proof -
  have key: "f5_bytes 48 F1 \<noteq> []" "f5_bytes 48 F1 = p1_Compress strict_blst (g1 strict_blst F1)"
    by (auto simp: strict_blst_def small_blst_def f5_bytes_def)
  obtain pp where pp: "buildLinearParams strict_blst 2 F1 = Inr pp" "powers_of strict_blst F1 pp" "pp_N pp = 2"
    using buildLinearParams_ok [OF strict_ok small_nonzero(1), of 2] by auto
  have "SetupLinearDeterministic strict_blst id 2 (f5_bytes 48 F1) = Inr pp"
    using pp(1) key(1) by (simp add: SetupLinearDeterministic_def strict_keygen)
  moreover have "pprf_KeyGen strict_blst (Some [1]) = Inr (sc_Serialize strict_blst F1)"
    by (simp add: pprf_KeyGen_def pprf_randScalar_def strict_keygen)
  moreover have "\<exists>ct. EncryptKey strict_blst (Some [1]) (f5_bytes 48 F1) (sc_Serialize strict_blst F1) = Inr ct"
    using scalar_key [OF strict_ok(1) small_nonzero(1)] strict_keygen(1) g1_okD(4,5) [OF strict_ok(2), of F1] key(2)
    by (auto simp: EncryptKey_def bte_randScalar_def Let_def)
  moreover have "int (unat (je_Nonce demo_envelope mod word_of_int 2)) + 1 = 1" by code_simp
  ultimately show ?thesis
    using Puncture_point [OF strict_ok pp(2) small_nonzero(1), of 1] Eval_prf [OF strict_ok pp(2) small_nonzero(1), of 1] pp(3)
    by (auto simp: encrypt_batched_def Let_def)
qed

lemma uncompress_len: "length b \<noteq> 48 \<Longrightarrow> p1_Uncompress strict_blst b = None"
  by (simp add: strict_blst_def)

theorem encrypt_default_mode_undecryptable_witness:
  "\<exists>pub confs w tx. beast_keygen strict_blst (\<lambda>_. Some [1]) 2 2 = Inr (pub, confs)
     \<and> beast_encrypt strict_blst id (\<lambda>_. Some demo_aead) (\<lambda>_. Some [1]) (\<lambda>_. Some pub) (\<lambda>_. Some demo_envelope) (\<lambda>_. [1]) (Some []) (Some []) 7 ''batched'' = Inr w
     \<and> tx_ToInternal w = Some (Private tx) \<and> (\<exists>e. fst (blst_Decrypt strict_te (hd confs) \<lparr>bh_Height = 8, bh_Round = 0\<rparr> (Private tx) thresh_init) = Inl e)"
proof -
  let ?pub = "\<lparr>pub_GroupPubKey = f5_bytes 48 F1, pub_Threshold = 2, pub_N = 2\<rparr>"
  let ?confs = "[node_config 2 2 (f5_bytes 48 F1) 1 (f5_bytes 32 F2), node_config 2 2 (f5_bytes 48 F1) 2 (f5_bytes 32 F3)]"
  let ?out = "beast_encrypt strict_blst id (\<lambda>_. Some demo_aead) (\<lambda>_. Some [1]) (\<lambda>_. Some ?pub) (\<lambda>_. Some demo_envelope) (\<lambda>_. [1]) (Some []) (Some []) 7 ''batched''"
  have kg: "beast_keygen strict_blst (\<lambda>_. Some [1]) 2 2 = Inr (?pub, ?confs)" by code_simp
  obtain w where w: "?out = Inr w"
    using strict_encrypts by (auto simp: beast_encrypt_def loadPublic_def Let_def demo_from)
  have "\<exists>tx. tx_ToInternal w = Some (Private tx) \<and> (\<forall>hdr s. \<exists>e. fst (blst_Decrypt strict_te (hd ?confs) hdr (Private tx) s) = Inl e)"
    by (rule encrypt_default_mode_undecryptable [where E = strict_te and N = 4 and n = 2 and t = 2 and confs = ?confs]) (use strict_ok kg w in \<open>simp_all add: strict_te_def uncompress_len\<close>)
  then obtain tx where "tx_ToInternal w = Some (Private tx)" "\<forall>hdr s. \<exists>e. fst (blst_Decrypt strict_te (hd ?confs) hdr (Private tx) s) = Inl e"
    by blast
  with kg w show ?thesis by blast
qed

end
