(* ===== verification/Bls_Sig.thy ===== *)
theory Bls_Sig
  imports Blst
begin

text \<open>
  \<^verbatim>\<open>internal/tss/core/bls381/impl_blst.go\<close> and \<^verbatim>\<open>internal/tss/bls/tbls_blst.go\<close>: BLS signatures
  with public keys in the first group. The signature functions of the curve library are a
  record of arguments, and \<open>bls_ok\<close> is what its documentation says of them. An empty aggregate
  does not occur: both loops follow a test for an empty list. The packages also keep their
  placeholder implementations.
\<close>

section \<open>Curve library\<close>

record ('f, 'p1, 'p2) blsig =
  sg_Sign :: "'f \<Rightarrow> bytes \<Rightarrow> bytes \<Rightarrow> 'p2 option"
  sg_Verify :: "'p2 \<Rightarrow> 'p1 \<Rightarrow> bytes \<Rightarrow> bytes \<Rightarrow> bool"
  sg_FastAggregateVerify :: "'p2 \<Rightarrow> 'p1 list \<Rightarrow> bytes \<Rightarrow> bytes \<Rightarrow> bool"
  sg_InGroup :: "'p2 \<Rightarrow> bool"

text \<open>
  Signing multiplies the hash of the message; a signature verifies when it is the hash times
  the key's exponent and the key is not the identity; the fast verification of an aggregate is
  that under the sum of the keys; points of the subgroup pass the group check.
\<close>

definition bls_ok :: "('f :: field, 'p1 :: ab_group_add, 'p2 :: ab_group_add, 'gt) blst \<Rightarrow> ('f, 'p1, 'p2) blsig \<Rightarrow> bool" where
  "bls_ok B S \<longleftrightarrow>
     (\<forall>sk m d. sg_Sign S sk m d = Some (p2_Mult B (HashToG2 B m d) sk)) \<and>
     (\<forall>x a m d. sg_Verify S (g2 B x) (g1 B a) m d \<longleftrightarrow> a \<noteq> 0 \<and> g2 B x = p2_Mult B (HashToG2 B m d) a) \<and>
     (\<forall>x as m d. sg_FastAggregateVerify S (g2 B x) (map (g1 B) as) m d \<longleftrightarrow>
        sum_list as \<noteq> 0 \<and> g2 B x = p2_Mult B (HashToG2 B m d) (sum_list as)) \<and>
     (\<forall>x. sg_InGroup S (g2 B x))"

section \<open>Signatures\<close>

datatype bls_error = BlsInvalidInput | BlsNotImplemented | BlsNoShares

definition bls_HashToG2 :: "('f, 'p1, 'p2, 'gt) blst \<Rightarrow> bytes \<Rightarrow> bytes \<Rightarrow> bytes" where
  "bls_HashToG2 B msg dst = p2_Compress B (HashToG2 B msg dst)"

definition bls_Verify :: "('f, 'p1, 'p2, 'gt) blst \<Rightarrow> ('f, 'p1, 'p2) blsig \<Rightarrow> bytes \<Rightarrow> bytes \<Rightarrow> bytes \<Rightarrow> bytes \<Rightarrow> bls_error + bool" where
  "bls_Verify B S pk sig msg dst =
     (if pk = [] \<or> sig = [] then Inl BlsInvalidInput
      else case p1_Uncompress B pk of None \<Rightarrow> Inl BlsInvalidInput
      | Some pkAff \<Rightarrow>
     (case p2_Uncompress B sig of None \<Rightarrow> Inl BlsInvalidInput
      | Some sigAff \<Rightarrow> Inr (sg_Verify S sigAff pkAff msg dst)))"

text \<open>The loop over the signatures; \<open>None\<close> is a point that does not parse or is outside the group.\<close>

fun aggregate_sigs :: "('f, 'p1, 'p2 :: ab_group_add, 'gt) blst \<Rightarrow> ('f, 'p1, 'p2) blsig \<Rightarrow> bytes list \<Rightarrow> 'p2 \<Rightarrow> 'p2 option" where
  "aggregate_sigs B S [] acc = Some acc"
| "aggregate_sigs B S (s # ss) acc =
     (case p2_Uncompress B s of None \<Rightarrow> None
      | Some aff \<Rightarrow> if sg_InGroup S aff then aggregate_sigs B S ss (acc + aff) else None)"

definition bls_Aggregate :: "('f, 'p1, 'p2 :: ab_group_add, 'gt) blst \<Rightarrow> ('f, 'p1, 'p2) blsig \<Rightarrow> bytes list \<Rightarrow> bls_error + bytes" where
  "bls_Aggregate B S sigs =
     (if sigs = [] then Inl BlsInvalidInput
      else case aggregate_sigs B S sigs 0 of None \<Rightarrow> Inl BlsInvalidInput | Some a \<Rightarrow> Inr (p2_Compress B a))"

definition VerifyAggregate :: "('f, 'p1, 'p2, 'gt) blst \<Rightarrow> ('f, 'p1, 'p2) blsig \<Rightarrow> bytes list \<Rightarrow> bytes \<Rightarrow> bytes \<Rightarrow> bytes \<Rightarrow> bls_error + bool" where
  "VerifyAggregate B S pks sig msg dst =
     (if pks = [] \<or> sig = [] then Inl BlsInvalidInput
      else case p2_Uncompress B sig of None \<Rightarrow> Inl BlsInvalidInput
      | Some sigAff \<Rightarrow>
     (case those (map (p1_Uncompress B) pks) of None \<Rightarrow> Inl BlsInvalidInput
      | Some arr \<Rightarrow> Inr (sg_FastAggregateVerify S sigAff arr msg dst)))"

section \<open>Threshold signatures\<close>

text \<open>The key is derived from the share's bytes by the key generation function.\<close>

definition PartialSign :: "('f, 'p1, 'p2, 'gt) blst \<Rightarrow> ('f, 'p1, 'p2) blsig \<Rightarrow> bytes \<Rightarrow> bytes \<Rightarrow> bytes \<Rightarrow> bls_error + bytes" where
  "PartialSign B S sk msg dst =
     (if sk = [] then Inl BlsNotImplemented
      else case sk_KeyGen B sk of None \<Rightarrow> Inl BlsNotImplemented
      | Some sec \<Rightarrow>
     (case sg_Sign S sec msg dst of None \<Rightarrow> Inl BlsNotImplemented | Some sig \<Rightarrow> Inr (p2_Compress B sig)))"

definition VerifyShare :: "('f, 'p1, 'p2, 'gt) blst \<Rightarrow> ('f, 'p1, 'p2) blsig \<Rightarrow> bytes \<Rightarrow> bytes \<Rightarrow> bytes \<Rightarrow> bytes \<Rightarrow> bool" where
  "VerifyShare B S sig pk msg dst = (case bls_Verify B S pk sig msg dst of Inl _ \<Rightarrow> False | Inr ok \<Rightarrow> ok)"

definition Combine :: "('f, 'p1, 'p2 :: ab_group_add, 'gt) blst \<Rightarrow> ('f, 'p1, 'p2) blsig \<Rightarrow> bytes list \<Rightarrow> bls_error + bytes" where
  "Combine B S shares =
     (if shares = [] then Inl BlsNotImplemented
      else case aggregate_sigs B S shares 0 of None \<Rightarrow> Inl BlsNotImplemented | Some a \<Rightarrow> Inr (p2_Compress B a))"

definition bls_VerifyAgg :: "('f, 'p1, 'p2, 'gt) blst \<Rightarrow> ('f, 'p1, 'p2) blsig \<Rightarrow> bytes \<Rightarrow> bytes \<Rightarrow> bytes \<Rightarrow> bytes \<Rightarrow> bool" where
  "bls_VerifyAgg B S sig gpk msg dst = (case bls_Verify B S gpk sig msg dst of Inl _ \<Rightarrow> False | Inr ok \<Rightarrow> ok)"

section \<open>Placeholders\<close>

definition stub_Verify :: "bytes \<Rightarrow> bytes \<Rightarrow> bytes \<Rightarrow> bytes \<Rightarrow> bool \<times> bls_error" where
  "stub_Verify pk sig msg dst = (False, BlsNotImplemented)"

definition stub_PartialSign :: "bytes \<Rightarrow> bytes \<Rightarrow> bytes \<Rightarrow> bls_error + bytes" where
  "stub_PartialSign sk msg dst = Inl BlsNotImplemented"

definition stub_VerifyShare :: "bytes \<Rightarrow> bytes \<Rightarrow> bytes \<Rightarrow> bytes \<Rightarrow> bool" where
  "stub_VerifyShare sig pk msg dst = fst (stub_Verify pk sig msg dst)"

definition stub_Combine :: "bytes list \<Rightarrow> bls_error + bytes" where
  "stub_Combine shares = (if shares = [] then Inl BlsNoShares else Inl BlsNotImplemented)"

section \<open>What a combination verifies against\<close>

lemma bls_okD:
  assumes "bls_ok B S"
  shows "sg_Sign S sk m d = Some (p2_Mult B (HashToG2 B m d) sk)"
    and "sg_Verify S (g2 B x) (g1 B a) m d \<longleftrightarrow> a \<noteq> 0 \<and> g2 B x = p2_Mult B (HashToG2 B m d) a"
    and "sg_FastAggregateVerify S (g2 B x) (map (g1 B) as) m d \<longleftrightarrow> sum_list as \<noteq> 0 \<and> g2 B x = p2_Mult B (HashToG2 B m d) (sum_list as)"
    and "sg_InGroup S (g2 B x)"
  using assms unfolding bls_ok_def by blast+

lemma aggregate_points:
  assumes "g2_ok B" and "bls_ok B S"
  shows "aggregate_sigs B S (map (\<lambda>x. p2_Compress B (g2 B x)) xs) (g2 B a) = Some (g2 B (a + sum_list xs))"
  by (induction xs arbitrary: a) (simp_all add: g2_okD(2,4) [OF assms(1)] bls_okD(4) [OF assms(2)] ac_simps)

lemma signed_point:
  assumes "g2_ok B" and "bls_ok B S" and "HashToG2 B msg dst = g2 B h" and "sk \<noteq> []" and "sk_KeyGen B sk = Some s"
  shows "PartialSign B S sk msg dst = Inr (p2_Compress B (g2 B (h * s)))"
  using assms(3-5) by (simp add: PartialSign_def bls_okD(1) [OF assms(2)] g2_okD(1) [OF assms(1)])

lemma g2_point_verifies:
  assumes "g1_ok B" and "g2_ok B" and "bls_ok B S" and "HashToG2 B msg dst = g2 B h" and "h \<noteq> 0"
  shows "bls_Verify B S (p1_Compress B (g1 B a)) (p2_Compress B (g2 B (h * s))) msg dst = Inr (a \<noteq> 0 \<and> s = a)"
proof -
  have "p1_Compress B (g1 B a) \<noteq> []" "p2_Compress B (g2 B (h * s)) \<noteq> []"
    using g1_okD(5) [OF assms(1), of a] g2_okD(5) [OF assms(2), of "h * s"] by auto
  then show ?thesis using assms(5)
    by (simp add: bls_Verify_def g1_okD(4) [OF assms(1)] g2_okD(4) [OF assms(2)] bls_okD(2) [OF assms(3)] assms(4)
        g2_okD(1,3) [OF assms(2)])
qed

lemma those_uncompress: "g1_ok B \<Longrightarrow> those (map (p1_Uncompress B) (map (\<lambda>a. p1_Compress B (g1 B a)) as)) = Some (map (g1 B) as)"
  by (induction as) (simp_all add: g1_okD(4))

text \<open>
  C40: Partial signatures and their combination. Every participant's partial signature verifies
  exactly under the public key of the scalar that key generation makes of its share's bytes.
  The combination always succeeds, verifies as an aggregate under the participants' public
  keys, and verifies under a group key exactly when its exponent is the sum of those scalars:
  the combination uses no Lagrange weights, so it is no signature under the key the shares
  interpolate.
\<close>

theorem combined_signature_verifies:
  fixes B :: "('f :: field, 'p1 :: ab_group_add, 'p2 :: ab_group_add, 'gt) blst"
  assumes "g1_ok B" and "g2_ok B" and "bls_ok B S" and "HashToG2 B msg dst = g2 B h" and "h \<noteq> 0"
    and "shares \<noteq> []" and "list_all2 (\<lambda>sk s. sk \<noteq> [] \<and> sk_KeyGen B sk = Some s) shares keys"
  shows "\<exists>sigs sig. list_all2 (\<lambda>sk sig. PartialSign B S sk msg dst = Inr sig) shares sigs
    \<and> list_all2 (\<lambda>s sig. \<forall>a. VerifyShare B S sig (p1_Compress B (g1 B a)) msg dst \<longleftrightarrow> a \<noteq> 0 \<and> s = a) keys sigs
    \<and> Combine B S sigs = Inr sig
    \<and> VerifyAggregate B S (map (\<lambda>s. p1_Compress B (g1 B s)) keys) sig msg dst = Inr (sum_list keys \<noteq> 0)
    \<and> (\<forall>a. bls_VerifyAgg B S sig (p1_Compress B (g1 B a)) msg dst \<longleftrightarrow> a \<noteq> 0 \<and> a = sum_list keys)"
proof -
  let ?sigs = "map (\<lambda>s. p2_Compress B (g2 B (h * s))) keys"
  let ?sig = "p2_Compress B (g2 B (h * sum_list keys))"
  have signed: "list_all2 (\<lambda>sk sig. PartialSign B S sk msg dst = Inr sig) shares ?sigs"
    using assms(7) signed_point [OF assms(2-4)] by (auto simp: list.rel_map elim!: list.rel_mono_strong)
  have each: "list_all2 (\<lambda>s sig. \<forall>a. VerifyShare B S sig (p1_Compress B (g1 B a)) msg dst \<longleftrightarrow> a \<noteq> 0 \<and> s = a) keys ?sigs"
    by (simp add: list.rel_map list.rel_refl VerifyShare_def g2_point_verifies [OF assms(1-5)])
  have "aggregate_sigs B S ?sigs (g2 B 0) = Some (g2 B (0 + sum_list (map ((*) h) keys)))"
    using aggregate_points [OF assms(2,3), where xs = "map ((*) h) keys"] by (simp add: comp_def)
  then have comb: "Combine B S ?sigs = Inr ?sig"
    using assms(6,7) pgroup_zero [OF g2_group [OF assms(2)]] by (auto simp: Combine_def sum_list_const_mult)
  have "keys \<noteq> []" using assms(6,7) by auto
  moreover have "?sig \<noteq> []" using g2_okD(5) [OF assms(2), of "h * sum_list keys"] by auto
  ultimately have "VerifyAggregate B S (map (\<lambda>s. p1_Compress B (g1 B s)) keys) ?sig msg dst = Inr (sum_list keys \<noteq> 0)"
    using those_uncompress [OF assms(1), of keys]
    by (simp add: VerifyAggregate_def g2_okD(4) [OF assms(2)] bls_okD(3) [OF assms(3)] assms(4) g2_okD(1) [OF assms(2)])
  moreover have "bls_VerifyAgg B S ?sig (p1_Compress B (g1 B a)) msg dst \<longleftrightarrow> a \<noteq> 0 \<and> a = sum_list keys" for a
    by (auto simp: bls_VerifyAgg_def g2_point_verifies [OF assms(1-5)])
  ultimately show ?thesis using signed each comb by blast
qed

definition small_sig :: "(f5, f5, f5) blsig" where
  "small_sig = \<lparr>sg_Sign = (\<lambda>sk m d. Some (HashToG2 small_blst m d * sk)), sg_Verify = (\<lambda>x a m d. a \<noteq> 0 \<and> x = HashToG2 small_blst m d * a),
     sg_FastAggregateVerify = (\<lambda>x as m d. sum_list as \<noteq> 0 \<and> x = HashToG2 small_blst m d * sum_list as), sg_InGroup = (\<lambda>_. True)\<rparr>"

lemma small_sig_ok: "bls_ok small_blst small_sig"
  by (simp add: bls_ok_def small_sig_def small_blst_def F1_id)

theorem combined_signature_verifies_witness:
  "\<exists>sigs sig. list_all2 (\<lambda>sk sig. PartialSign small_blst small_sig sk [] [] = Inr sig) [[1], [1]] sigs \<and> Combine small_blst small_sig sigs = Inr sig
     \<and> VerifyAggregate small_blst small_sig (map (\<lambda>s. p1_Compress small_blst (g1 small_blst s)) [F1, F1]) sig [] [] = Inr True
     \<and> \<not> bls_VerifyAgg small_blst small_sig sig (p1_Compress small_blst (g1 small_blst F1)) [] []"
proof -
  have h: "HashToG2 small_blst [] [] = g2 small_blst F1" "F1 \<noteq> 0" "sk_KeyGen small_blst [1] = Some F1" "F1 + F1 \<noteq> 0" "F1 + F1 \<noteq> F1" by code_simp+
  then have "list_all2 (\<lambda>sk s. sk \<noteq> [] \<and> sk_KeyGen small_blst sk = Some s) [[1], [1]] [F1, F1]" by simp
  from combined_signature_verifies [OF small_g1_ok small_g2_ok small_sig_ok h(1,2) _ this] h(4,5) show ?thesis by fastforce
qed

end
