(* ===== verification/Node.thy ===== *)
theory Node
  imports Api Transport Consensus Threshold_Decrypt Beast_Runner
begin

text \<open>
  \<^verbatim>\<open>cmd/dvt-node\<close>: how \<^verbatim>\<open>main\<close> puts the node together. Flags are a record; the environment
  variables, the files, the JSON decoders and the transport that \<^verbatim>\<open>StartTransportIfEnabled\<close>
  returns are arguments, because a build with libp2p does not define that function. Closures
  are the functions they run: what a handler of the API or of the transport does to the bus,
  and what the share handler does to the share state. The lifecycle of the services is in
  \<^verbatim>\<open>Lifecycle\<close>.
\<close>

section \<open>Flags\<close>

record flags =
  fl_upstream :: string
  fl_p2pEnable :: bool
  fl_p2pListen :: string
  fl_p2pBoot :: string
  fl_p2pNAT :: bool
  fl_feeSink :: string
  fl_enableBeast :: bool
  fl_enableJSON :: bool
  fl_beastConf :: string
  fl_beastDKGConf :: string
  fl_enableBuilder :: bool
  fl_builderMaxN :: int
  fl_builderWindow :: int
  fl_builderMinBid :: u64
  fl_builderMinFee :: u64
  fl_builderTicksMs :: int
  fl_builderUseDFBA :: bool

definition flag_policy :: "flags \<Rightarrow> BuilderPolicy" where
  "flag_policy f = zero_BuilderPolicy\<lparr>bp_MaxN := fl_builderMaxN f, bp_Window := fl_builderWindow f, bp_MinBid := fl_builderMinBid f,
     bp_MinFee := fl_builderMinFee f, bp_BatchTicks := fl_builderTicksMs f, bp_UseDFBA := fl_builderUseDFBA f\<rparr>"

text \<open>\<^verbatim>\<open>strings.TrimSpace\<close> on ASCII text.\<close>

definition trim :: "string \<Rightarrow> string" where
  "trim s = rev (dropWhile (\<lambda>c. blank [c]) (rev (dropWhile (\<lambda>c. blank [c]) s)))"

definition entries :: "char \<Rightarrow> string \<Rightarrow> string list" where
  "entries sep s = filter (\<lambda>x. x \<noteq> []) (map trim (split_on sep s))"

text \<open>\<open>stat\<close> is \<open>None\<close> for a failing call, else whether the path is a directory.\<close>

definition bootnodes :: "(string \<Rightarrow> bool option) \<Rightarrow> (string \<Rightarrow> string option) \<Rightarrow> string \<Rightarrow> string list" where
  "bootnodes stat read p2pBoot =
     (if p2pBoot = [] then []
      else if stat p2pBoot = Some False then (case read p2pBoot of None \<Rightarrow> [] | Some b \<Rightarrow> entries (char_of (10 :: nat)) b)
      else entries (CHR '','') p2pBoot)"

definition net_config :: "(string \<Rightarrow> bool option) \<Rightarrow> (string \<Rightarrow> string option) \<Rightarrow> flags \<Rightarrow> NetConfig" where
  "net_config stat read f = \<lparr>nc_Enable = True, nc_Listen = (if fl_p2pListen f \<noteq> [] then [fl_p2pListen f] else []),
     nc_Bootnodes = bootnodes stat read (fl_p2pBoot f), nc_NAT = fl_p2pNAT f, nc_EnableBeast = fl_enableBeast f,
     nc_EnableTSSDKG = (fl_beastDKGConf f \<noteq> [])\<rparr>"

section \<open>Decrypters\<close>

text \<open>The process-wide decrypter of \<^verbatim>\<open>internal/payload\<close>.\<close>

datatype node_decrypter = DecNoop | DecJson | DecPending | DecBlst private_config

definition node_Decrypt :: "('f, 'p1 :: ab_group_add, 'p2 :: ab_group_add, 'gt) tenv \<Rightarrow> node_decrypter \<Rightarrow> BlockHeader \<Rightarrow> payload \<Rightarrow> tstate
    \<Rightarrow> (decrypt_error + payload option) \<times> tstate" where
  "node_Decrypt E d h p s =
     (case d of
        DecNoop \<Rightarrow> (noop_Decrypt h p, s)
      | DecJson \<Rightarrow> (json_Decrypt (te_unjson E) h p, s)
      | DecPending \<Rightarrow> (pending_Decrypt h p, s)
      | DecBlst conf \<Rightarrow> blst_Decrypt E conf h p s)"

definition install_blst :: "('f, 'p1, 'p2, 'gt) tenv \<Rightarrow> private_config \<Rightarrow> node_decrypter \<times> tstate \<Rightarrow> enable_error + node_decrypter \<times> tstate" where
  "install_blst E conf ds = map_sum id (\<lambda>s. (DecBlst conf, s)) (EnableBLSTDecrypt E conf (snd ds))"

text \<open>The BEAST block of \<^verbatim>\<open>main\<close>: whether shares are exchanged, the decrypter and the share state.\<close>

definition beast_setup :: "('f, 'p1, 'p2, 'gt) tenv \<Rightarrow> (bytes \<Rightarrow> private_config option) \<Rightarrow> fs \<Rightarrow> flags \<Rightarrow> bool \<times> node_decrypter \<times> tstate" where
  "beast_setup E unconf m f =
     (let ds = (if fl_enableBeast f \<and> fl_enableJSON f then DecJson else DecNoop, thresh_init) in
      if \<not> fl_enableBeast f then (False, ds)
      else if fl_beastDKGConf f \<noteq> [] then (True, ds)
      else if fl_beastConf f = [] then (False, ds)
      else case LoadConfig unconf (fl_beastConf f) m of
        Inl _ \<Rightarrow> (False, ds)
      | Inr conf \<Rightarrow>
          (bc_Mode conf = ''threshold'' \<or> bc_Threshold conf > 0,
           case install_blst E conf ds of Inl _ \<Rightarrow> ds | Inr ds' \<Rightarrow> ds'))"

section \<open>Key generation at start\<close>

text \<open>Both transports implement the optional interface.\<close>

fun is_TSSDKGTransport :: "transport \<Rightarrow> bool" where
  "is_TSSDKGTransport NoopTransport = True"
| "is_TSSDKGTransport (Libp2p t) = True"

datatype 'f dkg_boot = DkgOff | DkgError string | DkgStartError "'f runner" | DkgRunning BeastDKGConfig "'f runner"

definition maybeStartBeastDKG :: "('f, 'p1, 'p2, 'gt) renv \<Rightarrow> (bytes \<Rightarrow> BeastDKGConfig option) \<Rightarrow> int \<Rightarrow> (bytes \<times> bytes) option
    \<Rightarrow> beastSessionState option \<Rightarrow> fs \<Rightarrow> transport \<Rightarrow> string \<Rightarrow> node_decrypter \<Rightarrow> 'f dkg_boot \<times> node_decrypter \<times> metric list" where
  "maybeStartBeastDKG R unjson now ks st m t confPath d =
     (let failed = (\<lambda>r. [Inc ''beast_dkg_total'' [(''result'', r)]]) in
      if confPath = [] then (DkgOff, d, [])
      else if \<not> is_TSSDKGTransport t then (DkgError ''skip'', d, failed ''skip'')
      else case LoadBeastDKGConfig unjson confPath m of
        Inl _ \<Rightarrow> (DkgError ''config_error'', d, failed ''config_error'')
      | Inr cfg \<Rightarrow>
     (case NewBeastDKGRunner now (R\<lparr>rv_cfg := cfg\<rparr>) of
        Inl _ \<Rightarrow> (DkgError ''init_error'', d, failed ''init_error'')
      | Inr r \<Rightarrow>
     (case runner_Start (R\<lparr>rv_cfg := cfg\<rparr>) now ks st r of
        (False, r) \<Rightarrow> (DkgStartError r, d, failed ''start_error'')
      | (True, r) \<Rightarrow> (DkgRunning cfg r, DecPending, []))))"

definition dkg_private_config :: "BeastDKGConfig \<Rightarrow> BeastDKGResult \<Rightarrow> private_config" where
  "dkg_private_config cfg res = \<lparr>bc_Mode = ''batched'', bc_GroupPubKey = dr_GroupPubKey res, bc_Committee = [],
     bc_Threshold = dc_Threshold cfg, bc_Index = dc_Index cfg, bc_Share = dr_ShareScalar res, bc_BatchN = dc_N cfg\<rparr>"

text \<open>
  One tick of the polling goroutine, \<open>res\<close> what \<^verbatim>\<open>r.Result\<close> returns: whether it goes on, the
  decrypter, the share state and the metrics.
\<close>

definition poll_tick :: "('f, 'p1, 'p2, 'gt) tenv \<Rightarrow> BeastDKGConfig \<Rightarrow> BeastDKGResult option \<Rightarrow> node_decrypter \<times> tstate
    \<Rightarrow> bool \<times> (node_decrypter \<times> tstate) \<times> metric list" where
  "poll_tick E cfg res ds =
     (case res of None \<Rightarrow> (True, ds, [])
      | Some r \<Rightarrow>
     (case install_blst E (dkg_private_config cfg r) ds of
        Inl _ \<Rightarrow> (False, ds, [Inc ''beast_dkg_total'' [(''result'', ''decrypt_enable_error'')]])
      | Inr ds' \<Rightarrow> (False, ds', [])))"

section \<open>The assembled node\<close>

text \<open>\<^verbatim>\<open>main\<close> calls no other setter of the consensus service.\<close>

definition cons_wiring :: "flags \<Rightarrow> wiring" where
  "cons_wiring f =
     (let w = NewWithSub;
          w = (if fl_enableBuilder f then SetBuilderPolicy (flag_policy f) w else w);
          w = (if fl_feeSink f \<noteq> [] then SetFeeSink True w else w)
      in SetPayloadContainer (NewContainer (main_pools (fl_enableBeast f))) w)"

text \<open>The variables \<^verbatim>\<open>main\<close> sets before the services start.\<close>

definition main_env :: "flags \<Rightarrow> start_env \<Rightarrow> start_env" where
  "main_env f e = e\<lparr>se_builder := se_builder e \<or> fl_enableBuilder f, se_beast := se_beast e \<or> fl_enableBeast f\<rparr>"

text \<open>
  The handlers \<^verbatim>\<open>main\<close> installs; \<^verbatim>\<open>runner.Start\<close> installs its own unless it returns early with a
  key share from disk.
\<close>

definition dkg_listens :: "(bytes \<times> bytes) option \<Rightarrow> 'f dkg_boot \<Rightarrow> bool" where
  "dkg_listens ks boot =
     (case boot of DkgRunning _ _ \<Rightarrow> (case ks of Some (pub, priv) \<Rightarrow> length priv \<noteq> 32 | None \<Rightarrow> True) | DkgStartError _ \<Rightarrow> True | _ \<Rightarrow> False)"

fun wire_transport :: "bool \<Rightarrow> bool \<Rightarrow> transport \<Rightarrow> transport" where
  "wire_transport dkg shares NoopTransport = NoopTransport"
| "wire_transport dkg shares (Libp2p t) =
     (let t = OnTx (OnQBFT t); t = (if dkg then OnTSSDKG t else t) in Libp2p (if shares then OnBeastShare t else t))"

record 'f node =
  nd_bus :: Bus
  nd_api :: api_service
  nd_net :: "transport option"
  nd_cons :: wiring
  nd_dec :: node_decrypter
  nd_thresh :: tstate
  nd_dkg :: "'f dkg_boot"

text \<open>\<open>start_net\<close> is \<^verbatim>\<open>StartTransportIfEnabled\<close>.\<close>

definition node_main :: "(NetConfig \<Rightarrow> transport) \<Rightarrow> (string \<Rightarrow> bool option) \<Rightarrow> (string \<Rightarrow> string option) \<Rightarrow> ('f, 'p1, 'p2, 'gt) tenv
    \<Rightarrow> (bytes \<Rightarrow> private_config option) \<Rightarrow> ('f, 'p1, 'p2, 'gt) renv \<Rightarrow> (bytes \<Rightarrow> BeastDKGConfig option) \<Rightarrow> int \<Rightarrow> (bytes \<times> bytes) option
    \<Rightarrow> beastSessionState option \<Rightarrow> fs \<Rightarrow> flags \<Rightarrow> 'f node \<times> metric list" where
  "node_main start_net stat read E unconf R undkg now ks st m f =
     (let apis = SetTxPublisher (api_New (fl_upstream f));
          (beastThreshold, d, ts) = beast_setup E unconf m f;
          nd = \<lparr>nd_bus = bus_New 256, nd_api = apis, nd_net = None, nd_cons = cons_wiring f, nd_dec = d, nd_thresh = ts, nd_dkg = DkgOff\<rparr>
      in if \<not> fl_p2pEnable f then (nd, [])
         else let t = start_net (net_config stat read f);
                  (boot, d, ms) = maybeStartBeastDKG R undkg now ks st m t (fl_beastDKGConf f) d;
                  shares = (fl_enableBeast f \<and> beastThreshold)
              in (nd\<lparr>nd_net := Some (wire_transport (dkg_listens ks boot) shares t), nd_dec := d, nd_dkg := boot,
                     nd_thresh := (if shares then SetThresholdSharePublisher True ts else ts), nd_api := SetTxBroadcaster apis\<rparr>, ms))"

section \<open>The running node\<close>

text \<open>
  The closures: the event a duty or a transaction of the API becomes, and the one of a message
  or a transaction of the network. The events of duties and transactions carry no coordinates.
\<close>

definition duty_event :: "string option \<Rightarrow> bytes \<Rightarrow> Event" where
  "duty_event ctx b = \<lparr>ev_Kind = KindDuty, ev_Height = 0, ev_Round = 0, ev_Body = BodyBytes b, ev_TraceID = fst (trace_FromContext ctx)\<rparr>"

definition tx_event :: "string option \<Rightarrow> payload \<Rightarrow> Event" where
  "tx_event ctx pl = \<lparr>ev_Kind = KindTx, ev_Height = 0, ev_Round = 0, ev_Body = BodyPayload pl, ev_TraceID = fst (trace_FromContext ctx)\<rparr>"

definition qbft_event :: "Message \<Rightarrow> Event" where
  "qbft_event msg = \<lparr>ev_Kind = KindConsensus, ev_Height = m_Height msg, ev_Round = m_Round msg, ev_Body = BodyMessage msg, ev_TraceID = m_TraceID msg\<rparr>"

definition gossip_event :: "payload \<Rightarrow> Event" where
  "gossip_event pl = \<lparr>ev_Kind = KindTx, ev_Height = 0, ev_Round = 0, ev_Body = BodyPayload pl, ev_TraceID = []\<rparr>"

record node_rt =
  rt_bus :: Bus
  rt_api :: api_service
  rt_net :: "transport option"
  rt_svc :: Service
  rt_thresh :: tstate

record node_codec =
  nc_jtx :: "TxEnvelope \<Rightarrow> bytes option"
  nc_utx :: "bytes \<Rightarrow> TxEnvelope option"
  nc_uqbft :: "bytes \<Rightarrow> QBFT option"
  nc_ushare :: "bytes \<Rightarrow> BeastShare option"

text \<open>A call of the API into the node: the bus, or a message for the network.\<close>

fun api_call :: "libp2p \<Rightarrow> node_codec \<Rightarrow> api_effect \<Rightarrow> node_rt \<Rightarrow> node_rt \<times> (string \<times> bytes) list" where
  "api_call L C (OnPublish ctx b) n = (n\<lparr>rt_bus := Publish (duty_event ctx b) (rt_bus n)\<rparr>, [])"
| "api_call L C (OnPublishTx ctx pl) n = (n\<lparr>rt_bus := Publish (tx_event ctx pl) (rt_bus n)\<rparr>, [])"
| "api_call L C (ApiBroadcastTx pl) n =
     (n, case rt_net n of None \<Rightarrow> []
         | Some t \<Rightarrow> (case fst (net_BroadcastTx L (nc_jtx C) pl t) of Inr (Some m) \<Rightarrow> [m] | _ \<Rightarrow> []))"

fun api_calls :: "libp2p \<Rightarrow> node_codec \<Rightarrow> api_effect list \<Rightarrow> node_rt \<Rightarrow> node_rt \<times> (string \<times> bytes) list" where
  "api_calls L C [] n = (n, [])"
| "api_calls L C (e # es) n =
     (let (n1, out1) = api_call L C e n; (n2, out2) = api_calls L C es n1 in (n2, out1 @ out2))"

definition http_step :: "libp2p \<Rightarrow> node_codec \<Rightarrow> api_env \<Rightarrow> request \<Rightarrow> node_rt \<Rightarrow> response \<times> node_rt \<times> (string \<times> bytes) list" where
  "http_step L C e r n = (let (resp, ms, eff) = serve e (rt_api n) r in (resp, api_calls L C eff n))"

text \<open>A message of a topic whose loop runs.\<close>

definition gossip_step :: "node_codec \<Rightarrow> string \<Rightarrow> bytes \<Rightarrow> node_rt \<Rightarrow> node_rt" where
  "gossip_step C topic b n =
     (case rt_net n of
        Some (Libp2p t) \<Rightarrow>
          if topic \<notin> lt_loops t then n
          else if topic = TopicQBFT then
            (case fst (loopQBFT (nc_uqbft C) b t) of None \<Rightarrow> n | Some msg \<Rightarrow> n\<lparr>rt_bus := Publish (qbft_event msg) (rt_bus n)\<rparr>)
          else if topic = TopicTx then
            (case fst (loopTx (nc_utx C) b t) of None \<Rightarrow> n | Some pl \<Rightarrow> n\<lparr>rt_bus := Publish (gossip_event pl) (rt_bus n)\<rparr>)
          else if topic = TopicTxPrivate then
            (case fst (loopTxPriv (nc_utx C) b t) of None \<Rightarrow> n | Some pl \<Rightarrow> n\<lparr>rt_bus := Publish (gossip_event pl) (rt_bus n)\<rparr>)
          else if topic = TopicBeastShare then
            (case fst (loopBeastShare (nc_ushare C) b t) of None \<Rightarrow> n
             | Some w \<Rightarrow> n\<lparr>rt_thresh := HandleThresholdShare (wb_Height w) (wb_Index w) (wb_Share w) (rt_thresh n)\<rparr>)
          else n
      | _ \<Rightarrow> n)"

text \<open>The consensus loop takes events off the bus, as many as there are environments for.\<close>

fun loop_steps :: "event_env list \<Rightarrow> node_rt \<Rightarrow> fs \<Rightarrow> (node_rt option \<times> fs) \<times> effect list" where
  "loop_steps [] n m = ((Some n, m), [])"
| "loop_steps (env # envs) n m =
     (case receive (rt_bus n) of
        (None, b) \<Rightarrow> ((Some n, m), [])
      | (Some ev, b) \<Rightarrow>
          (case on_event env ev (rt_svc n) m of
             ((None, m'), _, eff) \<Rightarrow> ((None, m'), eff)
           | ((Some s', m'), _, eff) \<Rightarrow>
               (let (res, eff') = loop_steps envs (n\<lparr>rt_bus := b, rt_svc := s'\<rparr>) m' in (res, eff @ eff'))))"

section \<open>A node of \<^verbatim>\<open>main\<close> keeps to itself\<close>

text \<open>A service without log, broadcaster and signer, with its state in memory.\<close>

definition local_only :: "Service \<Rightarrow> bool" where
  "local_only s \<longleftrightarrow> sv_wal s = None \<and> \<not> sv_bc s \<and> \<not> sv_signer s \<and> (\<exists>x. sv_store s = MemStore x)"

definition fee_only :: "effect list \<Rightarrow> bool" where
  "fee_only eff \<longleftrightarrow> (\<forall>x \<in> set eff. \<exists>r. x = FeeRecord r)"

lemma build_block_wiring [simp]:
  "sv_bc (fst (build_block env msg s)) = sv_bc s" "sv_pool (fst (build_block env msg s)) = sv_pool s"
  by (subst build_block_frame, simp)+

lemma local_message:
  assumes "local_only s"
  shows "res_status (on_message env msg s m) \<noteq> Crashed" and "local_only (res_svc (on_message env msg s m))"
    and "res_fs (on_message env msg s m) = m" and "fee_only (res_eff (on_message env msg s m))"
    and "sv_pool (res_svc (on_message env msg s m)) = sv_pool s"
  using assms
  by (auto simp: on_message_def on_verified_def process_save_def block_value_def broadcast_vote_def log_vote_def store_save_def
      mem_SaveLastState_def local_only_def fee_only_def Let_def case_prod_beta split: sum.splits option.splits if_splits)

lemma local_event:
  assumes "local_only s" and "on_event env ev s m = ((so, m'), ms, eff)"
  shows "m' = m" and "fee_only eff" and "so = Some s' \<Longrightarrow> local_only s'" and "so \<noteq> None"
    and "so = Some s' \<Longrightarrow> sv_pool s \<noteq> None \<Longrightarrow> sv_pool s' \<noteq> None"
  using assms(2)
  by (cases rule: on_event_cases; use assms(1) local_message in
      \<open>force simp: local_only_def fee_only_def on_tx_def Let_def split: option.splits body.splits prod.splits\<close>)+

lemma cons_wiring_fields [simp]:
  "w_sub (cons_wiring f)" "w_wal (cons_wiring f) = None" "w_store (cons_wiring f) = None" "\<not> w_bc (cons_wiring f)" "\<not> w_signer (cons_wiring f)"
  "w_v (cons_wiring f) = None" "w_st (cons_wiring f) = None" "w_pool (cons_wiring f) = Some (NewContainer (main_pools (fl_enableBeast f)))"
  by (simp_all add: cons_wiring_def wiring_defs Let_def)

lemma local_wiring:
  assumes "Start e J (cons_wiring f) m = (Some s, ms)"
  shows "local_only s" and "sv_pool s = Some (NewContainer (main_pools (fl_enableBeast f)))"
  using assms by (auto simp: Start_def local_only_def Let_def case_prod_beta)


section \<open>From one node's API to another node's pool\<close>

lemma Publish_room: "length (bus_queue b) < bus_cap b \<Longrightarrow> bus_queue (Publish ev b) = bus_queue b @ [ev]"
  by (simp add: Publish_def)

lemma loop_reaches:
  assumes "local_only (rt_svc n)" and "sv_pool (rt_svc n) \<noteq> None" and "bus_queue (rt_bus n) = evs @ [gossip_event pl]" and "length envs = length evs"
  shows "\<exists>n' s c. fst (fst (loop_steps (envs @ [env]) n m)) = Some n' \<and> bus_queue (rt_bus n') = []
    \<and> fst (fst (run_events (zip envs evs) (rt_svc n) m)) = Some s \<and> sv_pool s = Some c
    \<and> sv_pool (rt_svc n') = Some (fst (snd (container_Add (be_sha (ee_build env), ee_early env) (be_now (ee_build env)) pl c)))"
  using assms
proof (induction evs arbitrary: n envs)
  case Nil
  then show ?case by (auto simp: receive_def on_event_def on_tx_def gossip_event_def Let_def case_prod_beta)
next
  case (Cons ev evs)
  obtain x xs where envs: "envs = x # xs" using Cons.prems(4) by (cases envs) auto
  obtain so m1 ms1 eff1 where one: "on_event x ev (rt_svc n) m = ((so, m1), ms1, eff1)" by (metis surj_pair)
  note l = local_event [OF Cons.prems(1) one]
  obtain s1 where s1: "so = Some s1" "local_only s1" "sv_pool s1 \<noteq> None" "m1 = m" using l(1,3,4,5) Cons.prems(2) by blast
  let ?n = "n\<lparr>rt_bus := (rt_bus n)\<lparr>bus_queue := evs @ [gossip_event pl]\<rparr>, rt_svc := s1\<rparr>"
  from Cons.IH [of ?n xs] s1 Cons.prems(4) envs
  obtain n' s c where "fst (fst (loop_steps (xs @ [env]) ?n m)) = Some n'" "bus_queue (rt_bus n') = []"
    "fst (fst (run_events (zip xs evs) s1 m)) = Some s" "sv_pool s = Some c"
    "sv_pool (rt_svc n') = Some (fst (snd (container_Add (be_sha (ee_build env), ee_early env) (be_now (ee_build env)) pl c)))" by auto
  then show ?case using Cons.prems(3) envs one s1 by (simp add: receive_def Let_def case_prod_beta)
qed

lemma api_broadcasts:
  assumes "rq_Path r = ''/v1/tx/plain''" and "ae_txapi e" and "tx_ok (ae_untx e) (ae_beast e) r pl"
    and "as_onPublishTx (rt_api a)" and "as_txb (rt_api a)" and "rt_net a = Some (Libp2p t)"
    and "TopicTx \<in> lt_topics t" and "TxFromInternal pl = Some w" and "nc_jtx C w = Some wb" and "\<And>topic b. lp_publish L topic b"
  shows "\<exists>resp a' topic b. http_step L C e r a = (resp, a', [(topic, b)]) \<and> rs_code resp = 202
    \<and> rt_bus a' = Publish (tx_event (Some (traceID (ae_now e) r)) pl) (rt_bus a)
    \<and> fst (BroadcastTx L (nc_jtx C) pl t) = Inr (Some (topic, b))"
proof -
  obtain resp ms eff where run: "serve e (rt_api a) r = (resp, ms, eff)" by (metis prod_cases3)
  then have h: "handleTxPlain (ae_untx e) (ae_beast e) (ae_now e) (ae_ms e) (rt_api a) r = (resp, ms, eff)"
    using assms(1,2) by (simp add: serve_def)
  have eff: "rs_code resp = 202" "eff = [OnPublishTx (Some (traceID (ae_now e) r)) pl, ApiBroadcastTx pl]"
    using handleTxPlain_accept(1) [of "ae_untx e" "ae_beast e" "ae_now e" "ae_ms e" "rt_api a" r]
      handleTxPlain_accept(2) [OF assms(3), of "ae_now e" "ae_ms e" "rt_api a"] assms(3-5) by (auto simp: h)
  have "\<exists>topic. fst (BroadcastTx L (nc_jtx C) pl t) = Inr (Some (topic, wb))"
    using assms(7-10) by (simp add: BroadcastTx_def encode_on_def publish_on_def)
  then show ?thesis using run eff assms(6) by (auto simp: http_step_def)
qed


section \<open>A node with key generation never decrypts\<close>

text \<open>What happens to the decrypter and the share state once the generation runs.\<close>

datatype dkg_op = DkPoll "BeastDKGResult option" | DkShare u64 int bytes | DkDecrypt BlockHeader payload | DkEnsure u64 | DkPublisher bool

fun dkg_op_step :: "('f, 'p1 :: ab_group_add, 'p2 :: ab_group_add, 'gt) tenv \<Rightarrow> BeastDKGConfig \<Rightarrow> dkg_op \<Rightarrow> bool \<times> node_decrypter \<times> tstate
    \<Rightarrow> bool \<times> node_decrypter \<times> tstate" where
  "dkg_op_step E cfg (DkPoll res) (polling, ds) = (if polling then (case poll_tick E cfg res ds of (p, ds', ms) \<Rightarrow> (p, ds')) else (polling, ds))"
| "dkg_op_step E cfg (DkShare h i v) (polling, d, s) = (polling, d, HandleThresholdShare h i v s)"
| "dkg_op_step E cfg (DkDecrypt h p) (polling, d, s) = (polling, d, snd (node_Decrypt E d h p s))"
| "dkg_op_step E cfg (DkEnsure h) (polling, d, s) = (polling, d, maybeEnsureShare E h s)"
| "dkg_op_step E cfg (DkPublisher b) (polling, d, s) = (polling, d, SetThresholdSharePublisher b s)"

text \<open>Before the result the decrypter is the pending one, after it a batched one without a publisher's work.\<close>

definition dkg_idle :: "BeastDKGConfig \<Rightarrow> bool \<times> node_decrypter \<times> tstate \<Rightarrow> bool" where
  "dkg_idle cfg x \<longleftrightarrow> (case x of (polling, d, s) \<Rightarrow>
     (d = DecPending \<or> (\<exists>res. d = DecBlst (dkg_private_config cfg res))) \<and> batch_own (dc_Index cfg) s \<and> \<not> threshEnabled s
     \<and> Threshold_Decrypt.published s = [])"

lemma batch_quiet:
  assumes "batch_own i s" and "\<not> threshEnabled s" and "Threshold_Decrypt.published s = []" and "bc_Mode conf = ''batched''" and "bc_Index conf = i"
  shows "batch_own i (snd (blst_Decrypt E conf h p s)) \<and> \<not> threshEnabled (snd (blst_Decrypt E conf h p s))
    \<and> Threshold_Decrypt.published (snd (blst_Decrypt E conf h p s)) = []"
proof -
  have "batch_own i (snd (blst_Decrypt E conf h p s))"
    using batch_own_step [of conf s E "TDecrypt h p"] assms(1,5) by simp
  moreover have "threshEnabled (recordBatchedShare a b c v s) = threshEnabled s"
      "Threshold_Decrypt.published (recordBatchedShare a b c v s) = Threshold_Decrypt.published s" for a b c v
    by (simp_all add: recordBatchedShare_def Let_def)
  ultimately show ?thesis using assms(2-4)
    by (auto simp: blst_Decrypt_def decryptBatched_def Let_def split: payload.splits sum.splits)
qed

lemma dkg_idle_step: "dkg_idle cfg x \<Longrightarrow> dkg_idle cfg (dkg_op_step E cfg op x)"
proof -
  assume idle: "dkg_idle cfg x"
  obtain polling d s where x: "x = (polling, d, s)" by (cases x) auto
  have conf: "bc_Mode (dkg_private_config cfg res) = ''batched''" "bc_Index (dkg_private_config cfg res) = dc_Index cfg" for res
    by (simp_all add: dkg_private_config_def)
  note s = idle [unfolded x dkg_idle_def, simplified]
  show ?thesis
  proof (cases op)
    case (DkPoll res)
    then show ?thesis using s x conf
      by (auto simp: dkg_idle_def poll_tick_def install_blst_def EnableBLSTDecrypt_def split: option.splits)
  next
    case (DkDecrypt h p)
    then show ?thesis using s x batch_quiet [where E = E and s = s, OF _ _ _ conf]
      by (auto simp: dkg_idle_def node_Decrypt_def)
  next
    case (DkShare h i v)
    then show ?thesis using s x
      by (auto simp: dkg_idle_def HandleThresholdShare_def batch_own_def snapshotBatchedShares_def Let_def)
  next
    case (DkEnsure h)
    then show ?thesis using s x by (simp add: dkg_idle_def maybeEnsureShare_def)
  next
    case (DkPublisher b)
    then show ?thesis using s x by (simp add: dkg_idle_def SetThresholdSharePublisher_def batch_own_def snapshotBatchedShares_def)
  qed
qed

text \<open>
  C39: A node started with a key generation configuration of any threshold but one never decrypts a
  private transaction: whatever results, shares and blocks it sees, every decryption fails
  with an error, before the generation ends and after it, and the node never releases a share.
  The generated key is installed in batched mode, which knows only the node's own partial
  decryption, with the committee's threshold.
\<close>

theorem dkg_node_never_decrypts:
  assumes "fl_enableBeast f" and "fl_p2pEnable f"
    and "node_main start_net stat read E unconf R undkg now ks st m f = (nd, ms0)" and "nd_dkg nd = DkgRunning cfg r"
    and "dc_Threshold cfg \<noteq> 1" and "\<And>m. finite (dom m) \<Longrightarrow> range_order m (te_keys E m)"
    and "fold (dkg_op_step E cfg) ops (True, nd_dec nd, nd_thresh nd) = (polling, d, s)"
  shows "(\<exists>e. fst (node_Decrypt E d hdr (Private tx) s) = Inl e) \<and> Threshold_Decrypt.published s = []"
proof -
  have dkg: "fl_beastDKGConf f \<noteq> []" "nd_dec nd = DecPending" "nd_thresh nd \<in> {thresh_init, SetThresholdSharePublisher True thresh_init}"
    using assms(1-4) by (auto simp: node_main_def beast_setup_def maybeStartBeastDKG_def Let_def split: if_splits sum.splits prod.splits bool.splits)
  then have "dkg_idle cfg (True, nd_dec nd, nd_thresh nd)"
    using batch_own_init [of "dc_Index cfg"]
    by (auto simp: dkg_idle_def thresh_init_def SetThresholdSharePublisher_def batch_own_def snapshotBatchedShares_def)
  then have "dkg_idle cfg (fold (dkg_op_step E cfg) ops (True, nd_dec nd, nd_thresh nd))"
    by (induction ops rule: rev_induct) (simp_all add: dkg_idle_step)
  then have s: "d = DecPending \<or> (\<exists>res. d = DecBlst (dkg_private_config cfg res))" "batch_own (dc_Index cfg) s" "Threshold_Decrypt.published s = []"
    by (simp_all add: assms(7) dkg_idle_def)
  from s(1) show ?thesis
  proof
    assume "d = DecPending"
    then show ?thesis using s(3) by (simp add: node_Decrypt_def pending_Decrypt_def)
  next
    assume "\<exists>res. d = DecBlst (dkg_private_config cfg res)"
    then obtain res where d: "d = DecBlst (dkg_private_config cfg res)" by blast
    have "\<exists>e. fst (blst_Decrypt E (dkg_private_config cfg res) hdr (Private tx) s) = Inl e"
      by (rule batched_fails) (use assms(5,6) s(2) in \<open>simp_all add: dkg_private_config_def\<close>)
    then show ?thesis using d s(3) by (simp add: node_Decrypt_def)
  qed
qed

section \<open>Examples\<close>

definition demo_flags :: flags where
  "demo_flags = \<lparr>fl_upstream = [], fl_p2pEnable = True, fl_p2pListen = [], fl_p2pBoot = [], fl_p2pNAT = False, fl_feeSink = ''u'',
     fl_enableBeast = True, fl_enableJSON = False, fl_beastConf = [], fl_beastDKGConf = ''c'', fl_enableBuilder = True,
     fl_builderMaxN = 0, fl_builderWindow = 0, fl_builderMinBid = 0, fl_builderMinFee = 0, fl_builderTicksMs = 0, fl_builderUseDFBA = False\<rparr>"

lemma main_starts: "\<exists>s ms. Start e J (cons_wiring f) m = (Some s, ms)"
  by (simp add: Start_def Let_def case_prod_beta)


definition posted_tx :: payload where
  "posted_tx = Plaintext \<lparr>pt_From = ''A'', pt_Nonce = 0, pt_Gas = 1, pt_Fee = 2, pt_Sig = replicate 32 7\<rparr>"

definition demo_wire :: TxEnvelope where
  "demo_wire = the (TxFromInternal posted_tx)"

definition demo_codec :: node_codec where
  "demo_codec = \<lparr>nc_jtx = (\<lambda>w. if w = demo_wire then Some [1] else None), nc_utx = (\<lambda>_. Some demo_wire), nc_uqbft = (\<lambda>_. None), nc_ushare = (\<lambda>_. None)\<rparr>"

definition demo_tx_api :: api_env where
  "demo_tx_api = demo_api\<lparr>ae_untx := (\<lambda>_. Some demo_wire)\<rparr>"

definition demo_tx_request :: request where
  "demo_tx_request = demo_request\<lparr>rq_Path := ''/v1/tx/plain''\<rparr>"

definition demo_rt :: "Libp2pTransport \<Rightarrow> Service \<Rightarrow> node_rt" where
  "demo_rt t s = \<lparr>rt_bus = bus_New 256, rt_api = SetTxBroadcaster (SetTxPublisher (api_New [])), rt_net = Some (Libp2p t), rt_svc = s, rt_thresh = thresh_init\<rparr>"

definition demo_joined :: Libp2pTransport where
  "demo_joined = OnTx (snd (transport_Start demo_libp2p demo_net))"

lemma demo_wire_tx: "TxFromInternal posted_tx = Some demo_wire"
  using TxFromInternal_total [of posted_tx] by (auto simp: demo_wire_def)

lemma demo_joined_state: "lt_onTx demo_joined" "TopicTx \<in> lt_topics demo_joined" "{TopicTx, TopicTxPrivate} \<subseteq> lt_loops demo_joined"
  by (simp_all add: demo_joined_def OnTx_def demo_net_def p2p_BuildTransport_def transport_Start_def demo_libp2p_def p2p_start_topics_def
      join_topic_def subscribe_topic_def start_optional_def join_optional_def Let_def)

lemma demo_tx_admitted: "tx_ok (ae_untx demo_tx_api) (ae_beast demo_tx_api) demo_tx_request posted_tx"
proof -
  have "tx_ToInternal demo_wire = Some posted_tx" by (rule tx_roundtrip [OF demo_wire_tx])
  moreover have "Validate posted_tx" "Type_of posted_tx \<noteq> ''private_v1''" by code_simp+
  ultimately show ?thesis
    by (simp add: tx_ok_def demo_tx_api_def demo_tx_request_def demo_request_def ParseTx_def max_body_def)
qed


lemma demo_flag_beast: "fl_enableBeast demo_flags" "fl_p2pEnable demo_flags"
  by (simp_all add: demo_flags_def)

definition demo_dkg_node :: "f5 node \<times> metric list" where
  "demo_dkg_node = node_main (\<lambda>cfg. Libp2p (p2p_BuildTransport cfg)) (\<lambda>_. None) (\<lambda>_. None) demo_te (\<lambda>_. None) (pair_env 1) (\<lambda>_. Some (pair_cfg 1)) 1
     (Some ([], replicate 32 1)) None [''c'' \<mapsto> []] demo_flags"

lemma demo_dkg_runs: "\<exists>r. nd_dkg (fst demo_dkg_node) = DkgRunning (pair_cfg 1) r"
proof -
  have valid: "dkg_Validate (pair_cfg 1) = Inr ()" by code_simp
  have "(pair_env 1)\<lparr>rv_cfg := pair_cfg 1\<rparr> = pair_env 1" by (simp add: pair_env_def)
  then show ?thesis using valid
    by (simp add: demo_dkg_node_def node_main_def beast_setup_def maybeStartBeastDKG_def LoadBeastDKGConfig_def NewBeastDKGRunner_def
        runner_Start_def emit_def demo_flags_def Let_def)
qed

theorem dkg_node_never_decrypts_witness:
  "\<exists>polling d s e. fold (dkg_op_step demo_te (pair_cfg 1)) [DkPoll None, DkPoll (Some \<lparr>dr_Index = 1, dr_Threshold = 2, dr_GroupPubKey = [1], dr_ShareScalar = []\<rparr>)]
       (True, nd_dec (fst demo_dkg_node), nd_thresh (fst demo_dkg_node)) = (polling, d, s)
     \<and> fst (node_Decrypt demo_te d \<lparr>bh_Height = 8, bh_Round = 0\<rparr> (Private \<lparr>pv_From = [], pv_Nonce = 0, pv_Ciphertext = [1], pv_EphemeralKey = [],
          pv_TargetHeight = 7, pv_BatchIndex = 1, pv_PuncturedKey = []\<rparr>) s) = Inl e"
proof -
  obtain r where r: "nd_dkg (fst demo_dkg_node) = DkgRunning (pair_cfg 1) r" using demo_dkg_runs by blast
  obtain polling d s where run: "fold (dkg_op_step demo_te (pair_cfg 1)) [DkPoll None, DkPoll (Some \<lparr>dr_Index = 1, dr_Threshold = 2, dr_GroupPubKey = [1], dr_ShareScalar = []\<rparr>)]
       (True, nd_dec (fst demo_dkg_node), nd_thresh (fst demo_dkg_node)) = (polling, d, s)" by (metis prod_cases3)
  have main: "node_main (\<lambda>cfg. Libp2p (p2p_BuildTransport cfg)) (\<lambda>_. None) (\<lambda>_. None) demo_te (\<lambda>_. None) (pair_env 1) (\<lambda>_. Some (pair_cfg 1)) 1
     (Some ([], replicate 32 1)) None [''c'' \<mapsto> []] demo_flags = (fst demo_dkg_node, snd demo_dkg_node)" by (simp add: demo_dkg_node_def)
  have "(\<exists>e. fst (node_Decrypt demo_te d \<lparr>bh_Height = 8, bh_Round = 0\<rparr> (Private \<lparr>pv_From = [], pv_Nonce = 0, pv_Ciphertext = [1], pv_EphemeralKey = [],
          pv_TargetHeight = 7, pv_BatchIndex = 1, pv_PuncturedKey = []\<rparr>) s) = Inl e) \<and> Threshold_Decrypt.published s = []"
    by (rule dkg_node_never_decrypts [OF demo_flag_beast main r _ demo_te_keys run]) simp_all
  with run show ?thesis by blast
qed

end
