(* ===== verification/Spec2Isabelle.thy ===== *)
theory Spec2Isabelle
  imports Consensus Consensus_Extras Dkg_Engine Lifecycle Event_Bus Wire Tss_Session Threshold_Decrypt
    Runner_Committee Metrics Monitoring Api Transport Tools Bls_Sig Node
begin

text \<open>
  A verification of the Aequa DVT sequencer, a node of a distributed validator written in Go.

  \<^bold>\<open>The program.\<close> A node receives duties and transactions over HTTP (\<^verbatim>\<open>internal/api\<close>) and
  messages over gossip (\<^verbatim>\<open>internal/p2p\<close>), and puts both on a bounded bus (\<^verbatim>\<open>pkg/bus\<close>). One loop
  (\<^verbatim>\<open>internal/consensus\<close>) takes the events off the bus: transactions go to typed mempools
  (\<^verbatim>\<open>internal/payload\<close>), messages go through the verifier and the state machine of QBFT
  (\<^verbatim>\<open>internal/consensus/qbft\<close>), and a proposal makes the node build a block with the builder or
  the auction solver (\<^verbatim>\<open>internal/dfba\<close>). Coordinates, votes and key shares are kept in files
  (\<^verbatim>\<open>internal/state\<close>, \<^verbatim>\<open>qbft/wal.go\<close>, \<^verbatim>\<open>internal/tss/dkg\<close>). Private transactions are encrypted
  for a committee (\<^verbatim>\<open>internal/beast\<close>) that generates its key over the network
  (\<^verbatim>\<open>internal/tss/dkg/beast_runner_blst.go\<close>) and decrypts with a threshold of shares
  (\<^verbatim>\<open>internal/payload/private_v1\<close>). \<^verbatim>\<open>cmd/dvt-node\<close> wires these together, and
  \<^verbatim>\<open>pkg/lifecycle\<close> starts and stops them.

  \<^bold>\<open>How code becomes definitions.\<close> A struct is a record whose fields carry a prefix, an
  interface with known implementations a datatype. A method is a function from the receiver and
  its arguments to its results, the receiver afterwards and, where it has them, the metrics it
  emits (\<open>metric\<close> in \<open>Aequa_Prelude\<close>) and its calls into other components. \<^verbatim>\<open>uint64\<close> is
  \<open>u64\<close>, a 64-bit word; \<^verbatim>\<open>int\<close> is \<open>int\<close> where only sizes and indices are computed. An error is
  the left side of a sum. A Go map is a partial function; where its iteration order matters the
  order is an argument that lists the domain. Operations under one mutex are single steps;
  where the code has no mutex (compare-and-swap loops, the counter cells of the metrics, the
  bus) the steps of different goroutines interleave. Third-party code and the outside world are
  arguments: \<^verbatim>\<open>blst\<close>, SHA-256, AES-GCM, Ed25519 and X25519, JSON, libp2p, the HTTP upstream,
  the clock and the random source. What is relied on of them stands as a named hypothesis
  (\<open>scalar_ok\<close>, \<open>g1_ok\<close>, \<open>g2_ok\<close>, \<open>pairing_ok\<close>, \<open>bls_ok\<close>, \<open>crypto_ok\<close>, \<open>json_codec\<close> and others),
  and a witness instantiates each with a small concrete function.

  \<^bold>\<open>Theories by part.\<close>

  \<^item> Shared: \<open>Aequa_Prelude\<close> (machine types, metrics, map reading and map order,
    \<^verbatim>\<open>sort.SliceStable\<close>, and the locale \<open>weak_order\<close> for comparison functions, interpreted for
    the builder, the solver, the pools and the metric keys), \<open>Byte_Codec\<close> (big-endian
    integers), \<open>Atomic_File\<close> (the file system with failing calls and crashes, and the locale
    \<open>file_store\<close> for write to a temporary file, back up, rename), \<open>Cas_Counter\<close> (the locale
    \<open>cas_loop\<close>), \<open>Shamir\<close> (interpolation over a field) and \<open>Blst\<close> (the curve library).

  \<^item> Consensus: \<open>Qbft_Message\<close>, \<open>Qbft_Verifier\<close> (\<^verbatim>\<open>verifier.go\<close>), \<open>Qbft_State\<close> (\<^verbatim>\<open>state.go\<close>),
    \<open>Qbft_WAL\<close> (\<^verbatim>\<open>wal.go\<close>), \<open>State_Store\<close> (\<^verbatim>\<open>internal/state\<close>), \<open>Event_Bus\<close>, \<open>Consensus\<close>
    (\<^verbatim>\<open>service.go\<close>: \<open>Start\<close> and \<open>on_event\<close>, the body of the loop with every call in its order)
    and \<open>Consensus_Extras\<close> (payload manager, webhook sink, test endpoint).

  \<^item> Blocks: \<open>Payloads\<close> (the locale \<open>typed_mempool\<close>), \<open>Nonce_Pool\<close>, \<open>Typed_Pools\<close>,
    \<open>Container\<close>, \<open>Dfba\<close>, \<open>Builder\<close>.

  \<^item> Threshold cryptography: \<open>Ibe\<close>, \<open>Bte\<close>, \<open>Pprf\<close>, \<open>Beast_Engine\<close>, \<open>Feldman\<close>, \<open>Dkg_Ibe\<close>,
    \<open>Bls_Sig\<close> (the package functions), \<open>Beast_Config\<close>, \<open>Tss_Stores\<close>, \<open>Dkg_Engine\<close>,
    \<open>Tss_Session\<close>, \<open>Threshold_Decrypt\<close> (the decrypters and their share state),
    \<open>Beast_Runner\<close> (the networked key generation, with the locale \<open>runner_invariant\<close>) and
    \<open>Runner_Committee\<close> (a committee of runners).

  \<^item> Node: \<open>Wire\<close>, \<open>P2p_Service\<close>, \<open>Transport\<close>, \<open>Api\<close>, \<open>Metrics\<close>, \<open>Monitoring\<close>, \<open>Lifecycle\<close>
    (the locale \<open>staged_services\<close>), \<open>Node\<close> (\<^verbatim>\<open>main\<close> and the node it assembles) and \<open>Tools\<close>
    (\<^verbatim>\<open>beast-keygen\<close>, \<^verbatim>\<open>beast-encrypt\<close> and the generator of key generation files).

  \<^bold>\<open>What is shown.\<close>

  \<^item> Consensus: what \<open>Verify\<close> accepts, exactly, and that no accepted ID repeats; that a commit
    is backed by a leader's proposal and two prepares, a change of round by two voters, and that
    no reachable state panics. Of the service: which blocks it stores, which votes it
    broadcasts, which coordinates a restart finds. Also where it falls short of its purpose:
    with the default verifier every vote is refused, and a rejected commit is signed.

  \<^item> Files: a save is atomic under failing calls and crashes, for all four stores; the vote log
    returns the last completed vote.

  \<^item> Blocks: a pool keeps the first arrival per sender and nonce and its promotion loop ends;
    two nodes with the same contents build the same block, which passes the node's own check,
    whose meaning is given declaratively; what the auction selects.

  \<^item> Cryptography: shares verify exactly when they lie on the committed polynomial; the PRF
    evaluations agree; encryption and threshold decryption are inverse, for the dealt key of the
    tools, for a batch, and for the key that runners end with after any messages; combined
    signatures verify under the sum of the keys. What the runner reports is backed by verified
    shares of a threshold of dealers; one silent member blocks it.

  \<^item> Node: what the API lets through and that its counters are exact; slots within their
    limits under every interleaving; order and rollback of the start; delivery of the bus; a
    transaction posted to one node reaches the pool of another; a node as \<^verbatim>\<open>main\<close> wires it
    broadcasts no vote and writes no file, and one that generated its key fails to decrypt
    unless the threshold is one.

  \<^bold>\<open>Loops and bounds.\<close> No definition takes fuel. Loops over slices are structural; the
  promotion loop of the nonce pools ends because the waiting map shrinks (its nonces wrap
  around at \<open>2 ^ 64\<close>); the compare-and-swap loops are step relations, in which a retry is a step
  without effect; the loops that only end with the process (the event loop, the receive loops,
  the watchdog, the retry and polling tickers) are one step per iteration, run over arbitrary
  lists of events.

  \<^bold>\<open>Not modelled.\<close> Log records (\<^verbatim>\<open>pkg/logger\<close>) and the listening of HTTP servers are output with
  no effect on the state. \<^verbatim>\<open>pkg/config/loader.go\<close>, \<^verbatim>\<open>pkg/dkg\<close>, \<^verbatim>\<open>cmd/dkg\<close>, \<^verbatim>\<open>internal/tss/api\<close>
  and \<^verbatim>\<open>internal/tss/core\<close> are placeholders that no part calls. Stub files of builds without
  the tags \<^verbatim>\<open>blst\<close>, \<^verbatim>\<open>beast\<close> and \<^verbatim>\<open>e2e\<close> return an error or nothing. The traffic generator
  \<^verbatim>\<open>test/attacker\<close> and the test server \<^verbatim>\<open>internal/tss/e2e_server_e2e.go\<close> belong to the tests.
  Zeroing of secret buffers, constant time and the secrecy of the schemes are outside a
  functional model. The hash cached in a transaction is left out, so a hash is always that of
  the current fields. Durations measured for the latency summaries are arguments.
\<close>

end
